(* ===== verification/Prelude.thy ===== *)
theory Prelude
  imports Complex_Main "HOL-Library.Word" "HOL-Library.Monad_Syntax"
begin

text \<open>
  Shared vocabulary of the development: the error values that stand for the engine's exceptions
  and aborts, the clock readings every time dependent operation takes, the rounding functions of
  the C++ library on exact numbers, and generic lemmas on lists, options and rounding.

  A C++ \<open>double\<close> is modelled as an exact \<open>real\<close> (a NaN is \<open>None\<close> where the code can produce or
  test one); IEEE rounding is not modelled. Counters whose wrap-around matters are words; clock
  values and counters that stay far below \<open>2^63\<close> are \<open>int\<close> or \<open>nat\<close>.
\<close>

subsection \<open>Named collections\<close>

named_theorems limiter_defs \<open>definitions of the rate limiter operations\<close>
named_theorems byte_simps \<open>evaluation of byte and word arithmetic\<close>

subsection \<open>Errors as values\<close>

text \<open>
  \<open>NighthawkException\<close>, \<open>EnvoyException\<close> and \<open>UriException\<close> are thrown; a failing
  \<open>RELEASE_ASSERT\<close> or \<open>PANIC\<close> aborts the process. \<open>ASSERT\<close> is compiled out of release builds: the
  model has no branch for it, and the development proves the asserted conditions instead.
\<close>

datatype nh_error =
    NighthawkException string
  | EnvoyException string
  | UriException string
  | MalformedArgvException string
  | NoServingException
  | ReleaseAssert string
  | Panic string

type_synonym 'a result = "nh_error + 'a"

definition result_bind :: "'a result \<Rightarrow> ('a \<Rightarrow> 'b result) \<Rightarrow> 'b result" where
  "result_bind r f = (case r of Inl e \<Rightarrow> Inl e | Inr x \<Rightarrow> f x)"

lemma result_bind_simps [simp]:
  "result_bind (Inl e) f = Inl e"
  "result_bind (Inr x) f = f x"
  by (simp_all add: result_bind_def)

definition is_ok :: "'a result \<Rightarrow> bool" where
  "is_ok r = (case r of Inl _ \<Rightarrow> False | Inr _ \<Rightarrow> True)"

lemma is_ok_simps [simp]: "\<not> is_ok (Inl e)" "is_ok (Inr x)"
  by (simp_all add: is_ok_def)

lemma is_ok_conv: "is_ok r \<longleftrightarrow> (\<exists>x. r = Inr x)"
  by (cases r) auto

subsection \<open>Clock readings\<close>

text \<open>
  A reading of an \<open>Envoy::TimeSource\<close>: the monotonic clock and the system clock, both in
  nanoseconds. An operation that consults its time source takes the reading as an argument.
\<close>

type_synonym nanos = int

record time_source =
  monotonicTime :: nanos
  systemTime :: nanos

text \<open>Durations of the C++ chrono library in nanoseconds.\<close>

definition one_second :: nanos where "one_second = 1000000000"
definition one_millisecond :: nanos where "one_millisecond = 1000000"
definition one_microsecond :: nanos where "one_microsecond = 1000"

subsection \<open>Rounding\<close>

text \<open>\<open>std::round\<close> rounds half away from zero.\<close>

definition c_round :: "real \<Rightarrow> int" where
  "c_round x = (if 0 \<le> x then \<lfloor>x + 1/2\<rfloor> else \<lceil>x - 1/2\<rceil>)"

lemma c_round_ge_iff: "0 \<le> x \<Longrightarrow> n \<le> c_round x \<longleftrightarrow> real_of_int n - 1/2 \<le> x"
  by (simp add: c_round_def le_floor_iff) linarith

lemma c_round_mono: "0 \<le> x \<Longrightarrow> x \<le> y \<Longrightarrow> c_round x \<le> c_round y"
  by (simp add: c_round_def floor_mono)

lemma c_round_zero [simp]: "c_round 0 = 0"
  by (simp add: c_round_def)

lemma c_round_nonneg: "0 \<le> x \<Longrightarrow> 0 \<le> c_round x"
  by (simp add: c_round_def)

lemma c_round_of_int [simp]: "c_round (real_of_int n) = n"
  by (auto simp: c_round_def floor_eq_iff ceiling_eq_iff)

subsection \<open>Lists\<close>

lemma sorted_insort_set: "set (takeWhile P xs @ x # dropWhile P xs) = insert x (set xs)"
proof -
  have "set (takeWhile P xs) \<union> set (dropWhile P xs) = set xs"
    by (metis set_append takeWhile_dropWhile_id)
  then show ?thesis by auto
qed

end
