(* ===== verification/RateLimiter.thy ===== *)
theory RateLimiter
  imports Prelude
begin

text \<open>
  The rate limiter interface (\<^verbatim>\<open>include/nighthawk/common/rate_limiter.h\<close>), the shared clock handling
  of \<^verbatim>\<open>RateLimiterBaseImpl\<close>, and the contracts the rest of the engine relies on.

  A limiter is a state and the operations \<open>tryAcquireOne\<close>, \<open>releaseOne\<close>, \<open>elapsed\<close> and
  \<open>timeUntilNextRelease\<close>, each taking the clock reading it would obtain from its time source.
  The locale \<open>rate_limiter_contract\<close> states what the interface documents: the wait reported is a
  lower bound on the next success, a successful acquisition can be handed back, and a caller that
  acquires greedily at one instant runs out after \<open>budget\<close> successes. The locale
  \<open>reopenable_limiter\<close> adds what a queueing wrapper needs on top: once a limiter has released it
  stays open to \<open>releaseOne\<close>.
\<close>

subsection \<open>The clock of a limiter\<close>

record RateLimiterBase =
  start_time :: "nanos option"
  first_acquisition_time :: "nanos option"

definition RateLimiterBase_init :: RateLimiterBase where
  "RateLimiterBase_init = \<lparr>start_time = None, first_acquisition_time = None\<rparr>"

definition base_elapsed :: "time_source \<Rightarrow> RateLimiterBase \<Rightarrow> nanos \<times> RateLimiterBase" where
  "base_elapsed ts b =
     (case start_time b of
        None \<Rightarrow> (0, b\<lparr>first_acquisition_time := Some (systemTime ts), start_time := Some (monotonicTime ts)\<rparr>)
      | Some s \<Rightarrow> (monotonicTime ts - s, b))"

definition started :: "RateLimiterBase \<Rightarrow> bool" where
  "started b = (start_time b \<noteq> None)"

definition firstAcquisitionTime :: "RateLimiterBase \<Rightarrow> nanos option" where
  "firstAcquisitionTime b = first_acquisition_time b"

lemma base_elapsed_started:
  "start_time b = Some s \<Longrightarrow> base_elapsed ts b = (monotonicTime ts - s, b)"
  by (simp add: base_elapsed_def)

text \<open>Reading the clock twice at one instant gives the same answer and changes nothing more.\<close>

lemma base_elapsed_idem:
  "base_elapsed ts (snd (base_elapsed ts b)) = base_elapsed ts b"
  by (auto simp: base_elapsed_def split: option.splits)

lemma started_base_elapsed [simp]: "started (snd (base_elapsed ts b))"
  by (auto simp: base_elapsed_def started_def split: option.splits)

text \<open>The elapsed time at clock \<open>t\<close>: zero before the first attempt.\<close>

definition since :: "RateLimiterBase \<Rightarrow> nanos \<Rightarrow> nanos" where
  "since b t = (case start_time b of None \<Rightarrow> 0 | Some s \<Rightarrow> t - s)"

lemma since_base_elapsed [simp]:
  "since (snd (base_elapsed ts b)) (monotonicTime ts) = since b (monotonicTime ts)"
  by (auto simp: base_elapsed_def since_def split: option.splits)

lemma since_mono: "t \<le> t' \<Longrightarrow> since b t \<le> since b t'"
  by (auto simp: since_def split: option.splits)

lemma base_elapsed_eq:
  "base_elapsed ts b = (since b (monotonicTime ts), snd (base_elapsed ts b))"
  by (auto simp: base_elapsed_def since_def split: option.splits)

subsection \<open>Frequencies\<close>

text \<open>\<open>freq_interval\<close> is NaN (\<open>None\<close>) for zero hertz.\<close>

record Frequency =
  freq_hertz :: nat
  freq_interval :: "real option"

definition mk_Frequency :: "nat \<Rightarrow> Frequency" where
  "mk_Frequency hertz =
     \<lparr>freq_hertz = hertz, freq_interval = (if hertz = 0 then None else Some (1 / real hertz))\<rparr>"

text \<open>
  Every limiter refuses a zero frequency at construction, so the \<open>None\<close> case of \<open>interval\<close> is not
  reached from a constructed limiter.
\<close>

definition interval :: "Frequency \<Rightarrow> real" where
  "interval f = (case freq_interval f of Some i \<Rightarrow> i | None \<Rightarrow> 0)"

lemma interval_mk_Frequency [simp]: "h > 0 \<Longrightarrow> interval (mk_Frequency h) = 1 / real h"
  by (simp add: interval_def mk_Frequency_def)

lemma hertz_mk_Frequency [simp]: "freq_hertz (mk_Frequency h) = h"
  by (simp add: mk_Frequency_def)

lemma mk_Frequency_inj [simp]: "mk_Frequency h = mk_Frequency h' \<longleftrightarrow> h = h'"
  by (auto simp: mk_Frequency_def)

subsection \<open>Contracts\<close>

locale rate_limiter_contract =
  fixes try_acquire :: "time_source \<Rightarrow> 's \<Rightarrow> bool \<times> 's"
    and release :: "time_source \<Rightarrow> 's \<Rightarrow> 's result"
    and elapsed :: "time_source \<Rightarrow> 's \<Rightarrow> nanos \<times> 's"
    and wait :: "time_source \<Rightarrow> 's \<Rightarrow> nanos option"
    and valid :: "nanos \<Rightarrow> 's \<Rightarrow> bool"
    and budget :: "time_source \<Rightarrow> 's \<Rightarrow> nat"
  assumes valid_later: "valid t s \<Longrightarrow> t \<le> t' \<Longrightarrow> valid t' s"
    and valid_try: "valid t s \<Longrightarrow> t \<le> monotonicTime ts \<Longrightarrow>
          valid (monotonicTime ts) (snd (try_acquire ts s))"
    and valid_release: "valid t s \<Longrightarrow> t \<le> monotonicTime ts \<Longrightarrow>
          release ts (snd (try_acquire ts s)) = Inr s' \<Longrightarrow> valid (monotonicTime ts) s'"
    and valid_elapsed: "valid t s \<Longrightarrow> t \<le> monotonicTime ts \<Longrightarrow>
          valid (monotonicTime ts) (snd (elapsed ts s))"
    and success_release_ok: "valid t s \<Longrightarrow> t \<le> monotonicTime ts \<Longrightarrow>
          try_acquire ts s = (True, s') \<Longrightarrow> is_ok (release ts s')"
    and wait_nonneg: "valid (monotonicTime ts) s \<Longrightarrow> wait ts s = Some d \<Longrightarrow> 0 \<le> d"
    and wait_lower_bound: "valid (monotonicTime ts) s \<Longrightarrow> wait ts s = Some d \<Longrightarrow>
          monotonicTime ts \<le> monotonicTime ts' \<Longrightarrow> monotonicTime ts' < monotonicTime ts + d \<Longrightarrow>
          \<not> fst (try_acquire ts' s)"
    and budget_success: "valid t s \<Longrightarrow> t \<le> monotonicTime ts \<Longrightarrow>
          try_acquire ts s = (True, s') \<Longrightarrow> budget ts s' < budget ts s"
    and budget_failure: "valid t s \<Longrightarrow> t \<le> monotonicTime ts \<Longrightarrow>
          try_acquire ts s = (False, s') \<Longrightarrow> budget ts s' \<le> budget ts s"
    and budget_elapsed: "valid t s \<Longrightarrow> t \<le> monotonicTime ts \<Longrightarrow>
          budget ts (snd (elapsed ts s)) \<le> budget ts s"
    and elapsed_idem: "snd (elapsed ts (snd (elapsed ts s))) = snd (elapsed ts s)"
    and valid_release_elapsed: "valid t s \<Longrightarrow> t \<le> monotonicTime ts \<Longrightarrow>
          release ts (snd (elapsed ts (snd (try_acquire ts s)))) = Inr s' \<Longrightarrow> valid (monotonicTime ts) s'"
begin

lemma valid_try_now: "valid (monotonicTime ts) s \<Longrightarrow> valid (monotonicTime ts) (snd (try_acquire ts s))"
  by (rule valid_try) auto

end

locale reopenable_limiter = rate_limiter_contract +
  fixes opened :: "nanos \<Rightarrow> 's \<Rightarrow> bool"
  assumes opened_later: "opened t s \<Longrightarrow> t \<le> t' \<Longrightarrow> opened t' s"
    and opened_try: "opened t s \<Longrightarrow> t \<le> monotonicTime ts \<Longrightarrow>
          opened (monotonicTime ts) (snd (try_acquire ts s))"
    and opened_elapsed: "opened t s \<Longrightarrow> t \<le> monotonicTime ts \<Longrightarrow>
          opened (monotonicTime ts) (snd (elapsed ts s))"
    and opened_release: "opened t s \<Longrightarrow> t \<le> monotonicTime ts \<Longrightarrow>
          release ts s = Inr s' \<Longrightarrow> opened (monotonicTime ts) s'"
    and success_opened: "valid t s \<Longrightarrow> t \<le> monotonicTime ts \<Longrightarrow>
          try_acquire ts s = (True, s') \<Longrightarrow> opened (monotonicTime ts) s'"
    and opened_release_ok: "opened t s \<Longrightarrow> t \<le> monotonicTime ts \<Longrightarrow> is_ok (release ts s)"

text \<open>
  A limiter with an account: \<open>taken\<close> is the number of acquisitions granted and not handed back, which
  an \<open>allowance\<close> bounds at any time.
\<close>

locale counted_limiter = rate_limiter_contract +
  fixes taken :: "'s \<Rightarrow> int" and allowance :: "nanos \<Rightarrow> 's \<Rightarrow> int"
  assumes taken_try: "valid t s \<Longrightarrow> t \<le> monotonicTime ts \<Longrightarrow>
          try_acquire ts s = (r, s') \<Longrightarrow> taken s' = taken s + of_bool r"
    and taken_release: "release ts s = Inr s' \<Longrightarrow> taken s' = taken s - 1"
    and taken_elapsed: "taken (snd (elapsed ts s)) = taken s"
    and taken_bound: "valid t s \<Longrightarrow> taken s \<le> allowance t s"

locale counted_reopenable =
  counted_limiter try_acquire release elapsed wait valid budget taken allowance +
  reopenable_limiter try_acquire release elapsed wait valid budget opened
  for try_acquire :: "time_source \<Rightarrow> 's \<Rightarrow> bool \<times> 's"
    and release :: "time_source \<Rightarrow> 's \<Rightarrow> 's result"
    and elapsed :: "time_source \<Rightarrow> 's \<Rightarrow> nanos \<times> 's"
    and wait :: "time_source \<Rightarrow> 's \<Rightarrow> nanos option"
    and valid :: "nanos \<Rightarrow> 's \<Rightarrow> bool"
    and budget :: "time_source \<Rightarrow> 's \<Rightarrow> nat"
    and taken :: "'s \<Rightarrow> int"
    and allowance :: "nanos \<Rightarrow> 's \<Rightarrow> int"
    and opened :: "nanos \<Rightarrow> 's \<Rightarrow> bool"

subsection \<open>Greedy acquisition\<close>

text \<open>
  What the sequencer does with a target that always has capacity: acquire until the limiter says
  no. \<open>drain n\<close> makes at most \<open>n\<close> attempts and counts the successes.
\<close>

fun drain :: "nat \<Rightarrow> ('s \<Rightarrow> bool \<times> 's) \<Rightarrow> 's \<Rightarrow> nat \<times> 's" where
  "drain 0 try s = (0, s)"
| "drain (Suc n) try s =
     (case try s of
        (False, s') \<Rightarrow> (0, s')
      | (True, s') \<Rightarrow> (case drain n try s' of (k, s'') \<Rightarrow> (Suc k, s'')))"

context rate_limiter_contract
begin

lemma drain_le_budget:
  "valid t s \<Longrightarrow> t \<le> monotonicTime ts \<Longrightarrow> fst (drain n (try_acquire ts) s) \<le> budget ts s"
proof (induction n arbitrary: s t)
  case (Suc n)
  obtain ok s' where tr: "try_acquire ts s = (ok, s')" by fastforce
  have val: "valid (monotonicTime ts) s'"
    using valid_try [OF Suc.prems] tr by simp
  show ?case
  proof (cases ok)
    case True
    have "fst (drain n (try_acquire ts) s') \<le> budget ts s'"
      using Suc.IH [OF val] by simp
    moreover have "budget ts s' < budget ts s"
      using budget_success [OF Suc.prems] tr True by simp
    ultimately show ?thesis using tr True by (auto split: prod.splits)
  qed (simp add: tr)
qed simp

end

subsection \<open>The protocol of the caller\<close>

text \<open>
  A caller attempts to acquire and, when it cannot use a success, hands it back at once: what the
  sequencer does when its target has no capacity. \<open>attempts\<close> runs a list of such attempts, each with
  its clock reading and whether a success could be used, and counts the acquisitions kept.
\<close>

fun attempts :: "(time_source \<Rightarrow> 's \<Rightarrow> bool \<times> 's) \<Rightarrow> (time_source \<Rightarrow> 's \<Rightarrow> 's result) \<Rightarrow>
    (time_source \<times> bool) list \<Rightarrow> 's \<Rightarrow> (nat \<times> 's) result" where
  "attempts try rel [] s = Inr (0, s)"
| "attempts try rel ((ts, keep) # ops) s =
     (case try ts s of
        (False, s') \<Rightarrow> attempts try rel ops s'
      | (True, s') \<Rightarrow>
          if keep then result_bind (attempts try rel ops s') (\<lambda>(n, s''). Inr (Suc n, s''))
          else result_bind (rel ts s') (attempts try rel ops))"

text \<open>The clock never runs backwards over the attempts, and is not before \<open>t\<close>.\<close>

fun clock_ordered :: "nanos \<Rightarrow> (time_source \<times> bool) list \<Rightarrow> bool" where
  "clock_ordered t [] = True"
| "clock_ordered t ((ts, keep) # ops) = (t \<le> monotonicTime ts \<and> clock_ordered (monotonicTime ts) ops)"

fun last_clock :: "nanos \<Rightarrow> (time_source \<times> bool) list \<Rightarrow> nanos" where
  "last_clock t [] = t"
| "last_clock t ((ts, keep) # ops) = last_clock (monotonicTime ts) ops"

context rate_limiter_contract
begin

text \<open>
  No attempt of a protocol abiding caller fails, and every invariant \<open>P\<close> of the number of kept
  acquisitions and the limiter state that single attempts keep holds at the end.
\<close>

lemma attempts_invariant:
  assumes "valid t s" "P n s" "clock_ordered t ops"
    and fail: "\<And>n t s ts s'. valid t s \<Longrightarrow> P n s \<Longrightarrow> t \<le> monotonicTime ts \<Longrightarrow> try_acquire ts s = (False, s') \<Longrightarrow> P n s'"
    and kept: "\<And>n t s ts s'. valid t s \<Longrightarrow> P n s \<Longrightarrow> t \<le> monotonicTime ts \<Longrightarrow> try_acquire ts s = (True, s') \<Longrightarrow> P (Suc n) s'"
    and handed: "\<And>n t s ts s' s''. valid t s \<Longrightarrow> P n s \<Longrightarrow> t \<le> monotonicTime ts \<Longrightarrow> try_acquire ts s = (True, s') \<Longrightarrow>
                 release ts s' = Inr s'' \<Longrightarrow> P n s''"
  shows "\<exists>k s'. attempts try_acquire release ops s = Inr (k, s') \<and> valid (last_clock t ops) s' \<and> P (n + k) s'"
  using assms(1-3)
proof (induction ops arbitrary: t s n)
  case (Cons op ops)
  obtain ts keep where op: "op = (ts, keep)" by fastforce
  have le: "t \<le> monotonicTime ts" and rest: "clock_ordered (monotonicTime ts) ops"
    using Cons.prems op by auto
  obtain ok s' where tr: "try_acquire ts s = (ok, s')" by fastforce
  have val: "valid (monotonicTime ts) s'" using valid_try [OF Cons.prems(1) le] tr by simp
  show ?case
  proof (cases ok)
    case False
    then show ?thesis
      using Cons.IH [OF val _ rest, of n] fail [OF Cons.prems(1,2) le] tr op by simp
  next
    case True
    then have tr: "try_acquire ts s = (True, s')" using tr by simp
    show ?thesis
    proof (cases keep)
      case True
      obtain k s'' where "attempts try_acquire release ops s' = Inr (k, s'')"
          "valid (last_clock (monotonicTime ts) ops) s''" "P (Suc n + k) s''"
        using Cons.IH [OF val kept [OF Cons.prems(1,2) le tr] rest] by blast
      then show ?thesis using tr op True by simp
    next
      case False
      obtain s'' where r: "release ts s' = Inr s''"
        using success_release_ok [OF Cons.prems(1) le tr] by (auto simp: is_ok_conv)
      have "valid (monotonicTime ts) s''" using valid_release [OF Cons.prems(1) le] tr r by simp
      then show ?thesis
        using Cons.IH [OF _ handed [OF Cons.prems(1,2) le tr r] rest] tr op False r by simp
    qed
  qed
qed simp

end

context counted_limiter
begin

text \<open>The account of a protocol abiding caller: what it kept is what was taken, within the allowance.\<close>

lemma attempts_counted:
  assumes "valid t s" "clock_ordered t ops"
  shows "\<exists>n s'. attempts try_acquire release ops s = Inr (n, s') \<and> valid (last_clock t ops) s' \<and>
           taken s' = taken s + int n \<and> taken s' \<le> allowance (last_clock t ops) s'"
proof -
  let ?P = "\<lambda>n s'. taken s' = taken s + int n"
  have "\<exists>k s'. attempts try_acquire release ops s = Inr (k, s') \<and> valid (last_clock t ops) s' \<and> ?P (0 + k) s'"
  proof (rule attempts_invariant [where P = ?P, OF assms(1) _ assms(2)], goal_cases)
    case 1 then show ?case by simp
  next
    case (2 n t s ts s') then show ?case using taken_try by fastforce
  next
    case (3 n t s ts s') then show ?case using taken_try by fastforce
  next
    case (4 n t s ts s' s'') then show ?case using taken_try taken_release by fastforce
  qed
  then show ?thesis using taken_bound by auto
qed

end

end
