(* ===== verification/LinearLimiter.thy ===== *)
theory LinearLimiter
  imports RateLimiter
begin

text \<open>
  \<^verbatim>\<open>LinearRateLimiter\<close> of \<^verbatim>\<open>source/common/rate_limiter_impl.{h,cc}\<close>: the default limiter. The number of
  acquisitions due after \<open>e\<close> nanoseconds is \<open>\<lfloor>e \<cdot> hertz / 10\<^sup>9 + 1/2\<rfloor>\<close> (\<open>linear_due\<close>); the lemmas show
  that the limiter never grants more, that greedy acquisition reaches it exactly, and that the
  reported wait is the exact distance to the next grant.
\<close>

record LinearRateLimiter =
  lin_base :: RateLimiterBase
  acquireable_count :: int
  acquired_count :: int
  frequency :: Frequency

definition mk_LinearRateLimiter :: "Frequency \<Rightarrow> LinearRateLimiter result" where
  "mk_LinearRateLimiter f =
     (if freq_hertz f \<le> 0 then Inl (NighthawkException ''frequency must be <= 0, value: '')
      else Inr \<lparr>lin_base = RateLimiterBase_init, acquireable_count = 0, acquired_count = 0, frequency = f\<rparr>)"

definition linear_elapsed :: "time_source \<Rightarrow> LinearRateLimiter \<Rightarrow> nanos \<times> LinearRateLimiter" where
  "linear_elapsed ts l = (case base_elapsed ts (lin_base l) of (e, b) \<Rightarrow> (e, l\<lparr>lin_base := b\<rparr>))"

function linear_tryAcquireOne :: "time_source \<Rightarrow> LinearRateLimiter \<Rightarrow> bool \<times> LinearRateLimiter" where
  "linear_tryAcquireOne ts l =
     (if acquireable_count l > 0
      then (True, l\<lparr>acquireable_count := acquireable_count l - 1, acquired_count := acquired_count l + 1\<rparr>)
      else
        let (e, l') = linear_elapsed ts l;
            phase_shifted = real_of_int e / 10 ^ 9 + interval (frequency l) / 2;
            n = \<lfloor>phase_shifted / interval (frequency l)\<rfloor> - acquired_count l;
            l'' = l'\<lparr>acquireable_count := n\<rparr>
        in if n > 0 then linear_tryAcquireOne ts l'' else (False, l''))"
  by pat_completeness auto
termination
  by (relation "measure (\<lambda>(ts, l). if acquireable_count l > 0 then 0 else 1)") auto

declare linear_tryAcquireOne.simps [simp del]

definition linear_releaseOne :: "time_source \<Rightarrow> LinearRateLimiter \<Rightarrow> LinearRateLimiter result" where
  "linear_releaseOne ts l =
     Inr (l\<lparr>acquireable_count := acquireable_count l + 1, acquired_count := acquired_count l - 1\<rparr>)"

definition linear_timeUntilNextRelease :: "time_source \<Rightarrow> LinearRateLimiter \<Rightarrow> nanos option" where
  "linear_timeUntilNextRelease ts l =
     (if acquireable_count l > 0 \<or> \<not> started (lin_base l) then Some 0
      else let due = interval (frequency l) * real_of_int (acquired_count l + 1) - interval (frequency l) / 2
           in Some (max 0 \<lceil>(due - real_of_int (fst (linear_elapsed ts l)) / 10 ^ 9) * 10 ^ 9\<rceil>))"

subsection \<open>What is due\<close>

definition linear_due :: "nat \<Rightarrow> nanos \<Rightarrow> int" where
  "linear_due h e = \<lfloor>real_of_int e * real h / 10 ^ 9 + 1/2\<rfloor>"

lemma linear_due_mono: "e \<le> e' \<Longrightarrow> linear_due h e \<le> linear_due h e'"
  unfolding linear_due_def by (intro floor_mono add_right_mono divide_right_mono mult_right_mono) auto

lemma linear_due_zero [simp]: "linear_due h 0 = 0"
  by (simp add: linear_due_def)

lemma linear_due_nonneg: "0 \<le> e \<Longrightarrow> 0 \<le> linear_due h e"
  using linear_due_mono [of 0 e h] by simp

text \<open>Acquisition \<open>n\<close> is due from \<open>n/hertz - 1/(2 hertz)\<close> seconds on.\<close>

lemma linear_due_ge_iff:
  assumes "0 < h"
  shows "n \<le> linear_due h e \<longleftrightarrow>
     (1 / real h * real_of_int n - 1 / real h / 2) * 10 ^ 9 \<le> real_of_int e"
proof -
  have "n \<le> linear_due h e \<longleftrightarrow> real_of_int n - 1/2 \<le> real_of_int e * real h / 10 ^ 9"
    unfolding linear_due_def le_floor_iff by linarith
  also have "\<dots> \<longleftrightarrow> (real_of_int n - 1/2) * 10 ^ 9 / real h \<le> real_of_int e"
    using assms by (simp add: field_simps)
  also have "(real_of_int n - 1/2) * 10 ^ 9 / real h = (1 / real h * real_of_int n - 1 / real h / 2) * 10 ^ 9"
    using assms by (simp add: field_simps)
  finally show ?thesis .
qed

lemma phase_shift_eq:
  assumes "0 < h"
  shows "\<lfloor>(real_of_int e / 1000000000 + 1 / (real h * 2)) * real h\<rfloor> = linear_due h e"
proof -
  have "(real_of_int e / 1000000000 + 1 / (real h * 2)) * real h = real_of_int e * real h / 10 ^ 9 + 1/2"
    using assms by (simp add: distrib_right)
  then show ?thesis by (simp only: linear_due_def)
qed

subsection \<open>Well-formed limiters\<close>

definition linear_ok :: "nanos \<Rightarrow> LinearRateLimiter \<Rightarrow> bool" where
  "linear_ok t l \<longleftrightarrow>
     (\<exists>h>0. frequency l = mk_Frequency h \<and>
       0 \<le> since (lin_base l) t \<and>
       acquired_count l + acquireable_count l \<le> linear_due h (since (lin_base l) t) \<and>
       0 \<le> acquireable_count l)"

lemma linear_elapsed_eq:
  "linear_elapsed ts l =
     (since (lin_base l) (monotonicTime ts), l\<lparr>lin_base := snd (base_elapsed ts (lin_base l))\<rparr>)"
  by (auto simp: linear_elapsed_def base_elapsed_def since_def split: option.splits)

lemma linear_ok_later:
  assumes "linear_ok t l" "t \<le> t'" shows "linear_ok t' l"
proof -
  obtain h where h: "h > 0" "frequency l = mk_Frequency h" "0 \<le> since (lin_base l) t"
      "acquired_count l + acquireable_count l \<le> linear_due h (since (lin_base l) t)"
      "0 \<le> acquireable_count l"
    using assms(1) by (auto simp: linear_ok_def)
  moreover have "since (lin_base l) t \<le> since (lin_base l) t'"
    using assms(2) by (rule since_mono)
  ultimately show ?thesis
    using linear_due_mono [of "since (lin_base l) t" "since (lin_base l) t'" h]
    by (auto simp: linear_ok_def)
qed

text \<open>
  The whole behaviour of an attempt at an instant where the limiter is well-formed: it succeeds
  exactly when fewer acquisitions were made than are due.
\<close>

lemma linear_try_cases:
  assumes "linear_ok (monotonicTime ts) l" "frequency l = mk_Frequency h" "h > 0"
  defines "e \<equiv> since (lin_base l) (monotonicTime ts)"
  obtains (fresh) "acquireable_count l > 0"
      "linear_tryAcquireOne ts l =
         (True, l\<lparr>acquireable_count := acquireable_count l - 1, acquired_count := acquired_count l + 1\<rparr>)"
    | (refill) "acquireable_count l = 0" "acquired_count l < linear_due h e"
      "linear_tryAcquireOne ts l =
         (True, l\<lparr>lin_base := snd (base_elapsed ts (lin_base l)),
                 acquireable_count := linear_due h e - acquired_count l - 1,
                 acquired_count := acquired_count l + 1\<rparr>)"
    | (empty) "acquireable_count l = 0" "acquired_count l = linear_due h e"
      "linear_tryAcquireOne ts l =
         (False, l\<lparr>lin_base := snd (base_elapsed ts (lin_base l)), acquireable_count := 0\<rparr>)"
proof -
  have ok: "0 \<le> acquireable_count l" "acquired_count l + acquireable_count l \<le> linear_due h e"
    using assms by (auto simp: linear_ok_def mk_Frequency_def e_def)
  let ?l = "l\<lparr>lin_base := snd (base_elapsed ts (lin_base l)), acquireable_count := linear_due h e - acquired_count l\<rparr>"
  have step: "linear_tryAcquireOne ts l =
      (if linear_due h e - acquired_count l > 0 then linear_tryAcquireOne ts ?l else (False, ?l))"
    if "acquireable_count l = 0"
    using that assms(2,3)
    by (subst linear_tryAcquireOne.simps)
       (simp add: linear_elapsed_eq phase_shift_eq Let_def e_def)
  show ?thesis
  proof (cases "acquireable_count l > 0")
    case True
    then show ?thesis using fresh by (simp add: linear_tryAcquireOne.simps)
  next
    case False
    with ok have z: "acquireable_count l = 0" by simp
    show ?thesis
    proof (cases "acquired_count l < linear_due h e")
      case True
      have "linear_tryAcquireOne ts l = linear_tryAcquireOne ts ?l"
        using True by (simp add: step [OF z])
      also have "\<dots> = (True, ?l\<lparr>acquireable_count := linear_due h e - acquired_count l - 1,
                                  acquired_count := acquired_count l + 1\<rparr>)"
        using True by (subst linear_tryAcquireOne.simps) simp
      finally show ?thesis using refill [OF z True] by simp
    next
      case False
      with ok z have eq: "acquired_count l = linear_due h e" by simp
      have "linear_tryAcquireOne ts l = (False, ?l)"
        using eq by (simp add: step [OF z])
      then show ?thesis using empty [OF z eq] eq by simp
    qed
  qed
qed

lemma linear_ok_frequency:
  assumes "linear_ok t l"
  obtains h where "h > 0" "frequency l = mk_Frequency h"
  using assms by (auto simp: linear_ok_def)

lemma linear_ok_due:
  assumes "linear_ok t l" "frequency l = mk_Frequency h"
  shows "acquired_count l + acquireable_count l \<le> linear_due h (since (lin_base l) t)"
    and "0 \<le> acquireable_count l"
  using assms by (auto simp: linear_ok_def)

lemma linear_try_frequency [simp]: "frequency (snd (linear_tryAcquireOne ts l)) = frequency l"
  by (induction ts l rule: linear_tryAcquireOne.induct)
     (subst linear_tryAcquireOne.simps, simp add: linear_elapsed_eq Let_def)

lemma linear_try_ok:
  assumes "linear_ok t l" "t \<le> monotonicTime ts"
  shows "linear_ok (monotonicTime ts) (snd (linear_tryAcquireOne ts l))"
proof -
  have ok: "linear_ok (monotonicTime ts) l" using assms by (rule linear_ok_later)
  obtain h where h: "h > 0" "frequency l = mk_Frequency h" using ok by (rule linear_ok_frequency)
  from ok h(2,1) show ?thesis
    by (cases rule: linear_try_cases) (use ok h in \<open>auto simp: linear_ok_def mk_Frequency_def\<close>)
qed

lemma linear_release_ok:
  "linear_ok t l \<Longrightarrow> linear_releaseOne ts l = Inr l' \<Longrightarrow> linear_ok t l'"
  by (auto simp: linear_ok_def linear_releaseOne_def)

lemma linear_elapsed_ok:
  "linear_ok t l \<Longrightarrow> t \<le> monotonicTime ts \<Longrightarrow> linear_ok (monotonicTime ts) (snd (linear_elapsed ts l))"
  using linear_ok_later [of t l "monotonicTime ts"] by (simp add: linear_elapsed_eq linear_ok_def)

text \<open>An attempt succeeds exactly when fewer acquisitions have been made than are due.\<close>

lemma linear_try_iff:
  assumes "linear_ok (monotonicTime ts) l" "frequency l = mk_Frequency h" "h > 0"
  shows "fst (linear_tryAcquireOne ts l) \<longleftrightarrow>
           acquired_count l < linear_due h (since (lin_base l) (monotonicTime ts))"
  using assms
proof (cases rule: linear_try_cases)
  case fresh
  then show ?thesis using assms by (auto simp: linear_ok_def mk_Frequency_def)
qed auto

definition linear_budget :: "time_source \<Rightarrow> LinearRateLimiter \<Rightarrow> nat" where
  "linear_budget ts l =
     nat (linear_due (freq_hertz (frequency l)) (since (lin_base l) (monotonicTime ts)) - acquired_count l)"

lemma linear_budget_step:
  assumes "linear_ok (monotonicTime ts) l" "linear_tryAcquireOne ts l = (ok, l')"
  shows "linear_budget ts l' = linear_budget ts l - of_bool ok" and "ok \<longleftrightarrow> 0 < linear_budget ts l"
proof -
  obtain h where h: "h > 0" "frequency l = mk_Frequency h" using assms(1) by (rule linear_ok_frequency)
  have le: "acquired_count l + acquireable_count l \<le> linear_due h (since (lin_base l) (monotonicTime ts))"
    using assms(1) h by (auto simp: linear_ok_def mk_Frequency_def)
  from assms(1) h(2,1) show "linear_budget ts l' = linear_budget ts l - of_bool ok"
    by (cases rule: linear_try_cases) (use assms(2) h le in \<open>auto simp: linear_budget_def\<close>)
  from assms(1) h(2,1) show "ok \<longleftrightarrow> 0 < linear_budget ts l"
    by (cases rule: linear_try_cases) (use assms(2) h le in \<open>auto simp: linear_budget_def\<close>)
qed

text \<open>
  The wait is exact: no attempt before it succeeds, and an attempt at its end does.
\<close>

lemma linear_wait_bounds:
  assumes ok: "linear_ok (monotonicTime ts) l" and w: "linear_timeUntilNextRelease ts l = Some d"
    and le: "monotonicTime ts \<le> monotonicTime ts'"
  shows "0 \<le> d" and "monotonicTime ts' < monotonicTime ts + d \<Longrightarrow> \<not> fst (linear_tryAcquireOne ts' l)"
    and "started (lin_base l) \<Longrightarrow> monotonicTime ts + d \<le> monotonicTime ts' \<Longrightarrow> fst (linear_tryAcquireOne ts' l)"
proof -
  obtain h where h: "h > 0" "frequency l = mk_Frequency h" using ok by (rule linear_ok_frequency)
  have ok': "linear_ok (monotonicTime ts') l" using ok le by (rule linear_ok_later)
  note iff = linear_try_iff [OF ok' h(2,1)]
  show "0 \<le> d" using w by (auto simp: linear_timeUntilNextRelease_def Let_def split: if_splits)
  have main: "acquired_count l < linear_due h (since (lin_base l) (monotonicTime ts')) \<longleftrightarrow>
      monotonicTime ts + d \<le> monotonicTime ts'" if st: "started (lin_base l)" "\<not> acquireable_count l > 0"
  proof -
    obtain s where s: "start_time (lin_base l) = Some s" using st by (auto simp: started_def)
    let ?D = "(1 / real h * real_of_int (acquired_count l + 1) - 1 / real h / 2) * 10 ^ 9"
    define e where "e = monotonicTime ts - s"
    have el: "fst (linear_elapsed ts l) = e" using s by (simp add: linear_elapsed_eq since_def e_def)
    have d: "d = max 0 \<lceil>?D - real_of_int e\<rceil>"
      using w st h by (simp add: linear_timeUntilNextRelease_def el Let_def left_diff_distrib)
    have "acquired_count l < linear_due h (monotonicTime ts' - s) \<longleftrightarrow> ?D \<le> real_of_int (monotonicTime ts' - s)"
      using linear_due_ge_iff [OF h(1), of "acquired_count l + 1" "monotonicTime ts' - s"] by linarith
    also have "\<dots> \<longleftrightarrow> d \<le> monotonicTime ts' - monotonicTime ts"
      using le unfolding d e_def by (simp add: ceiling_le_iff) linarith
    finally show ?thesis by (auto simp: since_def s)
  qed
  show "\<not> fst (linear_tryAcquireOne ts' l)" if "monotonicTime ts' < monotonicTime ts + d"
  proof -
    have "started (lin_base l) \<and> \<not> acquireable_count l > 0"
      using w that le by (auto simp: linear_timeUntilNextRelease_def split: if_splits)
    then show ?thesis using main that iff by auto
  qed
  show "fst (linear_tryAcquireOne ts' l)" if st: "started (lin_base l)" and lt: "monotonicTime ts + d \<le> monotonicTime ts'"
  proof (cases "acquireable_count l > 0")
    case True
    then show ?thesis by (simp add: linear_tryAcquireOne.simps)
  next
    case False
    then show ?thesis using main [OF st] lt iff by auto
  qed
qed

interpretation lin: reopenable_limiter linear_tryAcquireOne linear_releaseOne linear_elapsed
  linear_timeUntilNextRelease linear_ok linear_budget "\<lambda>_ _. True"
proof (unfold_locales, goal_cases)
  case 1 then show ?case by (rule linear_ok_later)
next
  case 2 then show ?case by (rule linear_try_ok)
next
  case 3 then show ?case by (metis linear_try_ok linear_release_ok)
next
  case 4 then show ?case by (rule linear_elapsed_ok)
next
  case 5 then show ?case by (simp add: linear_releaseOne_def)
next
  case (6 ts s d) then show ?case by (metis linear_wait_bounds(1) order_refl)
next
  case 7 then show ?case by (metis linear_wait_bounds(2))
next
  case 8 then show ?case using linear_budget_step linear_ok_later by fastforce
next
  case 9 then show ?case using linear_budget_step linear_ok_later by fastforce
next
  case 10 then show ?case by (simp add: linear_budget_def linear_elapsed_eq)
next
  case 11 then show ?case by (simp add: linear_elapsed_eq base_elapsed_idem)
next
  case (12 t s ts s')
  have "linear_ok (monotonicTime ts) (snd (linear_elapsed ts (snd (linear_tryAcquireOne ts s))))"
    using linear_try_ok [OF 12(1,2)] by (rule linear_elapsed_ok) simp
  then show ?case using 12(3) by (rule linear_release_ok)
qed (auto simp: linear_releaseOne_def)

subsection \<open>Properties\<close>

lemma mk_LinearRateLimiter_eq:
  "mk_LinearRateLimiter (mk_Frequency h) = Inr l \<longleftrightarrow> 0 < h \<and>
     l = \<lparr>lin_base = RateLimiterBase_init, acquireable_count = 0, acquired_count = 0, frequency = mk_Frequency h\<rparr>"
  by (auto simp: mk_LinearRateLimiter_def)

lemma mk_LinearRateLimiter_ok:
  "mk_LinearRateLimiter (mk_Frequency h) = Inr l \<Longrightarrow> linear_ok t l"
  unfolding mk_LinearRateLimiter_eq by (simp add: linear_ok_def since_def RateLimiterBase_init_def)

lemma linear_try_acquired:
  assumes "linear_ok t l" "t \<le> monotonicTime ts" "linear_tryAcquireOne ts l = (r, l')"
  shows "acquired_count l' = acquired_count l + of_bool r"
proof -
  have ok: "linear_ok (monotonicTime ts) l" using assms(1,2) by (rule linear_ok_later)
  obtain h where h: "h > 0" "frequency l = mk_Frequency h" using ok by (rule linear_ok_frequency)
  from ok h(2,1) show ?thesis by (cases rule: linear_try_cases) (use assms(3) in auto)
qed

text \<open>
  C15: The linear limiter never grants more than its rate. A caller that attempts at clock readings
  that never run backwards, keeping a success or handing it back, is never refused a hand-back, the
  limiter's count is the number of acquisitions kept, and that number is at most
  \<open>\<lfloor>elapsed \<cdot> hertz / 10\<^sup>9 + 1/2\<rfloor>\<close> at the last reading.
\<close>

theorem linear_never_exceeds_rate:
  assumes "mk_LinearRateLimiter (mk_Frequency h) = Inr l" "clock_ordered t ops"
  shows "\<exists>n l'. attempts linear_tryAcquireOne linear_releaseOne ops l = Inr (n, l') \<and>
           acquired_count l' = int n \<and> int n \<le> linear_due h (since (lin_base l') (last_clock t ops))"
proof -
  let ?P = "\<lambda>n l. acquired_count l = int n \<and> frequency l = mk_Frequency h"
  have fresh: "linear_ok t l" "?P 0 l"
    using mk_LinearRateLimiter_ok [OF assms(1)] assms(1) by (simp_all add: mk_LinearRateLimiter_eq)
  have "\<exists>k l'. attempts linear_tryAcquireOne linear_releaseOne ops l = Inr (k, l') \<and>
          linear_ok (last_clock t ops) l' \<and> ?P (0 + k) l'"
  proof (rule lin.attempts_invariant [where P = ?P, OF fresh assms(2)], goal_cases)
    case (1 n t s ts s') then show ?case
      using linear_try_acquired [of t s ts False s'] linear_try_frequency [of ts s] by simp
  next
    case (2 n t s ts s') then show ?case
      using linear_try_acquired [of t s ts True s'] linear_try_frequency [of ts s] by simp
  next
    case (3 n t s ts s' s'') then show ?case
      using linear_try_acquired [of t s ts True s'] linear_try_frequency [of ts s]
      by (auto simp: linear_releaseOne_def)
  qed
  then obtain k l' where "attempts linear_tryAcquireOne linear_releaseOne ops l = Inr (k, l')"
    "linear_ok (last_clock t ops) l'" "?P k l'" by auto
  then show ?thesis using linear_ok_due [of "last_clock t ops" l' h] by auto
qed

theorem linear_never_exceeds_rate_witness:
  "\<exists>n l'. attempts linear_tryAcquireOne linear_releaseOne
      [(\<lparr>monotonicTime = 5, systemTime = 0\<rparr>, True), (\<lparr>monotonicTime = 600000005, systemTime = 0\<rparr>, True)]
      \<lparr>lin_base = RateLimiterBase_init, acquireable_count = 0, acquired_count = 0, frequency = mk_Frequency 1\<rparr>
      = Inr (n, l') \<and> acquired_count l' = int n \<and> int n \<le> linear_due 1 (since (lin_base l') 600000005)"
proof -
  have "mk_LinearRateLimiter (mk_Frequency 1) =
      Inr \<lparr>lin_base = RateLimiterBase_init, acquireable_count = 0, acquired_count = 0, frequency = mk_Frequency 1\<rparr>"
    by (simp add: mk_LinearRateLimiter_def)
  from linear_never_exceeds_rate [OF this, of 0
      "[(\<lparr>monotonicTime = 5, systemTime = 0\<rparr>, True), (\<lparr>monotonicTime = 600000005, systemTime = 0\<rparr>, True)]"]
  show ?thesis by simp
qed



lemma linear_wait_Some: "\<exists>d. linear_timeUntilNextRelease ts l = Some d"
  by (simp add: linear_timeUntilNextRelease_def Let_def)



end
