(* ===== verification/RampingLimiter.thy ===== *)
theory RampingLimiter
  imports RateLimiter
begin

text \<open>
  \<^verbatim>\<open>LinearRampingRateLimiterImpl\<close> of \<^verbatim>\<open>source/common/rate_limiter_impl.{h,cc}\<close> and its plugin factory. The
  number of acquisitions due grows quadratically over the ramp and linearly after it
  (\<open>ramping_total\<close>). The lemmas show that it never decreases, that the limiter never grants more,
  and that the closed form the wait is computed from (\<open>ramping_due\<close>) is its exact inverse.
\<close>

record LinearRampingRateLimiter =
  ramp_base :: RateLimiterBase
  ramp_acquireable_count :: int
  ramp_acquired_count :: int
  ramp_time :: nanos
  ramp_frequency :: Frequency
  target_freq_ns :: real
  total_ramp_requests :: int

definition mk_LinearRampingRateLimiter :: "nanos \<Rightarrow> Frequency \<Rightarrow> LinearRampingRateLimiter result" where
  "mk_LinearRampingRateLimiter rt f =
     (let tf = real (freq_hertz f) / 10 ^ 9 in
      if freq_hertz f \<le> 0 then Inl (NighthawkException ''frequency must be > 0, value: '')
      else if rt \<le> 0 then Inl (NighthawkException ''ramp_time must be positive, value: '')
      else Inr \<lparr>ramp_base = RateLimiterBase_init, ramp_acquireable_count = 0, ramp_acquired_count = 0,
                ramp_time = rt, ramp_frequency = f, target_freq_ns = tf,
                total_ramp_requests = c_round (real_of_int rt * tf / 2)\<rparr>)"

definition ramping_elapsed :: "time_source \<Rightarrow> LinearRampingRateLimiter \<Rightarrow> nanos \<times> LinearRampingRateLimiter" where
  "ramping_elapsed ts l = (case base_elapsed ts (ramp_base l) of (e, b) \<Rightarrow> (e, l\<lparr>ramp_base := b\<rparr>))"

definition ramping_total :: "LinearRampingRateLimiter \<Rightarrow> nanos \<Rightarrow> int" where
  "ramping_total l elapsed_time =
     (if elapsed_time < ramp_time l then
        let elapsed_fraction = 1 - real_of_int (ramp_time l - elapsed_time) / real_of_int (ramp_time l);
            current_frequency = elapsed_fraction * real (freq_hertz (ramp_frequency l))
        in c_round (real_of_int elapsed_time / 10 ^ 9 * current_frequency / 2)
      else total_ramp_requests l + c_round (real_of_int (elapsed_time - ramp_time l) * target_freq_ns l))"

function ramping_tryAcquireOne ::
  "time_source \<Rightarrow> LinearRampingRateLimiter \<Rightarrow> bool \<times> LinearRampingRateLimiter" where
  "ramping_tryAcquireOne ts l =
     (if ramp_acquireable_count l \<noteq> 0
      then (True, l\<lparr>ramp_acquired_count := ramp_acquired_count l + 1,
                    ramp_acquireable_count := ramp_acquireable_count l - 1\<rparr>)
      else
        let (e, l') = ramping_elapsed ts l;
            n = ramping_total l e - ramp_acquired_count l;
            l'' = l'\<lparr>ramp_acquireable_count := n\<rparr>
        in if n > 0 then ramping_tryAcquireOne ts l'' else (False, l''))"
  by pat_completeness auto
termination
  by (relation "measure (\<lambda>(ts, l). if ramp_acquireable_count l \<noteq> 0 then 0 else 1)") auto

declare ramping_tryAcquireOne.simps [simp del]

definition ramping_releaseOne :: "time_source \<Rightarrow> LinearRampingRateLimiter \<Rightarrow> LinearRampingRateLimiter result" where
  "ramping_releaseOne ts l =
     Inr (l\<lparr>ramp_acquireable_count := ramp_acquireable_count l + 1,
             ramp_acquired_count := ramp_acquired_count l - 1\<rparr>)"

definition ramping_due :: "LinearRampingRateLimiter \<Rightarrow> real \<Rightarrow> real" where
  "ramping_due l target =
     (let due_ns = sqrt (target * 2 * real_of_int (ramp_time l) / target_freq_ns l)
      in if due_ns \<ge> real_of_int (ramp_time l)
         then max (real_of_int (ramp_time l))
                  (real_of_int (ramp_time l) + (target - real_of_int (total_ramp_requests l)) / target_freq_ns l)
         else due_ns)"

definition ramping_timeUntilNextRelease :: "time_source \<Rightarrow> LinearRampingRateLimiter \<Rightarrow> nanos option" where
  "ramping_timeUntilNextRelease ts l =
     (if ramp_acquireable_count l > 0 \<or> \<not> started (ramp_base l) then Some 0
      else let target = real_of_int (ramp_acquired_count l) + 1/2
           in Some (max 0 (\<lceil>ramping_due l target\<rceil> - fst (ramping_elapsed ts l))))"

subsection \<open>The closed form of the ramp\<close>

definition ramping_params :: "nat \<Rightarrow> LinearRampingRateLimiter \<Rightarrow> bool" where
  "ramping_params h l \<longleftrightarrow> h > 0 \<and> ramp_frequency l = mk_Frequency h \<and> ramp_time l > 0 \<and>
     target_freq_ns l = real h / 10 ^ 9 \<and>
     total_ramp_requests l = c_round (real_of_int (ramp_time l) * target_freq_ns l / 2)"

text \<open>While ramping, \<open>e\<^sup>2 \<cdot> target_freq_ns / (2 \<cdot> ramp_time)\<close> acquisitions are due, before rounding.\<close>

definition ramp_curve :: "LinearRampingRateLimiter \<Rightarrow> real \<Rightarrow> real" where
  "ramp_curve l e = e\<^sup>2 * target_freq_ns l / (2 * real_of_int (ramp_time l))"

lemma ramping_total_curve:
  assumes "ramping_params h l" "e < ramp_time l"
  shows "ramping_total l e = c_round (ramp_curve l (real_of_int e))"
proof -
  have r: "ramp_time l > 0" using assms by (simp add: ramping_params_def)
  have fr: "1 - real_of_int (ramp_time l - e) / real_of_int (ramp_time l) = real_of_int e / real_of_int (ramp_time l)"
    using r by (simp add: diff_divide_distrib)
  have tf: "target_freq_ns l = real h / 10 ^ 9" using assms by (simp add: ramping_params_def)
  have "real_of_int e / 10 ^ 9 * ((1 - real_of_int (ramp_time l - e) / real_of_int (ramp_time l)) * real h) / 2
      = ramp_curve l (real_of_int e)"
    unfolding fr ramp_curve_def tf power2_eq_square by simp
  then show ?thesis using assms by (simp add: ramping_total_def ramping_params_def Let_def)
qed

lemma ramp_curve_nonneg: "ramping_params h l \<Longrightarrow> 0 \<le> ramp_curve l e"
  by (simp add: ramp_curve_def ramping_params_def)

lemma ramp_curve_mono: "ramping_params h l \<Longrightarrow> 0 \<le> e \<Longrightarrow> e \<le> e' \<Longrightarrow> ramp_curve l e \<le> ramp_curve l e'"
  unfolding ramp_curve_def
  by (intro divide_right_mono mult_right_mono power_mono) (auto simp: ramping_params_def)

lemma total_ramp_requests_curve:
  "ramping_params h l \<Longrightarrow> total_ramp_requests l = c_round (ramp_curve l (real_of_int (ramp_time l)))"
  by (simp add: ramping_params_def ramp_curve_def power2_eq_square)

lemma ramping_total_after:
  "ramp_time l \<le> e \<Longrightarrow>
     ramping_total l e = total_ramp_requests l + c_round (real_of_int (e - ramp_time l) * target_freq_ns l)"
  by (simp add: ramping_total_def)

lemma after_ramp_nonneg:
  "ramping_params h l \<Longrightarrow> ramp_time l \<le> e \<Longrightarrow> 0 \<le> real_of_int (e - ramp_time l) * target_freq_ns l"
  by (simp add: ramping_params_def)

lemma ramping_total_mono:
  assumes p: "ramping_params h l" and "0 \<le> e" "e \<le> e'"
  shows "ramping_total l e \<le> ramping_total l e'"
proof -
  consider "e' < ramp_time l" | "e < ramp_time l" "ramp_time l \<le> e'" | "ramp_time l \<le> e"
    by linarith
  then show ?thesis
  proof cases
    case 1
    then show ?thesis using assms ramp_curve_mono [OF p]
      by (simp add: ramping_total_curve [OF p] c_round_mono ramp_curve_nonneg [OF p])
  next
    case 2
    have "c_round (ramp_curve l (real_of_int e)) \<le> total_ramp_requests l"
      unfolding total_ramp_requests_curve [OF p]
      using 2 assms by (intro c_round_mono ramp_curve_nonneg [OF p] ramp_curve_mono [OF p]) auto
    then show ?thesis
      using 2 c_round_nonneg [OF after_ramp_nonneg [OF p 2(2)]]
      by (simp add: ramping_total_curve [OF p] ramping_total_after)
  next
    case 3
    have "real_of_int (e - ramp_time l) * target_freq_ns l \<le> real_of_int (e' - ramp_time l) * target_freq_ns l"
      using assms by (intro mult_right_mono) (auto simp: ramping_params_def)
    then show ?thesis using 3 assms after_ramp_nonneg [OF p 3]
      by (simp add: ramping_total_after c_round_mono)
  qed
qed

lemma curve_ge_iff:
  assumes p: "ramping_params h l" and "0 \<le> e"
  shows "x \<le> ramp_curve l e \<longleftrightarrow> sqrt (x * 2 * real_of_int (ramp_time l) / target_freq_ns l) \<le> e"
proof -
  have pos: "target_freq_ns l > 0" "ramp_time l > 0" using p by (auto simp: ramping_params_def)
  have "x \<le> ramp_curve l e \<longleftrightarrow> x * 2 * real_of_int (ramp_time l) / target_freq_ns l \<le> e\<^sup>2"
    unfolding ramp_curve_def using pos by (simp add: field_simps)
  also have "\<dots> \<longleftrightarrow> sqrt (x * 2 * real_of_int (ramp_time l) / target_freq_ns l) \<le> e"
    using assms(2) by (auto intro: real_le_lsqrt dest: sqrt_le_D)
  finally show ?thesis .
qed

text \<open>\<open>ramping_due\<close> inverts \<open>ramping_total\<close>.\<close>

lemma ramping_total_ge_iff:
  assumes p: "ramping_params h l" and e: "0 \<le> e"
  shows "n \<le> ramping_total l e \<longleftrightarrow> ramping_due l (real_of_int n - 1/2) \<le> real_of_int e"
proof -
  let ?x = "real_of_int n - 1/2"
  let ?d = "sqrt (?x * 2 * real_of_int (ramp_time l) / target_freq_ns l)"
  have pos: "target_freq_ns l > 0" using p by (auto simp: ramping_params_def)
  show ?thesis
  proof (cases "e < ramp_time l")
    case True
    have "n \<le> ramping_total l e \<longleftrightarrow> ?d \<le> real_of_int e"
      using curve_ge_iff [OF p, of "real_of_int e" ?x] e
      by (simp add: ramping_total_curve [OF p True] c_round_ge_iff ramp_curve_nonneg [OF p])
    then show ?thesis using True by (auto simp: ramping_due_def Let_def max_def)
  next
    case False
    then have ge: "ramp_time l \<le> e" by simp
    let ?y = "real_of_int (e - ramp_time l) * target_freq_ns l"
    have "n \<le> ramping_total l e \<longleftrightarrow> n - total_ramp_requests l \<le> c_round ?y"
      by (simp add: ramping_total_after [OF ge]) linarith
    also have "\<dots> \<longleftrightarrow> ?x - real_of_int (total_ramp_requests l) \<le> ?y"
      using c_round_ge_iff [OF after_ramp_nonneg [OF p ge], of "n - total_ramp_requests l"] by simp linarith
    also have "\<dots> \<longleftrightarrow> real_of_int (ramp_time l) + (?x - real_of_int (total_ramp_requests l)) / target_freq_ns l \<le> real_of_int e"
      using pos by (simp add: field_simps)
    finally have iff: "n \<le> ramping_total l e \<longleftrightarrow>
      real_of_int (ramp_time l) + (?x - real_of_int (total_ramp_requests l)) / target_freq_ns l \<le> real_of_int e" .
    show ?thesis
    proof (cases "?d \<ge> real_of_int (ramp_time l)")
      case True
      then show ?thesis using iff ge by (auto simp: ramping_due_def Let_def)
    next
      case d: False
      have "?x \<le> ramp_curve l (real_of_int (ramp_time l))"
        using curve_ge_iff [OF p, of "real_of_int (ramp_time l)" ?x] d p by (simp add: ramping_params_def)
      then have "n \<le> total_ramp_requests l"
        by (simp add: total_ramp_requests_curve [OF p] c_round_ge_iff ramp_curve_nonneg [OF p])
      then have "n \<le> ramping_total l e"
        using c_round_nonneg [OF after_ramp_nonneg [OF p ge]] by (simp add: ramping_total_after [OF ge])
      then show ?thesis using d ge by (auto simp: ramping_due_def Let_def)
    qed
  qed
qed

subsection \<open>Well-formed limiters and the contract\<close>

definition ramping_ok :: "nanos \<Rightarrow> LinearRampingRateLimiter \<Rightarrow> bool" where
  "ramping_ok t l \<longleftrightarrow>
     (\<exists>h. ramping_params h l) \<and> 0 \<le> since (ramp_base l) t \<and> 0 \<le> ramp_acquireable_count l \<and>
     ramp_acquired_count l + ramp_acquireable_count l \<le> ramping_total l (since (ramp_base l) t)"

lemma ramping_elapsed_eq:
  "ramping_elapsed ts l =
     (since (ramp_base l) (monotonicTime ts), l\<lparr>ramp_base := snd (base_elapsed ts (ramp_base l))\<rparr>)"
  unfolding ramping_elapsed_def by (subst base_elapsed_eq) simp

lemma ramping_total_upd [simp]:
  "ramping_total (l\<lparr>ramp_base := b\<rparr>) = ramping_total l"
  "ramping_total (l\<lparr>ramp_acquireable_count := n\<rparr>) = ramping_total l"
  "ramping_total (l\<lparr>ramp_acquired_count := n\<rparr>) = ramping_total l"
  by (simp_all add: ramping_total_def fun_eq_iff)

lemma ramping_params_upd [simp]:
  "ramping_params h (l\<lparr>ramp_base := b\<rparr>) = ramping_params h l"
  "ramping_params h (l\<lparr>ramp_acquireable_count := n\<rparr>) = ramping_params h l"
  "ramping_params h (l\<lparr>ramp_acquired_count := n\<rparr>) = ramping_params h l"
  by (simp_all add: ramping_params_def)

lemma ramping_ok_later: "ramping_ok t l \<Longrightarrow> t \<le> t' \<Longrightarrow> ramping_ok t' l"
  using since_mono [of t t' "ramp_base l"] ramping_total_mono [of _ l "since (ramp_base l) t" "since (ramp_base l) t'"]
  by (fastforce simp: ramping_ok_def)

lemma ramping_try_cases:
  assumes ok: "ramping_ok (monotonicTime ts) l"
  defines "e \<equiv> since (ramp_base l) (monotonicTime ts)"
  obtains (fresh) "ramp_acquireable_count l > 0"
      "ramping_tryAcquireOne ts l =
         (True, l\<lparr>ramp_acquired_count := ramp_acquired_count l + 1,
                 ramp_acquireable_count := ramp_acquireable_count l - 1\<rparr>)"
    | (refill) "ramp_acquireable_count l = 0" "ramp_acquired_count l < ramping_total l e"
      "ramping_tryAcquireOne ts l =
         (True, l\<lparr>ramp_base := snd (base_elapsed ts (ramp_base l)),
                 ramp_acquired_count := ramp_acquired_count l + 1,
                 ramp_acquireable_count := ramping_total l e - ramp_acquired_count l - 1\<rparr>)"
    | (empty) "ramp_acquireable_count l = 0" "ramp_acquired_count l = ramping_total l e"
      "ramping_tryAcquireOne ts l =
         (False, l\<lparr>ramp_base := snd (base_elapsed ts (ramp_base l)), ramp_acquireable_count := 0\<rparr>)"
proof -
  have b: "0 \<le> ramp_acquireable_count l" "ramp_acquired_count l + ramp_acquireable_count l \<le> ramping_total l e"
    using ok by (auto simp: ramping_ok_def e_def)
  let ?l = "l\<lparr>ramp_base := snd (base_elapsed ts (ramp_base l)), ramp_acquireable_count := ramping_total l e - ramp_acquired_count l\<rparr>"
  have step: "ramping_tryAcquireOne ts l =
      (if ramping_total l e - ramp_acquired_count l > 0 then ramping_tryAcquireOne ts ?l else (False, ?l))"
    if "ramp_acquireable_count l = 0"
    using that by (subst ramping_tryAcquireOne.simps) (simp add: ramping_elapsed_eq Let_def e_def)
  show ?thesis
  proof (cases "ramp_acquireable_count l > 0")
    case True
    then show ?thesis using fresh by (simp add: ramping_tryAcquireOne.simps)
  next
    case False
    with b have z: "ramp_acquireable_count l = 0" by simp
    show ?thesis
    proof (cases "ramp_acquired_count l < ramping_total l e")
      case True
      have "ramping_tryAcquireOne ts l = ramping_tryAcquireOne ts ?l"
        using True by (simp add: step [OF z])
      also have "\<dots> = (True, ?l\<lparr>ramp_acquired_count := ramp_acquired_count l + 1,
                                  ramp_acquireable_count := ramping_total l e - ramp_acquired_count l - 1\<rparr>)"
        using True by (subst ramping_tryAcquireOne.simps) simp
      finally show ?thesis using refill [OF z True] by simp
    next
      case False
      with b z have eq: "ramp_acquired_count l = ramping_total l e" by simp
      have "ramping_tryAcquireOne ts l = (False, ?l)" using eq by (simp add: step [OF z])
      then show ?thesis using empty [OF z eq] eq by simp
    qed
  qed
qed

lemma ramping_try_ok:
  assumes "ramping_ok t l" "t \<le> monotonicTime ts"
  shows "ramping_ok (monotonicTime ts) (snd (ramping_tryAcquireOne ts l))"
proof -
  have ok: "ramping_ok (monotonicTime ts) l" using assms by (rule ramping_ok_later)
  then show ?thesis
    by (cases rule: ramping_try_cases) (use ok in \<open>auto simp: ramping_ok_def\<close>)
qed

lemma ramping_release_ok:
  "ramping_ok t l \<Longrightarrow> ramping_releaseOne ts l = Inr l' \<Longrightarrow> ramping_ok t l'"
  by (auto simp: ramping_ok_def ramping_releaseOne_def)

lemma ramping_elapsed_ok:
  "ramping_ok t l \<Longrightarrow> t \<le> monotonicTime ts \<Longrightarrow> ramping_ok (monotonicTime ts) (snd (ramping_elapsed ts l))"
  using ramping_ok_later [of t l "monotonicTime ts"] by (simp add: ramping_elapsed_eq ramping_ok_def)

lemma ramping_try_iff:
  assumes "ramping_ok (monotonicTime ts) l"
  shows "fst (ramping_tryAcquireOne ts l) \<longleftrightarrow>
           ramp_acquired_count l < ramping_total l (since (ramp_base l) (monotonicTime ts))"
  using assms
proof (cases rule: ramping_try_cases)
  case fresh
  then show ?thesis using assms by (auto simp: ramping_ok_def)
qed auto

definition ramping_budget :: "time_source \<Rightarrow> LinearRampingRateLimiter \<Rightarrow> nat" where
  "ramping_budget ts l = nat (ramping_total l (since (ramp_base l) (monotonicTime ts)) - ramp_acquired_count l)"

lemma ramping_budget_step:
  assumes ok: "ramping_ok (monotonicTime ts) l" and t: "ramping_tryAcquireOne ts l = (r, l')"
  shows "ramping_budget ts l' = ramping_budget ts l - of_bool r" and "r \<longleftrightarrow> 0 < ramping_budget ts l"
proof -
  have le: "ramp_acquired_count l + ramp_acquireable_count l \<le> ramping_total l (since (ramp_base l) (monotonicTime ts))"
    using ok by (auto simp: ramping_ok_def)
  from ok show "ramping_budget ts l' = ramping_budget ts l - of_bool r"
    by (cases rule: ramping_try_cases) (use t le in \<open>auto simp: ramping_budget_def\<close>)
  from ok show "r \<longleftrightarrow> 0 < ramping_budget ts l"
    by (cases rule: ramping_try_cases) (use t le in \<open>auto simp: ramping_budget_def\<close>)
qed

lemma ramping_wait_bounds:
  assumes ok: "ramping_ok (monotonicTime ts) l" and w: "ramping_timeUntilNextRelease ts l = Some d"
    and le: "monotonicTime ts \<le> monotonicTime ts'"
  shows "0 \<le> d" and "monotonicTime ts' < monotonicTime ts + d \<Longrightarrow> \<not> fst (ramping_tryAcquireOne ts' l)"
    and "started (ramp_base l) \<Longrightarrow> monotonicTime ts + d \<le> monotonicTime ts' \<Longrightarrow> fst (ramping_tryAcquireOne ts' l)"
proof -
  have ok': "ramping_ok (monotonicTime ts') l" using ok le by (rule ramping_ok_later)
  note iff = ramping_try_iff [OF ok']
  obtain h where p: "ramping_params h l" using ok by (auto simp: ramping_ok_def)
  show "0 \<le> d" using w by (auto simp: ramping_timeUntilNextRelease_def Let_def split: if_splits)
  have main: "ramp_acquired_count l < ramping_total l (since (ramp_base l) (monotonicTime ts')) \<longleftrightarrow>
      monotonicTime ts + d \<le> monotonicTime ts'" if st: "started (ramp_base l)" "\<not> ramp_acquireable_count l > 0"
  proof -
    obtain s where s: "start_time (ramp_base l) = Some s" using st by (auto simp: started_def)
    let ?due = "ramping_due l (real_of_int (ramp_acquired_count l + 1) - 1/2)"
    have arg: "real_of_int (ramp_acquired_count l + 1) - 1/2 = real_of_int (ramp_acquired_count l) + 1/2" by simp
    have d: "d = max 0 (\<lceil>?due\<rceil> - (monotonicTime ts - s))"
      unfolding arg using w st s by (simp add: ramping_timeUntilNextRelease_def ramping_elapsed_eq since_def Let_def)
    have "0 \<le> monotonicTime ts' - s" using ok' s by (simp add: ramping_ok_def since_def)
    then have "ramp_acquired_count l < ramping_total l (monotonicTime ts' - s) \<longleftrightarrow> ?due \<le> real_of_int (monotonicTime ts' - s)"
      using ramping_total_ge_iff [OF p, of "monotonicTime ts' - s" "ramp_acquired_count l + 1"] by linarith
    also have "\<dots> \<longleftrightarrow> d \<le> monotonicTime ts' - monotonicTime ts"
      using le unfolding d ceiling_le_iff [symmetric] by linarith
    finally show ?thesis by (auto simp: since_def s)
  qed
  show "\<not> fst (ramping_tryAcquireOne ts' l)" if "monotonicTime ts' < monotonicTime ts + d"
  proof -
    have "started (ramp_base l) \<and> \<not> ramp_acquireable_count l > 0"
      using w that le by (auto simp: ramping_timeUntilNextRelease_def split: if_splits)
    then show ?thesis using main that iff by auto
  qed
  show "fst (ramping_tryAcquireOne ts' l)" if st: "started (ramp_base l)" and lt: "monotonicTime ts + d \<le> monotonicTime ts'"
  proof (cases "ramp_acquireable_count l > 0")
    case True
    then show ?thesis by (simp add: ramping_tryAcquireOne.simps)
  next
    case False
    then show ?thesis using main [OF st] lt iff by auto
  qed
qed

interpretation ramp: reopenable_limiter ramping_tryAcquireOne ramping_releaseOne ramping_elapsed
  ramping_timeUntilNextRelease ramping_ok ramping_budget "\<lambda>_ _. True"
proof (unfold_locales, goal_cases)
  case 1 then show ?case by (rule ramping_ok_later)
next
  case 2 then show ?case by (rule ramping_try_ok)
next
  case 3 then show ?case by (metis ramping_try_ok ramping_release_ok)
next
  case 4 then show ?case by (rule ramping_elapsed_ok)
next
  case 5 then show ?case by (simp add: ramping_releaseOne_def)
next
  case (6 ts s d) then show ?case by (metis ramping_wait_bounds(1) order_refl)
next
  case 7 then show ?case by (metis ramping_wait_bounds(2))
next
  case 8 then show ?case using ramping_budget_step ramping_ok_later by fastforce
next
  case 9 then show ?case using ramping_budget_step ramping_ok_later by fastforce
next
  case 10 then show ?case by (simp add: ramping_budget_def ramping_elapsed_eq)
next
  case 11 then show ?case by (simp add: ramping_elapsed_eq base_elapsed_idem)
next
  case (12 t s ts s')
  have "ramping_ok (monotonicTime ts) (snd (ramping_elapsed ts (snd (ramping_tryAcquireOne ts s))))"
    using ramping_try_ok [OF 12(1,2)] by (rule ramping_elapsed_ok) simp
  then show ?case using 12(3) by (rule ramping_release_ok)
qed (auto simp: ramping_releaseOne_def)

subsection \<open>The plugin factory\<close>

text \<open>
  \<open>createRateLimiterPlugin\<close>: the configured ramp must be positive and, unless the run has no
  duration, not longer than the run. \<open>config\<close> is \<open>None\<close> when the typed config is not an \<open>Any\<close>; its
  payload is the seconds and nanoseconds of the unpacked \<open>ramp_time\<close>.
\<close>

definition createRateLimiterPlugin ::
  "(int \<times> int) option \<Rightarrow> bool \<Rightarrow> nanos \<Rightarrow> nat \<Rightarrow> LinearRampingRateLimiter result" where
  "createRateLimiterPlugin config noDuration duration rps =
     (case config of
        None \<Rightarrow> Inl (EnvoyException ''typed_config cannot be cast to an Any proto'')
      | Some (secs, ns) \<Rightarrow>
          let rt = secs * one_second + ns in
          if rt \<le> 0 then Inl (NighthawkException ''ramp_time must be positive and > 0ns'')
          else if \<not> noDuration \<and> rt > duration
          then Inl (NighthawkException ''ramp_time must be less than or equal to time specified by --duration'')
          else mk_LinearRampingRateLimiter rt (mk_Frequency rps))"

subsection \<open>Properties\<close>

lemma mk_LinearRampingRateLimiter_params:
  "mk_LinearRampingRateLimiter rt (mk_Frequency h) = Inr l \<Longrightarrow>
     ramping_params h l \<and> ramp_base l = RateLimiterBase_init \<and> ramp_acquired_count l = 0 \<and>
     ramp_acquireable_count l = 0 \<and> ramp_time l = rt"
  by (auto simp: mk_LinearRampingRateLimiter_def ramping_params_def Let_def split: if_splits)

lemma ramping_total_zero: "ramping_params h l \<Longrightarrow> ramping_total l 0 = 0"
  by (subst ramping_total_curve) (auto simp: ramping_params_def ramp_curve_def)

lemma mk_LinearRampingRateLimiter_ok:
  assumes "mk_LinearRampingRateLimiter rt (mk_Frequency h) = Inr l" shows "ramping_ok t l"
  using mk_LinearRampingRateLimiter_params [OF assms] ramping_total_zero
  by (auto simp: ramping_ok_def since_def RateLimiterBase_init_def)

lemma ramping_try_acquired:
  assumes "ramping_ok t l" "t \<le> monotonicTime ts" "ramping_tryAcquireOne ts l = (r, l')"
  shows "ramp_acquired_count l' = ramp_acquired_count l + of_bool r"
    and "ramping_total l' = ramping_total l" and "\<And>h. ramping_params h l' = ramping_params h l"
proof -
  have ok: "ramping_ok (monotonicTime ts) l" using assms(1,2) by (rule ramping_ok_later)
  from ok show "ramp_acquired_count l' = ramp_acquired_count l + of_bool r"
    by (cases rule: ramping_try_cases) (use assms(3) in auto)
  from ok show "ramping_total l' = ramping_total l"
    by (cases rule: ramping_try_cases) (use assms(3) in auto)
  from ok show "ramping_params h l' = ramping_params h l" for h
    by (cases rule: ramping_try_cases) (use assms(3) in auto)
qed




lemma ramping_wait_Some: "\<exists>d. ramping_timeUntilNextRelease ts l = Some d"
  by (simp add: ramping_timeUntilNextRelease_def Let_def)


end
