(* ===== verification/LimiterWrappers.thy ===== *)
theory LimiterWrappers
  imports LinearLimiter RampingLimiter
begin

text \<open>
  The limiters that wrap another one (\<^verbatim>\<open>ForwardingRateLimiterImpl\<close> and its derivations in
  \<^verbatim>\<open>source/common/rate_limiter_impl.{h,cc}\<close>): a scheduled start, bursts, random delays and filters.
  Each takes the operations of the wrapped limiter as arguments, as the C++ classes call them
  through the interface. For each wrapper one lemma, proved inside the contract's locale, shows that
  wrapping a limiter that keeps the contract gives one that keeps it.
\<close>

subsection \<open>Scheduled start\<close>

record 's ScheduledStartingRateLimiter =
  sched_inner :: 's
  scheduled_starting_time :: nanos
  aquisition_attempted :: bool

definition mk_ScheduledStartingRateLimiter :: "'s \<Rightarrow> nanos \<Rightarrow> 's ScheduledStartingRateLimiter" where
  "mk_ScheduledStartingRateLimiter inner start =
     \<lparr>sched_inner = inner, scheduled_starting_time = start, aquisition_attempted = False\<rparr>"

definition scheduled_tryAcquireOne ::
  "(time_source \<Rightarrow> 's \<Rightarrow> bool \<times> 's) \<Rightarrow> time_source \<Rightarrow> 's ScheduledStartingRateLimiter \<Rightarrow>
     bool \<times> 's ScheduledStartingRateLimiter" where
  "scheduled_tryAcquireOne try ts s =
     (if monotonicTime ts < scheduled_starting_time s then (False, s\<lparr>aquisition_attempted := True\<rparr>)
      else let (ok, i) = try ts (sched_inner s)
           in (ok, s\<lparr>aquisition_attempted := True, sched_inner := i\<rparr>))"

definition scheduled_releaseOne ::
  "(time_source \<Rightarrow> 's \<Rightarrow> 's result) \<Rightarrow> time_source \<Rightarrow> 's ScheduledStartingRateLimiter \<Rightarrow>
     's ScheduledStartingRateLimiter result" where
  "scheduled_releaseOne rel ts s =
     (if monotonicTime ts < scheduled_starting_time s
      then Inl (NighthawkException ''Unexpected call to releaseOne()'')
      else result_bind (rel ts (sched_inner s)) (\<lambda>i. Inr (s\<lparr>sched_inner := i\<rparr>)))"

definition scheduled_elapsed ::
  "(time_source \<Rightarrow> 's \<Rightarrow> nanos \<times> 's) \<Rightarrow> time_source \<Rightarrow> 's ScheduledStartingRateLimiter \<Rightarrow>
     nanos \<times> 's ScheduledStartingRateLimiter" where
  "scheduled_elapsed el ts s = (let (e, i) = el ts (sched_inner s) in (e, s\<lparr>sched_inner := i\<rparr>))"

definition scheduled_timeUntilNextRelease ::
  "(time_source \<Rightarrow> 's \<Rightarrow> nanos option) \<Rightarrow> time_source \<Rightarrow> 's ScheduledStartingRateLimiter \<Rightarrow> nanos option" where
  "scheduled_timeUntilNextRelease w ts s =
     (if monotonicTime ts < scheduled_starting_time s
      then Some (scheduled_starting_time s - monotonicTime ts)
      else w ts (sched_inner s))"

text \<open>Before the start the wrapped limiter is untouched, which \<open>fresh\<close> says of it.\<close>

definition scheduled_ok ::
  "(nanos \<Rightarrow> 's \<Rightarrow> bool) \<Rightarrow> ('s \<Rightarrow> bool) \<Rightarrow> nanos \<Rightarrow> 's ScheduledStartingRateLimiter \<Rightarrow> bool" where
  "scheduled_ok valid fresh t s \<longleftrightarrow>
     valid t (sched_inner s) \<and> (t < scheduled_starting_time s \<longrightarrow> fresh (sched_inner s))"

definition scheduled_opened :: "(nanos \<Rightarrow> 's \<Rightarrow> bool) \<Rightarrow> nanos \<Rightarrow> 's ScheduledStartingRateLimiter \<Rightarrow> bool" where
  "scheduled_opened op t s \<longleftrightarrow> scheduled_starting_time s \<le> t \<and> op t (sched_inner s)"

definition scheduled_budget :: "(time_source \<Rightarrow> 's \<Rightarrow> nat) \<Rightarrow> time_source \<Rightarrow> 's ScheduledStartingRateLimiter \<Rightarrow> nat" where
  "scheduled_budget bud ts s = bud ts (sched_inner s)"

lemmas scheduled_defs = scheduled_tryAcquireOne_def scheduled_releaseOne_def scheduled_elapsed_def
  scheduled_timeUntilNextRelease_def scheduled_ok_def scheduled_opened_def scheduled_budget_def

subsection \<open>Bursts\<close>

record 's BurstingRateLimiter =
  burst_inner :: 's
  burst_size :: nat
  accumulated :: nat
  releasing :: bool
  previously_releasing :: "bool option"

definition mk_BurstingRateLimiter :: "'s \<Rightarrow> nat \<Rightarrow> 's BurstingRateLimiter" where
  "mk_BurstingRateLimiter inner bsize =
     \<lparr>burst_inner = inner, burst_size = bsize, accumulated = 0, releasing = False, previously_releasing = None\<rparr>"

text \<open>The branch taken in release mode, also by the recursive call that follows a full burst.\<close>

definition bursting_release_step :: "'s BurstingRateLimiter \<Rightarrow> bool \<times> 's BurstingRateLimiter" where
  "bursting_release_step b =
     (True, b\<lparr>previously_releasing := Some (releasing b), accumulated := accumulated b - 1,
              releasing := accumulated b - 1 > 0\<rparr>)"

text \<open>
  The accumulation loop. A burst size of zero would divide by zero; the constructor asserts it away
  and the sequencer factory only wraps for a positive size, so the loop treats it as reached.
\<close>

function bursting_accumulate ::
  "('s \<Rightarrow> bool \<times> 's) \<Rightarrow> 's BurstingRateLimiter \<Rightarrow> bool \<times> 's BurstingRateLimiter" where
  "bursting_accumulate try b =
     (let (ok, i) = try (burst_inner b) in
      if ok then
        let b' = b\<lparr>burst_inner := i, accumulated := accumulated b + 1\<rparr> in
        if burst_size b = 0 \<or> accumulated b' mod burst_size b = 0
        then bursting_release_step (b'\<lparr>releasing := True\<rparr>)
        else bursting_accumulate try b'
      else (False, b\<lparr>burst_inner := i, previously_releasing := None\<rparr>))"
  by pat_completeness auto
termination
proof (relation "measure (\<lambda>(try, b). burst_size b - accumulated b mod burst_size b)", goal_cases)
  case (2 f b x ok i b')
  then have "burst_size b > 0" "(accumulated b + 1) mod burst_size b \<noteq> 0" by auto
  then have "Suc (accumulated b mod burst_size b) = (accumulated b + 1) mod burst_size b"
    by (simp add: mod_Suc split: if_splits)
  moreover have "accumulated b mod burst_size b < burst_size b" using \<open>burst_size b > 0\<close> by simp
  ultimately show ?case using 2 by simp
qed simp

declare bursting_accumulate.simps [simp del]

definition bursting_tryAcquireOne ::
  "(time_source \<Rightarrow> 's \<Rightarrow> bool \<times> 's) \<Rightarrow> time_source \<Rightarrow> 's BurstingRateLimiter \<Rightarrow> bool \<times> 's BurstingRateLimiter" where
  "bursting_tryAcquireOne try ts b =
     (if releasing b then bursting_release_step b
      else bursting_accumulate (try ts) (b\<lparr>previously_releasing := Some (releasing b)\<rparr>))"

text \<open>The two conditions \<open>releaseOne\<close> asserts.\<close>

definition bursting_release_asserts :: "'s BurstingRateLimiter \<Rightarrow> bool" where
  "bursting_release_asserts b \<longleftrightarrow> accumulated b < burst_size b \<and> previously_releasing b = Some True"

definition bursting_releaseOne ::
  "time_source \<Rightarrow> 's BurstingRateLimiter \<Rightarrow> 's BurstingRateLimiter result" where
  "bursting_releaseOne ts b =
     Inr (b\<lparr>accumulated := accumulated b + 1, releasing := True, previously_releasing := None\<rparr>)"

definition bursting_elapsed ::
  "(time_source \<Rightarrow> 's \<Rightarrow> nanos \<times> 's) \<Rightarrow> time_source \<Rightarrow> 's BurstingRateLimiter \<Rightarrow> nanos \<times> 's BurstingRateLimiter" where
  "bursting_elapsed el ts b = (let (e, i) = el ts (burst_inner b) in (e, b\<lparr>burst_inner := i\<rparr>))"

definition bursting_timeUntilNextRelease ::
  "(time_source \<Rightarrow> 's \<Rightarrow> nanos option) \<Rightarrow> time_source \<Rightarrow> 's BurstingRateLimiter \<Rightarrow> nanos option" where
  "bursting_timeUntilNextRelease w ts b = (if releasing b then Some 0 else w ts (burst_inner b))"

definition bursting_ok :: "(nanos \<Rightarrow> 's \<Rightarrow> bool) \<Rightarrow> nanos \<Rightarrow> 's BurstingRateLimiter \<Rightarrow> bool" where
  "bursting_ok valid t b \<longleftrightarrow> valid t (burst_inner b) \<and> 0 < burst_size b \<and>
     (releasing b \<longrightarrow> 0 < accumulated b \<and> accumulated b \<le> burst_size b) \<and>
     (\<not> releasing b \<longrightarrow> accumulated b < burst_size b)"

definition bursting_budget :: "(time_source \<Rightarrow> 's \<Rightarrow> nat) \<Rightarrow> time_source \<Rightarrow> 's BurstingRateLimiter \<Rightarrow> nat" where
  "bursting_budget bud ts b = accumulated b + bud ts (burst_inner b)"

context reopenable_limiter
begin

lemma scheduled_contract:
  assumes fresh: "\<And>ts s. fresh s \<Longrightarrow> fresh (snd (elapsed ts s))"
  shows "reopenable_limiter (scheduled_tryAcquireOne try_acquire) (scheduled_releaseOne release)
     (scheduled_elapsed elapsed) (scheduled_timeUntilNextRelease wait) (scheduled_ok valid fresh)
     (scheduled_budget budget) (scheduled_opened opened)"
proof (unfold_locales, goal_cases)
  case 1 then show ?case using valid_later by (auto simp: scheduled_defs)
next
  case (2 t s ts) then show ?case using valid_later valid_try [of t "sched_inner s" ts]
    by (auto simp: scheduled_defs split: prod.split)
next
  case (3 t s ts s') then show ?case using valid_release [of t "sched_inner s" ts]
    by (cases "release ts (snd (try_acquire ts (sched_inner s)))") (auto simp: scheduled_defs split: prod.splits if_splits)
next
  case (4 t s ts) then show ?case using valid_elapsed [of t "sched_inner s" ts] fresh [of "sched_inner s" ts]
    by (auto simp: scheduled_defs split: prod.split)
next
  case (5 t s ts s') then show ?case using success_release_ok [of t "sched_inner s" ts]
    by (auto simp: scheduled_defs is_ok_conv split: prod.splits if_splits)
next
  case 6 then show ?case using wait_nonneg by (auto simp: scheduled_defs split: if_splits)
next
  case (7 ts s d ts') then show ?case using wait_lower_bound
    by (auto simp: scheduled_defs split: if_splits prod.splits) (metis fst_conv)
next
  case (8 t s ts s') then show ?case using budget_success [of t "sched_inner s" ts]
    by (auto simp: scheduled_defs split: prod.splits if_splits)
next
  case (9 t s ts s') then show ?case using budget_failure [of t "sched_inner s" ts]
    by (auto simp: scheduled_defs split: prod.splits if_splits)
next
  case (10 t s ts) then show ?case using budget_elapsed [of t "sched_inner s" ts]
    by (auto simp: scheduled_defs split: prod.split)
next
  case (11 ts s) then show ?case using elapsed_idem [of ts "sched_inner s"]
    by (auto simp: scheduled_defs split: prod.split)
next
  case (12 t s ts s') then show ?case using valid_release_elapsed [of t "sched_inner s" ts] valid_later
    by (cases "release ts (snd (elapsed ts (snd (try_acquire ts (sched_inner s)))))")
       (auto simp: scheduled_defs split: prod.splits if_splits)
next
  case 13 then show ?case using opened_later by (auto simp: scheduled_defs)
next
  case (14 t s ts) then show ?case using opened_try [of t "sched_inner s" ts] opened_later
    by (auto simp: scheduled_defs split: prod.split)
next
  case (15 t s ts) then show ?case using opened_elapsed [of t "sched_inner s" ts]
    by (auto simp: scheduled_defs split: prod.split)
next
  case (16 t s ts s') then show ?case using opened_release [of t "sched_inner s" ts]
    by (cases "release ts (sched_inner s)") (auto simp: scheduled_defs split: if_splits)
next
  case (17 t s ts s') then show ?case using success_opened [of t "sched_inner s" ts]
    by (auto simp: scheduled_defs split: prod.splits if_splits)
next
  case (18 t s ts) then show ?case using opened_release_ok [of t "sched_inner s" ts]
    by (auto simp: scheduled_defs is_ok_conv)
qed

text \<open>What the accumulation loop leaves behind, at an instant where the wrapped limiter is well-formed.\<close>

lemma accumulate_post:
  assumes "valid (monotonicTime ts) (burst_inner b)" "accumulated b < burst_size b" "\<not> releasing b"
    "bursting_accumulate (try_acquire ts) b = (r, b')"
  shows "valid (monotonicTime ts) (burst_inner b') \<and> burst_size b' = burst_size b \<and>
     (r \<longrightarrow> accumulated b' = burst_size b - 1 \<and> releasing b' = (burst_size b > 1) \<and> previously_releasing b' = Some True) \<and>
     (\<not> r \<longrightarrow> accumulated b \<le> accumulated b' \<and> accumulated b' < burst_size b \<and> \<not> releasing b' \<and> previously_releasing b' = None) \<and>
     accumulated b' + budget ts (burst_inner b') + of_bool r \<le> accumulated b + budget ts (burst_inner b)"
  using assms
proof (induction "try_acquire ts" b rule: bursting_accumulate.induct)
  case (1 b)
  obtain ok i where tr: "try_acquire ts (burst_inner b) = (ok, i)" by fastforce
  have val: "valid (monotonicTime ts) i" using valid_try_now [OF "1.prems"(1)] tr by simp
  let ?b = "b\<lparr>burst_inner := i, accumulated := accumulated b + 1\<rparr>"
  show ?case
  proof (cases ok)
    case False
    then show ?thesis
      using "1.prems" tr val budget_failure [OF "1.prems"(1)] by (auto simp: bursting_accumulate.simps [of _ b])
  next
    case True
    then have tr: "try_acquire ts (burst_inner b) = (True, i)" using tr by simp
    have bud: "budget ts i < budget ts (burst_inner b)" using budget_success [OF "1.prems"(1)] tr by simp
    show ?thesis
    proof (cases "accumulated b + 1 = burst_size b")
      case True
      then have "(r, b') = bursting_release_step (?b\<lparr>releasing := True\<rparr>)"
        using "1.prems" tr by (simp add: bursting_accumulate.simps [of _ b])
      then show ?thesis using True val bud by (auto simp: bursting_release_step_def)
    next
      case False
      with "1.prems" have lt: "accumulated b + 1 < burst_size b" by simp
      then have rec: "bursting_accumulate (try_acquire ts) ?b = (r, b')"
        using "1.prems" tr by (simp add: bursting_accumulate.simps [of _ b])
      show ?thesis
        using "1.hyps" [OF tr [symmetric] refl _ refl _ _ _ _ rec] lt "1.prems" val bud by auto
    qed
  qed
qed

lemma accumulate_opened:
  assumes "opened t (burst_inner b)" "t \<le> monotonicTime ts" "bursting_accumulate (try_acquire ts) b = (r, b')"
  shows "opened (monotonicTime ts) (burst_inner b')"
  using assms
proof (induction "try_acquire ts" b arbitrary: t rule: bursting_accumulate.induct)
  case (1 b)
  obtain ok i where tr: "try_acquire ts (burst_inner b) = (ok, i)" by fastforce
  have op: "opened (monotonicTime ts) i" using opened_try [OF "1.prems"(1,2)] tr by simp
  show ?case
    using "1.prems"(3) "1.hyps" [OF tr [symmetric] refl _ refl] op tr
    by (subst (asm) bursting_accumulate.simps) (auto simp: bursting_release_step_def Let_def split: if_splits)
qed

lemma bursting_try_post:
  assumes "bursting_ok valid (monotonicTime ts) b" "bursting_tryAcquireOne try_acquire ts b = (r, b')"
  shows "bursting_ok valid (monotonicTime ts) b'" "burst_size b' = burst_size b" "accumulated b' < burst_size b"
    "r \<Longrightarrow> previously_releasing b' = Some True" "\<not> r \<Longrightarrow> \<not> releasing b'"
    "bursting_budget budget ts b' + of_bool r \<le> bursting_budget budget ts b"
proof -
  have "bursting_ok valid (monotonicTime ts) b' \<and> burst_size b' = burst_size b \<and> accumulated b' < burst_size b \<and>
      (r \<longrightarrow> previously_releasing b' = Some True) \<and> (\<not> r \<longrightarrow> \<not> releasing b') \<and>
      bursting_budget budget ts b' + of_bool r \<le> bursting_budget budget ts b"
  proof (cases "releasing b")
    case True
    then show ?thesis using assms
      by (auto simp: bursting_ok_def bursting_tryAcquireOne_def bursting_release_step_def bursting_budget_def)
  next
    case False
    then have "bursting_accumulate (try_acquire ts) (b\<lparr>previously_releasing := Some False\<rparr>) = (r, b')"
      using assms by (simp add: bursting_tryAcquireOne_def)
    from accumulate_post [OF _ _ _ this] show ?thesis
      using assms(1) False by (auto simp: bursting_ok_def bursting_budget_def)
  qed
  then show "bursting_ok valid (monotonicTime ts) b'" "burst_size b' = burst_size b" "accumulated b' < burst_size b"
    "r \<Longrightarrow> previously_releasing b' = Some True" "\<not> r \<Longrightarrow> \<not> releasing b'"
    "bursting_budget budget ts b' + of_bool r \<le> bursting_budget budget ts b" by auto
qed

lemma bursting_ok_later: "bursting_ok valid t b \<Longrightarrow> t \<le> t' \<Longrightarrow> bursting_ok valid t' b"
  using valid_later by (auto simp: bursting_ok_def)

lemma bursting_contract:
  "reopenable_limiter (bursting_tryAcquireOne try_acquire) bursting_releaseOne
     (bursting_elapsed elapsed) (bursting_timeUntilNextRelease wait) (bursting_ok valid)
     (bursting_budget budget) (\<lambda>_ _. True)"
proof (unfold_locales, goal_cases)
  case 1 then show ?case by (rule bursting_ok_later)
next
  case (2 t s ts) then show ?case
    by (metis bursting_ok_later bursting_try_post(1) prod.collapse)
next
  case (3 t s ts s')
  obtain r b' where tr: "bursting_tryAcquireOne try_acquire ts s = (r, b')" by fastforce
  have "bursting_ok valid (monotonicTime ts) s" using 3 by (blast intro: bursting_ok_later)
  from bursting_try_post(1-3) [OF this tr] show ?case
    using 3(3) tr by (auto simp: bursting_releaseOne_def bursting_ok_def)
next
  case (4 t s ts) then show ?case using valid_elapsed [of t "burst_inner s" ts]
    by (auto simp: bursting_elapsed_def bursting_ok_def split: prod.split)
next
  case 6 then show ?case using wait_nonneg
    by (auto simp: bursting_timeUntilNextRelease_def bursting_ok_def split: if_splits)
next
  case (7 ts s d ts')
  then have nr: "\<not> releasing s" and w: "wait ts (burst_inner s) = Some d"
    by (auto simp: bursting_timeUntilNextRelease_def split: if_splits)
  have "\<not> fst (try_acquire ts' (burst_inner s))"
    using wait_lower_bound [OF _ w] 7 by (simp add: bursting_ok_def)
  then show ?case using nr
    by (auto simp: bursting_tryAcquireOne_def bursting_accumulate.simps split: prod.split)
next
  case (8 t s ts s') then show ?case using bursting_try_post(6) [of ts s True s'] bursting_ok_later by simp
next
  case (9 t s ts s') then show ?case using bursting_try_post(6) [of ts s False s'] bursting_ok_later by simp
next
  case (10 t s ts) then show ?case using budget_elapsed [of t "burst_inner s" ts]
    by (auto simp: bursting_elapsed_def bursting_ok_def bursting_budget_def split: prod.split)
next
  case (11 ts s) then show ?case using elapsed_idem [of ts "burst_inner s"]
    by (auto simp: bursting_elapsed_def split: prod.split)
next
  case (12 t s ts s')
  obtain r b' where tr: "bursting_tryAcquireOne try_acquire ts s = (r, b')" by fastforce
  have "bursting_ok valid (monotonicTime ts) s" using 12 by (blast intro: bursting_ok_later)
  from bursting_try_post(1-3) [OF this tr] show ?case
    using 12(3) tr valid_elapsed [of "monotonicTime ts" "burst_inner b'" ts]
    by (auto simp: bursting_releaseOne_def bursting_elapsed_def bursting_ok_def split: prod.splits)
qed (simp_all add: bursting_releaseOne_def)

text \<open>The conditions \<open>releaseOne\<close> asserts hold for every caller that returns a success at once.\<close>

lemma bursting_release_asserts_hold:
  "bursting_ok valid t b \<Longrightarrow> t \<le> monotonicTime ts \<Longrightarrow>
     bursting_tryAcquireOne try_acquire ts b = (True, b') \<Longrightarrow> bursting_release_asserts b'"
  using bursting_try_post [of ts b True b'] bursting_ok_later by (auto simp: bursting_release_asserts_def)

end

end
