(* ===== verification/LimiterFilters.thy ===== *)
theory LimiterFilters
  imports LimiterWrappers
begin

text \<open>
  The wrappers that depend on a random source (\<^verbatim>\<open>source/common/rate_limiter_impl.{h,cc}\<close>): delays drawn
  from a distribution (\<^verbatim>\<open>DelegatingRateLimiterImpl\<close>, \<^verbatim>\<open>DistributionSamplingRateLimiterImpl\<close>) and filters
  (\<^verbatim>\<open>FilteringRateLimiterImpl\<close>, \<^verbatim>\<open>GraduallyOpeningRateLimiterFilter\<close>, \<^verbatim>\<open>ZipfRateLimiterImpl\<close>). The random
  generators are library code: they are parameters of the definitions, functions on a generator
  state.
\<close>

subsection \<open>Delays\<close>

record ('s, 'g) DelegatingRateLimiter =
  deleg_inner :: 's
  distributed_timings :: "nanos list"
  sanity_check_pending_release :: bool
  delegate_state :: 'g

definition mk_DelegatingRateLimiter :: "'s \<Rightarrow> 'g \<Rightarrow> ('s, 'g) DelegatingRateLimiter" where
  "mk_DelegatingRateLimiter inner g =
     \<lparr>deleg_inner = inner, distributed_timings = [], sanity_check_pending_release = True, delegate_state = g\<rparr>"

text \<open>Insertion at \<open>std::upper_bound\<close>: after every timing that is not later.\<close>

definition insert_timing :: "nanos \<Rightarrow> nanos list \<Rightarrow> nanos list" where
  "insert_timing x xs = takeWhile (\<lambda>y. y \<le> x) xs @ x # dropWhile (\<lambda>y. y \<le> x) xs"

definition delegating_tryAcquireOne ::
  "(time_source \<Rightarrow> 's \<Rightarrow> bool \<times> 's) \<Rightarrow> ('g \<Rightarrow> nat \<times> 'g) \<Rightarrow> time_source \<Rightarrow> ('s, 'g) DelegatingRateLimiter \<Rightarrow>
     bool \<times> ('s, 'g) DelegatingRateLimiter" where
  "delegating_tryAcquireOne try delegate ts d =
     (let now = monotonicTime ts;
          (ok, i) = try ts (deleg_inner d);
          d' = (if ok then
                  let (v, g) = delegate (delegate_state d); adjusted = now + int v
                  in d\<lparr>deleg_inner := i, delegate_state := g,
                       distributed_timings := insert_timing adjusted (distributed_timings d)\<rparr>
                else d\<lparr>deleg_inner := i\<rparr>)
      in if distributed_timings d' \<noteq> [] \<and> hd (distributed_timings d') \<le> now
         then (True, d'\<lparr>distributed_timings := tl (distributed_timings d'), sanity_check_pending_release := False\<rparr>)
         else (False, d'))"

definition delegating_releaseOne ::
  "(time_source \<Rightarrow> 's \<Rightarrow> 's result) \<Rightarrow> time_source \<Rightarrow> ('s, 'g) DelegatingRateLimiter \<Rightarrow>
     ('s, 'g) DelegatingRateLimiter result" where
  "delegating_releaseOne rel ts d =
     (if sanity_check_pending_release d
      then Inl (ReleaseAssert ''unexpected call to DelegatingRateLimiterImpl::releaseOne()'')
      else result_bind (rel ts (deleg_inner d))
             (\<lambda>i. Inr (d\<lparr>sanity_check_pending_release := True, deleg_inner := i\<rparr>)))"

definition delegating_elapsed ::
  "(time_source \<Rightarrow> 's \<Rightarrow> nanos \<times> 's) \<Rightarrow> time_source \<Rightarrow> ('s, 'g) DelegatingRateLimiter \<Rightarrow>
     nanos \<times> ('s, 'g) DelegatingRateLimiter" where
  "delegating_elapsed el ts d = (let (e, i) = el ts (deleg_inner d) in (e, d\<lparr>deleg_inner := i\<rparr>))"

definition delegating_timeUntilNextRelease ::
  "(time_source \<Rightarrow> 's \<Rightarrow> nanos option) \<Rightarrow> time_source \<Rightarrow> ('s, 'g) DelegatingRateLimiter \<Rightarrow> nanos option" where
  "delegating_timeUntilNextRelease w ts d =
     (case w ts (deleg_inner d) of
        None \<Rightarrow> None
      | Some wrapped \<Rightarrow>
          if distributed_timings d = [] then Some wrapped
          else let queued = hd (distributed_timings d) - monotonicTime ts
               in Some (max 0 (min queued wrapped)))"

text \<open>
  \<^verbatim>\<open>DistributionSamplingRateLimiterImpl\<close> delays by what its sampler draws; \<open>getValue\<close> and the generator
  it runs on are the standard library's.
\<close>

definition distribution_sampling_tryAcquireOne ::
  "(time_source \<Rightarrow> 's \<Rightarrow> bool \<times> 's) \<Rightarrow> ('g \<Rightarrow> nat \<times> 'g) \<Rightarrow> time_source \<Rightarrow> ('s, 'g) DelegatingRateLimiter \<Rightarrow>
     bool \<times> ('s, 'g) DelegatingRateLimiter" where
  "distribution_sampling_tryAcquireOne try getValue =
     delegating_tryAcquireOne try (\<lambda>provider. getValue provider)"

lemma insert_timing_nonempty [simp]: "insert_timing x xs \<noteq> []"
  by (simp add: insert_timing_def)

lemma length_insert_timing [simp]: "length (insert_timing x xs) = Suc (length xs)"
proof -
  have "length (takeWhile P xs) + length (dropWhile P xs) = length xs" for P :: "nanos \<Rightarrow> bool"
    by (metis length_append takeWhile_dropWhile_id)
  then show ?thesis by (simp add: insert_timing_def)
qed

lemma set_insert_timing [simp]: "set (insert_timing x xs) = insert x (set xs)"
  unfolding insert_timing_def by (rule sorted_insort_set)

lemma sorted_insert_timing: "sorted xs \<Longrightarrow> sorted (insert_timing x xs)"
proof (induction xs)
  case (Cons y ys)
  then show ?case by (auto simp: insert_timing_def dest: set_takeWhileD set_dropWhileD)
qed (simp add: insert_timing_def)

definition delegating_ok ::
  "(nanos \<Rightarrow> 's \<Rightarrow> bool) \<Rightarrow> (nanos \<Rightarrow> 's \<Rightarrow> bool) \<Rightarrow> nanos \<Rightarrow> ('s, 'g) DelegatingRateLimiter \<Rightarrow> bool" where
  "delegating_ok valid op t d \<longleftrightarrow> valid t (deleg_inner d) \<and> sorted (distributed_timings d) \<and>
     (distributed_timings d \<noteq> [] \<longrightarrow> op t (deleg_inner d))"

definition delegating_budget ::
  "(time_source \<Rightarrow> 's \<Rightarrow> nat) \<Rightarrow> time_source \<Rightarrow> ('s, 'g) DelegatingRateLimiter \<Rightarrow> nat" where
  "delegating_budget bud ts d = length (distributed_timings d) + bud ts (deleg_inner d)"

context reopenable_limiter
begin

lemma delegating_ok_later: "delegating_ok valid opened t d \<Longrightarrow> t \<le> t' \<Longrightarrow> delegating_ok valid opened t' d"
  using valid_later opened_later by (auto simp: delegating_ok_def)

lemma delegating_try_post:
  assumes ok: "delegating_ok valid opened (monotonicTime ts) d"
    and tr: "delegating_tryAcquireOne try_acquire delegate ts d = (r, d')"
  shows "delegating_ok valid opened (monotonicTime ts) d'"
    and "deleg_inner d' = snd (try_acquire ts (deleg_inner d))"
    and "r \<Longrightarrow> \<not> sanity_check_pending_release d' \<and> opened (monotonicTime ts) (deleg_inner d')"
    and "delegating_budget budget ts d' + of_bool r \<le> delegating_budget budget ts d"
proof -
  obtain a i where t: "try_acquire ts (deleg_inner d) = (a, i)" by fastforce
  have v: "valid (monotonicTime ts) (deleg_inner d)" using ok by (simp add: delegating_ok_def)
  have vi: "valid (monotonicTime ts) i" using valid_try_now [OF v] t by simp
  obtain v g where s: "delegate (delegate_state d) = (v, g)" by fastforce
  let ?q = "if a then insert_timing (monotonicTime ts + int v) (distributed_timings d) else distributed_timings d"
  have inner: "deleg_inner d' = i"
    and q': "distributed_timings d' = (if r then tl ?q else ?q)"
    and r: "r \<longleftrightarrow> ?q \<noteq> [] \<and> hd ?q \<le> monotonicTime ts"
    and san: "r \<Longrightarrow> \<not> sanity_check_pending_release d'"
    using tr t s by (auto simp: delegating_tryAcquireOne_def Let_def split: if_splits)
  have srt: "sorted ?q" using ok by (auto simp: delegating_ok_def sorted_insert_timing)
  have op: "opened (monotonicTime ts) i" if "?q \<noteq> []"
  proof (cases a)
    case True
    then show ?thesis using success_opened [OF v] t by simp
  next
    case False
    then show ?thesis using opened_try [of "monotonicTime ts" "deleg_inner d" ts] ok t that
      by (simp add: delegating_ok_def)
  qed
  have "sorted (tl ?q)" using srt by (cases ?q) auto
  then show "delegating_ok valid opened (monotonicTime ts) d'"
    unfolding delegating_ok_def inner q' using srt op vi r by auto
  show "deleg_inner d' = snd (try_acquire ts (deleg_inner d))" using inner t by simp
  show "\<not> sanity_check_pending_release d' \<and> opened (monotonicTime ts) (deleg_inner d')" if r
    using that san r op inner by simp
  have "length ?q = length (distributed_timings d) + of_bool a" by simp
  moreover have "budget ts i + of_bool a \<le> budget ts (deleg_inner d)"
    using budget_success [OF v, of ts i] budget_failure [OF v, of ts i] t by (cases a) auto
  moreover have "length (distributed_timings d') + of_bool r = length ?q"
    using q' r by (cases ?q) (auto split: if_splits)
  ultimately show "delegating_budget budget ts d' + of_bool r \<le> delegating_budget budget ts d"
    unfolding delegating_budget_def inner by linarith
qed

lemma delegating_release_post:
  assumes "delegating_ok valid opened (monotonicTime ts) d'" "delegating_releaseOne release ts d' = Inr d''"
    "\<And>i. release ts (deleg_inner d') = Inr i \<Longrightarrow> valid (monotonicTime ts) i"
  shows "delegating_ok valid opened (monotonicTime ts) d''"
  using assms opened_release [of "monotonicTime ts" "deleg_inner d'" ts]
  by (cases "release ts (deleg_inner d')") (auto simp: delegating_releaseOne_def delegating_ok_def split: if_splits)

lemma delegating_contract:
  "rate_limiter_contract (delegating_tryAcquireOne try_acquire delegate) (delegating_releaseOne release)
     (delegating_elapsed elapsed) (delegating_timeUntilNextRelease wait) (delegating_ok valid opened)
     (delegating_budget budget)"
proof (unfold_locales, goal_cases)
  case 1 then show ?case by (rule delegating_ok_later)
next
  case (2 t s ts) then show ?case
    by (metis delegating_ok_later delegating_try_post(1) prod.collapse)
next
  case (3 t s ts s')
  obtain r d' where tr: "delegating_tryAcquireOne try_acquire delegate ts s = (r, d')" by fastforce
  have ok: "delegating_ok valid opened (monotonicTime ts) s" using 3 by (blast intro: delegating_ok_later)
  note post = delegating_try_post [OF ok tr]
  show ?case
  proof (rule delegating_release_post [OF post(1)])
    show "delegating_releaseOne release ts d' = Inr s'" using 3 tr by simp
    show "valid (monotonicTime ts) i" if "release ts (deleg_inner d') = Inr i" for i
      using valid_release [of t "deleg_inner s" ts] that 3 post(2) by (simp add: delegating_ok_def)
  qed
next
  case (4 t s ts) then show ?case
    using valid_elapsed [of t "deleg_inner s" ts] opened_elapsed [of t "deleg_inner s" ts]
    by (auto simp: delegating_elapsed_def delegating_ok_def split: prod.split)
next
  case (5 t s ts s')
  have ok: "delegating_ok valid opened (monotonicTime ts) s" using 5 by (blast intro: delegating_ok_later)
  from delegating_try_post(3) [OF ok 5(3)] show ?case
    using opened_release_ok [of "monotonicTime ts" "deleg_inner s'" ts]
    by (auto simp: delegating_releaseOne_def is_ok_conv)
next
  case 6 then show ?case using wait_nonneg
    by (auto simp: delegating_timeUntilNextRelease_def delegating_ok_def split: if_splits option.splits)
next
  case (7 ts s d ts')
  then obtain w where w: "wait ts (deleg_inner s) = Some w" and d: "d \<le> w"
      "distributed_timings s \<noteq> [] \<Longrightarrow> d \<le> hd (distributed_timings s) - monotonicTime ts"
    by (auto simp: delegating_timeUntilNextRelease_def Let_def split: if_splits option.splits)
  have "\<not> fst (try_acquire ts' (deleg_inner s))"
    using wait_lower_bound [OF _ w] 7 d by (simp add: delegating_ok_def)
  then show ?case using d(2) 7(4)
    by (auto simp: delegating_tryAcquireOne_def Let_def split: prod.split)
next
  case (8 t s ts s') then show ?case using delegating_try_post(4) [of ts s delegate True s']
      delegating_ok_later [of t s "monotonicTime ts"] by simp
next
  case (9 t s ts s') then show ?case using delegating_try_post(4) [of ts s delegate False s']
      delegating_ok_later [of t s "monotonicTime ts"] by simp
next
  case (10 t s ts) then show ?case using budget_elapsed [of t "deleg_inner s" ts]
    by (auto simp: delegating_elapsed_def delegating_ok_def delegating_budget_def split: prod.split)
next
  case (11 ts s) then show ?case using elapsed_idem [of ts "deleg_inner s"]
    by (auto simp: delegating_elapsed_def split: prod.split)
next
  case (12 t s ts s')
  obtain r d' where tr: "delegating_tryAcquireOne try_acquire delegate ts s = (r, d')" by fastforce
  have ok: "delegating_ok valid opened (monotonicTime ts) s" using 12 by (blast intro: delegating_ok_later)
  note post = delegating_try_post [OF ok tr]
  let ?d = "snd (delegating_elapsed elapsed ts d')"
  have inner: "deleg_inner ?d = snd (elapsed ts (deleg_inner d'))" "distributed_timings ?d = distributed_timings d'"
    by (simp_all add: delegating_elapsed_def split: prod.split)
  show ?case
  proof (rule delegating_release_post)
    show "delegating_ok valid opened (monotonicTime ts) ?d"
      using post(1) valid_elapsed [of "monotonicTime ts" "deleg_inner d'" ts]
        opened_elapsed [of "monotonicTime ts" "deleg_inner d'" ts]
      by (simp add: delegating_ok_def inner)
    show "delegating_releaseOne release ts ?d = Inr s'" using 12 tr by simp
    show "valid (monotonicTime ts) i" if "release ts (deleg_inner ?d) = Inr i" for i
      using valid_release_elapsed [of t "deleg_inner s" ts] that 12 post(2) inner by (simp add: delegating_ok_def)
  qed
qed

end

subsection \<open>Filters\<close>

record ('s, 'f) FilteringRateLimiter =
  filt_inner :: 's
  filt_state :: 'f

definition filtering_tryAcquireOne ::
  "(time_source \<Rightarrow> 's \<Rightarrow> bool \<times> 's) \<Rightarrow>
   (time_source \<Rightarrow> ('s, 'f) FilteringRateLimiter \<Rightarrow> bool \<times> ('s, 'f) FilteringRateLimiter) \<Rightarrow>
   time_source \<Rightarrow> ('s, 'f) FilteringRateLimiter \<Rightarrow> bool \<times> ('s, 'f) FilteringRateLimiter" where
  "filtering_tryAcquireOne try flt ts s =
     (let (ok, i) = try ts (filt_inner s); s' = s\<lparr>filt_inner := i\<rparr>
      in if ok then flt ts s' else (False, s'))"

definition filtering_releaseOne ::
  "(time_source \<Rightarrow> 's \<Rightarrow> 's result) \<Rightarrow> time_source \<Rightarrow> ('s, 'f) FilteringRateLimiter \<Rightarrow>
     ('s, 'f) FilteringRateLimiter result" where
  "filtering_releaseOne rel ts s = result_bind (rel ts (filt_inner s)) (\<lambda>i. Inr (s\<lparr>filt_inner := i\<rparr>))"

definition filtering_elapsed ::
  "(time_source \<Rightarrow> 's \<Rightarrow> nanos \<times> 's) \<Rightarrow> time_source \<Rightarrow> ('s, 'f) FilteringRateLimiter \<Rightarrow>
     nanos \<times> ('s, 'f) FilteringRateLimiter" where
  "filtering_elapsed el ts s = (let (e, i) = el ts (filt_inner s) in (e, s\<lparr>filt_inner := i\<rparr>))"

definition filtering_timeUntilNextRelease ::
  "(time_source \<Rightarrow> 's \<Rightarrow> nanos option) \<Rightarrow> time_source \<Rightarrow> ('s, 'f) FilteringRateLimiter \<Rightarrow> nanos option" where
  "filtering_timeUntilNextRelease w ts s = w ts (filt_inner s)"

subsection \<open>The gradually opening filter and the Zipf filter\<close>

record 'g GradualState =
  provider :: 'g
  provider_min :: nat
  provider_max :: nat
  gradual_ramp_time :: nanos

definition mk_GraduallyOpeningRateLimiterFilter ::
  "nanos \<Rightarrow> 'g \<Rightarrow> nat \<Rightarrow> nat \<Rightarrow> 's \<Rightarrow> ('s, 'g GradualState) FilteringRateLimiter result" where
  "mk_GraduallyOpeningRateLimiterFilter rt prov pmin pmax inner =
     (if rt \<le> 0 then Inl (NighthawkException ''ramp_time must be positive and > 0ns'')
      else if pmin \<noteq> 1 then Inl (NighthawkException ''min value of the distribution provider must equal 1'')
      else if pmax \<noteq> 1000000 then Inl (NighthawkException ''max value of the distribution provider must equal 1000000'')
      else Inr \<lparr>filt_inner = inner,
                filt_state = \<lparr>provider = prov, provider_min = pmin, provider_max = pmax, gradual_ramp_time = rt\<rparr>\<rparr>)"

definition gradual_filter ::
  "(time_source \<Rightarrow> 's \<Rightarrow> nanos \<times> 's) \<Rightarrow> ('g \<Rightarrow> nat \<times> 'g) \<Rightarrow> time_source \<Rightarrow>
     ('s, 'g GradualState) FilteringRateLimiter \<Rightarrow> bool \<times> ('s, 'g GradualState) FilteringRateLimiter" where
  "gradual_filter el getValue ts s =
     (let (elapsed_time, s') = filtering_elapsed el ts s; f = filt_state s' in
      if elapsed_time < gradual_ramp_time f then
        let probability = 1 - real_of_int (gradual_ramp_time f - elapsed_time) / (real_of_int (gradual_ramp_time f) * 1);
            (v, g) = getValue (provider f);
            random_between_0_and_1 = 1 * real v / real (provider_max f)
        in (random_between_0_and_1 < probability, s'\<lparr>filt_state := f\<lparr>provider := g\<rparr>\<rparr>)
      else (True, s'))"

datatype ZipfBehavior = ZIPF_PSEUDO_RANDOM | ZIPF_RANDOM

record ('m, 'g) ZipfState =
  zipf_mt :: 'm
  zipf_g :: 'g
  zipf_behavior :: ZipfBehavior

text \<open>
  The constructor's checks on the distribution parameters; \<open>dist\<close> samples \<^verbatim>\<open>absl::zipf_distribution\<close>
  over \<open>{0, 1}\<close> from either generator, and a non-zero sample lets the acquisition through.
\<close>

definition mk_ZipfRateLimiter ::
  "'s \<Rightarrow> real \<Rightarrow> real \<Rightarrow> ZipfBehavior \<Rightarrow> 'm \<Rightarrow> 'g \<Rightarrow> ('s, ('m, 'g) ZipfState) FilteringRateLimiter result" where
  "mk_ZipfRateLimiter inner q v behavior m g =
     (if v \<le> 0 then Inl (NighthawkException ''v should be > 0'')
      else if q \<le> 1 then Inl (NighthawkException ''q should be > 1'')
      else Inr \<lparr>filt_inner = inner, filt_state = \<lparr>zipf_mt = m, zipf_g = g, zipf_behavior = behavior\<rparr>\<rparr>)"

definition zipf_filter ::
  "('m \<Rightarrow> nat \<times> 'm) \<Rightarrow> ('g \<Rightarrow> nat \<times> 'g) \<Rightarrow> time_source \<Rightarrow>
     ('s, ('m, 'g) ZipfState) FilteringRateLimiter \<Rightarrow> bool \<times> ('s, ('m, 'g) ZipfState) FilteringRateLimiter" where
  "zipf_filter dist_mt dist_g ts s =
     (let z = filt_state s in
      case zipf_behavior z of
        ZIPF_PSEUDO_RANDOM \<Rightarrow> (let (v, m) = dist_mt (zipf_mt z) in (v \<noteq> 0, s\<lparr>filt_state := z\<lparr>zipf_mt := m\<rparr>\<rparr>))
      | ZIPF_RANDOM \<Rightarrow> (let (v, g) = dist_g (zipf_g z) in (v \<noteq> 0, s\<lparr>filt_state := z\<lparr>zipf_g := g\<rparr>\<rparr>)))"

definition filtering_ok :: "(nanos \<Rightarrow> 's \<Rightarrow> bool) \<Rightarrow> nanos \<Rightarrow> ('s, 'f) FilteringRateLimiter \<Rightarrow> bool" where
  "filtering_ok valid t s = valid t (filt_inner s)"

definition filtering_budget :: "(time_source \<Rightarrow> 's \<Rightarrow> nat) \<Rightarrow> time_source \<Rightarrow> ('s, 'f) FilteringRateLimiter \<Rightarrow> nat" where
  "filtering_budget bud ts s = bud ts (filt_inner s)"

lemmas filtering_defs = filtering_releaseOne_def filtering_elapsed_def filtering_timeUntilNextRelease_def
  filtering_ok_def filtering_budget_def

text \<open>A filter is harmless when all it does to the wrapped limiter is read its clock.\<close>

definition harmless_filter ::
  "(time_source \<Rightarrow> 's \<Rightarrow> nanos \<times> 's) \<Rightarrow>
   (time_source \<Rightarrow> ('s, 'f) FilteringRateLimiter \<Rightarrow> bool \<times> ('s, 'f) FilteringRateLimiter) \<Rightarrow> bool" where
  "harmless_filter el flt \<longleftrightarrow>
     (\<forall>ts s. filt_inner (snd (flt ts s)) = filt_inner s \<or> filt_inner (snd (flt ts s)) = snd (el ts (filt_inner s)))"

lemma gradual_filter_harmless: "harmless_filter el (gradual_filter el getValue)"
  by (auto simp: harmless_filter_def gradual_filter_def filtering_elapsed_def Let_def split: prod.split)

lemma zipf_filter_harmless: "harmless_filter el (zipf_filter dm dg)"
  by (auto simp: harmless_filter_def zipf_filter_def Let_def split: prod.split ZipfBehavior.split)

context reopenable_limiter
begin

lemma filtering_try_inner:
  assumes "harmless_filter elapsed flt" "filtering_tryAcquireOne try_acquire flt ts s = (r, s')"
  shows "filt_inner s' = snd (try_acquire ts (filt_inner s)) \<or>
           filt_inner s' = snd (elapsed ts (snd (try_acquire ts (filt_inner s))))"
    and "r \<Longrightarrow> fst (try_acquire ts (filt_inner s))"
proof -
  obtain ok i where tr: "try_acquire ts (filt_inner s) = (ok, i)" by fastforce
  have "filt_inner (snd (flt ts (s\<lparr>filt_inner := i\<rparr>))) = i \<or>
        filt_inner (snd (flt ts (s\<lparr>filt_inner := i\<rparr>))) = snd (elapsed ts i)"
    using assms(1) unfolding harmless_filter_def by (metis FilteringRateLimiter.select_convs(1)
        FilteringRateLimiter.surjective FilteringRateLimiter.update_convs(1))
  then show "filt_inner s' = snd (try_acquire ts (filt_inner s)) \<or>
           filt_inner s' = snd (elapsed ts (snd (try_acquire ts (filt_inner s))))"
    using assms(2) tr by (auto simp: filtering_tryAcquireOne_def Let_def split: if_splits)
  show "r \<Longrightarrow> fst (try_acquire ts (filt_inner s))"
    using assms(2) tr by (auto simp: filtering_tryAcquireOne_def Let_def split: if_splits)
qed

lemma filtering_try_post:
  assumes flt: "harmless_filter elapsed flt" and v: "valid (monotonicTime ts) (filt_inner s)"
    and tr: "filtering_tryAcquireOne try_acquire flt ts s = (r, s')"
  shows "valid (monotonicTime ts) (filt_inner s')"
    and "r \<Longrightarrow> opened (monotonicTime ts) (filt_inner s')"
    and "filtering_budget budget ts s' + of_bool r \<le> filtering_budget budget ts s"
proof -
  obtain a i where t: "try_acquire ts (filt_inner s) = (a, i)" by fastforce
  have vi: "valid (monotonicTime ts) i" using valid_try_now [OF v] t by simp
  have bi: "budget ts i + of_bool a \<le> budget ts (filt_inner s)"
    using budget_success [OF v, of ts i] budget_failure [OF v, of ts i] t by (cases a) auto
  have i': "filt_inner s' = i \<or> filt_inner s' = snd (elapsed ts i)" and ra: "r \<Longrightarrow> a"
    using filtering_try_inner [OF flt tr] t by auto
  show "valid (monotonicTime ts) (filt_inner s')"
    using i' vi valid_elapsed [OF vi, of ts] by auto
  show "opened (monotonicTime ts) (filt_inner s')" if r
    using i' ra [OF that] t success_opened [OF v, of ts i] opened_elapsed [of "monotonicTime ts" i ts] by auto
  have "budget ts (filt_inner s') \<le> budget ts i" using i' budget_elapsed [OF vi, of ts] by auto
  then show "filtering_budget budget ts s' + of_bool r \<le> filtering_budget budget ts s"
    using bi ra unfolding filtering_budget_def by (cases r; cases a) auto
qed

lemma filtering_opened_try:
  assumes "harmless_filter elapsed flt" "opened t (filt_inner s)" "t \<le> monotonicTime ts"
  shows "opened (monotonicTime ts) (filt_inner (snd (filtering_tryAcquireOne try_acquire flt ts s)))"
  using filtering_try_inner(1) [OF assms(1), of ts s] opened_try [OF assms(2,3)]
    opened_elapsed [of "monotonicTime ts" "snd (try_acquire ts (filt_inner s))" ts]
  by (metis order_refl prod.collapse)

lemma filtering_valid_release:
  assumes "harmless_filter elapsed flt" "valid t (filt_inner s)" "t \<le> monotonicTime ts"
    and "filt_inner x = filt_inner (snd (filtering_tryAcquireOne try_acquire flt ts s)) \<or>
         filt_inner x = snd (elapsed ts (filt_inner (snd (filtering_tryAcquireOne try_acquire flt ts s))))"
    and "filtering_releaseOne release ts x = Inr x'"
  shows "valid (monotonicTime ts) (filt_inner x')"
proof -
  have "filt_inner x = snd (try_acquire ts (filt_inner s)) \<or>
        filt_inner x = snd (elapsed ts (snd (try_acquire ts (filt_inner s))))"
    using assms(4) filtering_try_inner(1) [OF assms(1), of ts s] elapsed_idem by (metis prod.collapse)
  moreover obtain i where "release ts (filt_inner x) = Inr i" "filt_inner x' = i"
    using assms(5) by (cases "release ts (filt_inner x)") (auto simp: filtering_releaseOne_def)
  ultimately show ?thesis
    using valid_release [OF assms(2,3)] valid_release_elapsed [OF assms(2,3)] by auto
qed

lemma filtering_contract:
  assumes flt: "harmless_filter elapsed flt"
  shows "reopenable_limiter (filtering_tryAcquireOne try_acquire flt) (filtering_releaseOne release)
     (filtering_elapsed elapsed) (filtering_timeUntilNextRelease wait) (filtering_ok valid)
     (filtering_budget budget) (\<lambda>t s. opened t (filt_inner s))"
proof (unfold_locales, goal_cases)
  case 1 then show ?case using valid_later by (simp add: filtering_ok_def)
next
  case (2 t s ts) then show ?case using filtering_try_post(1) [OF flt, of ts s] valid_later [of t "filt_inner s"]
    by (metis filtering_ok_def prod.collapse)
next
  case (3 t s ts s') then show ?case
    using filtering_valid_release [OF flt, of t s ts "snd (filtering_tryAcquireOne try_acquire flt ts s)" s']
    by (simp add: filtering_ok_def)
next
  case (4 t s ts) then show ?case using valid_elapsed [of t "filt_inner s" ts]
    by (auto simp: filtering_defs split: prod.split)
next
  case (5 t s ts s')
  then have "opened (monotonicTime ts) (filt_inner s')"
    using filtering_try_post(2) [OF flt _ 5(3)] valid_later [of t "filt_inner s"] by (simp add: filtering_ok_def)
  then show ?case using opened_release_ok by (fastforce simp: filtering_releaseOne_def is_ok_conv)
next
  case 6 then show ?case using wait_nonneg by (auto simp: filtering_defs)
next
  case (7 ts s d ts') then show ?case using wait_lower_bound filtering_try_inner(2) [OF flt]
    by (metis filtering_ok_def filtering_timeUntilNextRelease_def prod.collapse)
next
  case (8 t s ts s') then show ?case using filtering_try_post(3) [OF flt _ 8(3)] valid_later [of t "filt_inner s"]
    by (simp add: filtering_ok_def)
next
  case (9 t s ts s') then show ?case using filtering_try_post(3) [OF flt _ 9(3)] valid_later [of t "filt_inner s"]
    by (simp add: filtering_ok_def)
next
  case (10 t s ts) then show ?case using budget_elapsed [of t "filt_inner s" ts]
    by (auto simp: filtering_defs split: prod.split)
next
  case (11 ts s) then show ?case using elapsed_idem [of ts "filt_inner s"]
    by (auto simp: filtering_defs split: prod.split)
next
  case (12 t s ts s')
  then show ?case
    using filtering_valid_release [OF flt, of t s ts
        "snd (filtering_elapsed elapsed ts (snd (filtering_tryAcquireOne try_acquire flt ts s)))" s']
    by (simp add: filtering_ok_def filtering_elapsed_def split: prod.splits)
next
  case 13 then show ?case by (rule opened_later)
next
  case 14 then show ?case by (rule filtering_opened_try [OF flt])
next
  case (15 t s ts) then show ?case using opened_elapsed [of t "filt_inner s" ts]
    by (auto simp: filtering_defs split: prod.split)
next
  case (16 t s ts s') then show ?case using opened_release [of t "filt_inner s" ts]
    by (cases "release ts (filt_inner s)") (auto simp: filtering_defs)
next
  case (17 t s ts s') then show ?case using filtering_try_post(2) [OF flt _ 17(3)] valid_later [of t "filt_inner s"]
    by (simp add: filtering_ok_def)
next
  case (18 t s ts) then show ?case using opened_release_ok [of t "filt_inner s" ts]
    by (auto simp: filtering_releaseOne_def is_ok_conv)
qed

end

end
