(* ===== verification/Strings.thy ===== *)
theory Strings
  imports Prelude
begin

text \<open>
  The operations of \<^verbatim>\<open>std::string\<close>, \<^verbatim>\<open>std::string_view\<close> and \<^verbatim>\<open>std::stoi\<close> the engine uses (an index is
  \<open>None\<close> for \<open>npos\<close>), decimal printing, and the record of third-party string routines (Abseil, RE2,
  protobuf, Envoy) that the string handling code is parametric in.
\<close>

subsection \<open>Searching\<close>

fun find_index :: "('a \<Rightarrow> bool) \<Rightarrow> 'a list \<Rightarrow> nat option" where
  "find_index P [] = None"
| "find_index P (x # xs) = (if P x then Some 0 else map_option Suc (find_index P xs))"

text \<open>\<open>str.find(c, pos)\<close> with \<open>pos\<close> itself possibly \<open>npos\<close>, and \<open>str.rfind(c)\<close>.\<close>

definition str_find :: "char \<Rightarrow> nat option \<Rightarrow> string \<Rightarrow> nat option" where
  "str_find c pos s = (case pos of None \<Rightarrow> None | Some p \<Rightarrow> map_option (\<lambda>i. p + i) (find_index ((=) c) (drop p s)))"

definition str_rfind :: "char \<Rightarrow> string \<Rightarrow> nat option" where
  "str_rfind c s = map_option (\<lambda>i. length s - 1 - i) (find_index ((=) c) (rev s))"

text \<open>\<open>str.find(pattern, 0)\<close> for a non-empty pattern.\<close>

fun str_find_sub :: "string \<Rightarrow> string \<Rightarrow> nat option" where
  "str_find_sub p [] = (if p = [] then Some 0 else None)"
| "str_find_sub p (x # xs) =
     (if take (length p) (x # xs) = p then Some 0 else map_option Suc (str_find_sub p xs))"

lemma find_index_None: "find_index P xs = None \<longleftrightarrow> (\<forall>x \<in> set xs. \<not> P x)"
  by (induction xs) auto

lemma find_index_Some_bound: "find_index P xs = Some i \<Longrightarrow> i < length xs \<and> P (xs ! i)"
  by (induction xs arbitrary: i) (auto split: if_splits)

lemma find_index_Some_first: "find_index P xs = Some i \<Longrightarrow> j < i \<Longrightarrow> \<not> P (xs ! j)"
  by (induction xs arbitrary: i j) (auto split: if_splits simp: nth_Cons split: nat.splits)

lemma find_index_append:
  "find_index P (xs @ ys) =
     (case find_index P xs of Some i \<Rightarrow> Some i | None \<Rightarrow> map_option (\<lambda>i. length xs + i) (find_index P ys))"
  by (cases "find_index P ys"; induction xs) (auto split: option.splits)

lemma find_index_first: "c \<notin> set xs \<Longrightarrow> find_index ((=) c) (xs @ c # ys) = Some (length xs)"
  by (induction xs) auto

lemma str_rfind_last:
  "c \<notin> set ys \<Longrightarrow> str_rfind c (xs @ c # ys) = Some (length xs)"
proof -
  assume "c \<notin> set ys"
  then have none: "find_index ((=) c) (rev ys) = None" by (auto simp: find_index_None)
  have "find_index ((=) c) (rev ys @ c # rev xs) = Some (length ys)"
    using none by (simp add: find_index_append)
  then show ?thesis by (simp add: str_rfind_def)
qed

lemma str_rfind_None: "str_rfind c s = None \<longleftrightarrow> c \<notin> set s"
  by (auto simp: str_rfind_def find_index_None)

lemma str_rfind_Some:
  assumes "str_rfind c s = Some i"
  shows "i < length s" "s ! i = c" "c \<notin> set (drop (Suc i) s)"
proof -
  obtain j where j: "find_index ((=) c) (rev s) = Some j" "i = length s - 1 - j"
    using assms by (auto simp: str_rfind_def)
  have jl: "j < length s" "rev s ! j = c" using find_index_Some_bound [OF j(1)] by auto
  then show "i < length s" "s ! i = c" using j(2) by (auto simp: rev_nth)
  show "c \<notin> set (drop (Suc i) s)"
  proof
    assume "c \<in> set (drop (Suc i) s)"
    then obtain k where k: "k < length s - Suc i" "s ! (Suc i + k) = c"
      by (auto simp: in_set_conv_nth)
    define m where "m = length s - 1 - (Suc i + k)"
    have lt: "m < j" "m < length s" using k j(2) jl by (auto simp: m_def)
    moreover have "length s - Suc m = Suc i + k" using k by (auto simp: m_def)
    ultimately have "m < j" "rev s ! m = c" using k by (simp_all add: rev_nth)
    then show False using find_index_Some_first [OF j(1)] by auto
  qed
qed

lemma str_find_sub_prefix: "p \<noteq> [] \<Longrightarrow> str_find_sub p (p @ xs) = Some 0"
  by (cases p) auto

subsection \<open>Decimal numbers\<close>

definition digit_char :: "nat \<Rightarrow> char" where
  "digit_char d = char_of (d + 48)"

fun show_nat :: "nat \<Rightarrow> string" where
  "show_nat n = (if n < 10 then [digit_char n] else show_nat (n div 10) @ [digit_char (n mod 10)])"

declare show_nat.simps [simp del]

definition digit_value :: "char \<Rightarrow> nat option" where
  "digit_value c = (if 48 \<le> (of_char c :: nat) \<and> (of_char c :: nat) \<le> 57 then Some (of_char c - 48) else None)"

fun read_digits :: "nat \<Rightarrow> string \<Rightarrow> nat" where
  "read_digits acc [] = acc"
| "read_digits acc (c # cs) = (case digit_value c of None \<Rightarrow> acc | Some d \<Rightarrow> read_digits (10 * acc + d) cs)"

lemma digit_value_digit_char [simp]: "d < 10 \<Longrightarrow> digit_value (digit_char d) = Some d"
  by (simp add: digit_value_def digit_char_def)

lemma read_digits_snoc:
  "\<forall>c \<in> set cs. digit_value c \<noteq> None \<Longrightarrow> digit_value c = Some d \<Longrightarrow>
     read_digits acc (cs @ [c]) = 10 * read_digits acc cs + d"
  by (induction cs arbitrary: acc) (auto split: option.splits)

lemma show_nat_digits: "\<forall>c \<in> set (show_nat n). digit_value c \<noteq> None"
proof (induction n rule: show_nat.induct)
  case (1 n)
  then show ?case by (cases "n < 10") (simp_all add: show_nat.simps [of n])
qed

lemma read_show_nat [simp]: "read_digits 0 (show_nat n) = n"
proof (induction n rule: show_nat.induct)
  case (1 n)
  show ?case
  proof (cases "n < 10")
    case True
    then show ?thesis by (subst show_nat.simps) simp
  next
    case False
    then show ?thesis using 1 read_digits_snoc [OF show_nat_digits, of "digit_char (n mod 10)" "n mod 10" 0 "n div 10"]
      by (subst show_nat.simps) simp
  qed
qed

lemma show_nat_nonempty [simp]: "show_nat n \<noteq> []"
  by (subst show_nat.simps) simp

lemma show_nat_no_colon: "CHR '':'' \<notin> set (show_nat n)"
  using show_nat_digits [of n] by (auto simp: digit_value_def)

text \<open>
  \<open>std::stoi\<close>: leading white space, an optional sign, then the longest run of digits; it throws
  \<open>invalid_argument\<close> without a digit and \<open>out_of_range\<close> beyond \<open>int\<close>.
\<close>

datatype 'a stoi_result = StoiOk 'a | StoiInvalid | StoiOutOfRange

definition isspace :: "char \<Rightarrow> bool" where
  "isspace c = ((of_char c :: nat) = 32 \<or> (9 \<le> (of_char c :: nat) \<and> (of_char c :: nat) \<le> 13))"

definition stoi :: "string \<Rightarrow> int stoi_result" where
  "stoi s =
     (let t = dropWhile isspace s;
          neg = (t \<noteq> [] \<and> hd t = CHR ''-'');
          u = (if t \<noteq> [] \<and> (hd t = CHR ''-'' \<or> hd t = CHR ''+'') then tl t else t)
      in if u = [] \<or> digit_value (hd u) = None then StoiInvalid
         else let v = (if neg then - int (read_digits 0 u) else int (read_digits 0 u))
              in if - 2147483648 \<le> v \<and> v \<le> 2147483647 then StoiOk v else StoiOutOfRange)"

text \<open>Conversion of a signed value to a \<open>uint32_t\<close>.\<close>

definition to_uint32 :: "int \<Rightarrow> nat" where
  "to_uint32 i = nat (i mod 4294967296)"

lemma to_uint32_id [simp]: "n < 4294967296 \<Longrightarrow> to_uint32 (int n) = n"
  by (simp add: to_uint32_def)

subsection \<open>Third-party routines\<close>

text \<open>
  Durations and timestamps of protobuf, and the routines of Abseil, RE2, protobuf and Envoy that
  option parsing and URI parsing call. A definition that calls one takes the record; what the code
  relies on is a named predicate (\<open>..._documented\<close>) on the record.
\<close>

record Duration =
  dur_seconds :: int
  dur_nanos :: int

text \<open>The three patterns of \<open>Utility::parseHostPort\<close>: a dotted quad, a bracketed IPv6 address, a name.\<close>

datatype host_port_pattern = IPv4Pattern | IPv6Pattern | DnsPattern

record third_party =
  extractHostPathFromUri :: "string \<Rightarrow> string \<times> string"
  AsciiStrToLower :: "string \<Rightarrow> string"
  AsciiStrToUpper :: "string \<Rightarrow> string"
  EqualsIgnoreCase :: "string \<Rightarrow> string \<Rightarrow> bool"
  StripAsciiWhitespace :: "string \<Rightarrow> string"
  StartsWith :: "string \<Rightarrow> string \<Rightarrow> bool"
  EndsWith :: "string \<Rightarrow> string \<Rightarrow> bool"
  StrJoin :: "string list \<Rightarrow> string \<Rightarrow> string"
  StrReplaceAll :: "string \<Rightarrow> (string \<times> string) list \<Rightarrow> string"
  SimpleAtoi_uint64 :: "string \<Rightarrow> nat option"
  SimpleAtoi_int :: "string \<Rightarrow> int option"
  StrSplit :: "char \<Rightarrow> string \<Rightarrow> string list"
  StrSplit_SkipWhitespace :: "char \<Rightarrow> string \<Rightarrow> string list"
  RE2_FullMatch :: "host_port_pattern \<Rightarrow> string \<Rightarrow> (string \<times> int) option"
  TimeUtil_FromString :: "string \<Rightarrow> Duration option"
  DurationToNanoseconds :: "Duration \<Rightarrow> nanos"
  NanosecondsToDuration :: "nanos \<Rightarrow> Duration"
  NanosecondsToTimestamp :: "nanos \<Rightarrow> Duration"
  loadFromJson :: "string \<Rightarrow> string result"

text \<open>
  Abseil: \<open>AsciiStrToLower\<close> leaves lower case letters alone, and \<open>SimpleAtoi\<close> reads back a decimal
  number that fits.
\<close>

definition is_lower :: "char \<Rightarrow> bool" where
  "is_lower c = (97 \<le> (of_char c :: nat) \<and> (of_char c :: nat) \<le> 122)"

definition absl_documented :: "'z third_party_scheme \<Rightarrow> bool" where
  "absl_documented lib \<longleftrightarrow>
     (\<forall>s. list_all is_lower s \<longrightarrow> AsciiStrToLower lib s = s) \<and>
     (\<forall>n < 2 ^ 64. SimpleAtoi_uint64 lib (show_nat n) = Some n)"

text \<open>
  Envoy: \<open>extractHostPathFromUri\<close> splits behind an optional scheme at the first slash, the host is
  everything before it and the path everything from it.
\<close>

definition envoy_uri_documented :: "'z third_party_scheme \<Rightarrow> bool" where
  "envoy_uri_documented lib \<longleftrightarrow>
     (\<forall>scheme host path. CHR '':'' \<notin> set scheme \<longrightarrow> CHR ''/'' \<notin> set host \<longrightarrow>
        extractHostPathFromUri lib (scheme @ ''://'' @ host @ CHR ''/'' # path) = (host, CHR ''/'' # path)) \<and>
     (\<forall>u. CHR ''/'' \<notin> set (fst (extractHostPathFromUri lib u)) \<and>
          (\<exists>p. snd (extractHostPathFromUri lib u) = CHR ''/'' # p))"

subsection \<open>An instance\<close>

text \<open>
  Straightforward implementations of the routines, which meet the documented behaviour; examples
  evaluate with them.
\<close>

definition lower_char :: "char \<Rightarrow> char" where
  "lower_char c = (if 65 \<le> (of_char c :: nat) \<and> (of_char c :: nat) \<le> 90 then char_of ((of_char c :: nat) + 32) else c)"

definition upper_char :: "char \<Rightarrow> char" where
  "upper_char c = (if is_lower c then char_of ((of_char c :: nat) - 32) else c)"

definition split_uri :: "string \<Rightarrow> string \<times> string" where
  "split_uri u =
     (let rest = (case str_find_sub ''://'' u of None \<Rightarrow> u | Some i \<Rightarrow> drop (i + 3) u)
      in (takeWhile (\<lambda>c. c \<noteq> CHR ''/'') rest,
          case dropWhile (\<lambda>c. c \<noteq> CHR ''/'') rest of [] \<Rightarrow> ''/'' | c # cs \<Rightarrow> CHR ''/'' # cs))"

definition read_number :: "nat \<Rightarrow> string \<Rightarrow> nat option" where
  "read_number bound s =
     (if s \<noteq> [] \<and> list_all (\<lambda>c. digit_value c \<noteq> None) s \<and> read_digits 0 s < bound
      then Some (read_digits 0 s) else None)"

fun split_at :: "char \<Rightarrow> string \<Rightarrow> string list" where
  "split_at d [] = [[]]"
| "split_at d (c # cs) =
     (if c = d then [] # split_at d cs
      else case split_at d cs of [] \<Rightarrow> [[c]] | w # ws \<Rightarrow> (c # w) # ws)"

definition sample_lib :: third_party where
  "sample_lib =
     \<lparr>extractHostPathFromUri = split_uri,
      AsciiStrToLower = map lower_char,
      AsciiStrToUpper = map upper_char,
      EqualsIgnoreCase = (\<lambda>x y. map lower_char x = map lower_char y),
      StripAsciiWhitespace = (\<lambda>s. rev (dropWhile isspace (rev (dropWhile isspace s)))),
      StartsWith = (\<lambda>s p. take (length p) s = p),
      EndsWith = (\<lambda>s p. drop (length s - length p) s = p),
      StrJoin = (\<lambda>xs sep. concat (map (\<lambda>(i, x). if i = 0 then x else sep @ x) (enumerate 0 xs))),
      StrReplaceAll = (\<lambda>s _. filter (\<lambda>c. c \<noteq> CHR ''['' \<and> c \<noteq> CHR '']'') s),
      SimpleAtoi_uint64 = read_number (2 ^ 64),
      SimpleAtoi_int = (\<lambda>s. map_option int (read_number (2 ^ 31) s)),
      StrSplit = split_at,
      StrSplit_SkipWhitespace = (\<lambda>d s. filter (\<lambda>w. \<not> list_all isspace w) (split_at d s)),
      RE2_FullMatch = (\<lambda>_ s. case str_rfind CHR '':'' s of None \<Rightarrow> None
         | Some i \<Rightarrow> map_option (\<lambda>p. (take i s, int p)) (read_number (2 ^ 31) (drop (Suc i) s))),
      TimeUtil_FromString = (\<lambda>s. map_option (\<lambda>n. \<lparr>dur_seconds = int n, dur_nanos = 0\<rparr>) (read_number (2 ^ 31) (butlast s))),
      DurationToNanoseconds = (\<lambda>d. dur_seconds d * 1000000000 + dur_nanos d),
      NanosecondsToDuration = (\<lambda>n. \<lparr>dur_seconds = n div 1000000000, dur_nanos = n mod 1000000000\<rparr>),
      NanosecondsToTimestamp = (\<lambda>n. \<lparr>dur_seconds = n div 1000000000, dur_nanos = n mod 1000000000\<rparr>),
      loadFromJson = Inr\<rparr>"

lemma sample_lib_absl: "absl_documented sample_lib"
proof -
  have "map lower_char s = s" if "list_all is_lower s" for s
    using that by (induction s) (auto simp: lower_char_def is_lower_def)
  moreover have "read_number (2 ^ 64) (show_nat n) = Some n" if "n < 2 ^ 64" for n
    using that show_nat_digits [of n] by (simp add: read_number_def list_all_iff)
  ultimately show ?thesis by (simp add: absl_documented_def sample_lib_def)
qed

lemma str_find_sub_scheme:
  "CHR '':'' \<notin> set scheme \<Longrightarrow> str_find_sub ''://'' (scheme @ ''://'' @ rest) = Some (length scheme)"
  by (induction scheme) (auto split: if_splits)

lemma sample_lib_uri: "envoy_uri_documented sample_lib"
proof -
  have tk: "takeWhile (\<lambda>c. c \<noteq> CHR ''/'') (h @ CHR ''/'' # p) = h"
    and dr: "dropWhile (\<lambda>c. c \<noteq> CHR ''/'') (h @ CHR ''/'' # p) = CHR ''/'' # p"
    if "CHR ''/'' \<notin> set h" for h p
    using that by (induction h) auto
  have "split_uri (scheme @ ''://'' @ host @ CHR ''/'' # path) = (host, CHR ''/'' # path)"
    if "CHR '':'' \<notin> set scheme" "CHR ''/'' \<notin> set host" for scheme host path
    unfolding split_uri_def str_find_sub_scheme [OF that(1)]
    using tk [OF that(2)] dr [OF that(2)] by simp
  moreover have "CHR ''/'' \<notin> set (fst (split_uri u)) \<and> (\<exists>p. snd (split_uri u) = CHR ''/'' # p)" for u
    by (auto simp: split_uri_def Let_def dest: set_takeWhileD split: list.splits)
  ultimately show ?thesis by (simp add: envoy_uri_documented_def sample_lib_def)
qed

end
