(* ===== verification/UriUtil.thy ===== *)
theory UriUtil
  imports Strings
begin

text \<open>
  \<^verbatim>\<open>source/common/utility.cc\<close> and \<^verbatim>\<open>source/common/uri_impl.cc\<close>: host and port splitting, counter
  names, gRPC framing, and the URI class with its parsing and its one-shot DNS resolution. The DNS
  resolver and Envoy's address type are parameters.
\<close>

subsection \<open>Utility\<close>

datatype AddressFamilyOptions = AF_AUTO | AF_V4 | AF_V6

datatype DnsLookupFamily = V4Only | V6Only | Auto

definition translateFamilyOptionString :: "AddressFamilyOptions \<Rightarrow> DnsLookupFamily" where
  "translateFamilyOptionString v = (case v of AF_V4 \<Rightarrow> V4Only | AF_V6 \<Rightarrow> V6Only | AF_AUTO \<Rightarrow> Auto)"

definition findPortSeparator :: "string \<Rightarrow> nat option" where
  "findPortSeparator hostname =
     (if hostname \<noteq> [] \<and> hd hostname = CHR ''[''
      then str_find CHR '':'' (str_find CHR '']'' (Some 0) hostname) hostname
      else str_rfind CHR '':'' hostname)"

definition parseHostPort :: "'z third_party_scheme \<Rightarrow> string \<Rightarrow> (string \<times> int) option" where
  "parseHostPort lib host_port =
     (case RE2_FullMatch lib IPv4Pattern host_port of Some r \<Rightarrow> Some r | None \<Rightarrow>
      case RE2_FullMatch lib IPv6Pattern host_port of Some r \<Rightarrow> Some r | None \<Rightarrow>
      RE2_FullMatch lib DnsPattern host_port)"

text \<open>
  Counter names lose a leading \<open>cluster\<close> or \<open>worker\<close> and then a leading number. Reading \<open>v[0]\<close> of a
  vector that erasing emptied is undefined behaviour, the error here.
\<close>

definition strip_stat_prefix :: "'z third_party_scheme \<Rightarrow> string \<Rightarrow> string result" where
  "strip_stat_prefix lib stat_name =
     (let v = StrSplit lib CHR ''.'' stat_name;
          v1 = (if v \<noteq> [] \<and> (hd v = ''cluster'' \<or> hd v = ''worker'') then tl v else v)
      in if v1 = [] then Inl (Panic ''v[0] of an empty vector'')
         else let v2 = (if SimpleAtoi_int lib (hd v1) \<noteq> None then tl v1 else v1)
              in Inr (StrJoin lib v2 ''.''))"

fun mapCountersFromStore ::
  "'z third_party_scheme \<Rightarrow> (string \<Rightarrow> 64 word \<Rightarrow> bool) \<Rightarrow> (string \<times> 64 word) list \<Rightarrow>
     (string \<rightharpoonup> 64 word) \<Rightarrow> (string \<rightharpoonup> 64 word) result" where
  "mapCountersFromStore lib keep [] results = Inr results"
| "mapCountersFromStore lib keep ((name, value) # rest) results =
     (if keep name value then
        result_bind (strip_stat_prefix lib name) (\<lambda>stat_name.
          mapCountersFromStore lib keep rest
            (results(stat_name \<mapsto> (case results stat_name of Some v \<Rightarrow> v | None \<Rightarrow> 0) + value)))
      else mapCountersFromStore lib keep rest results)"

text \<open>The gRPC length-prefixed framing: a zero flag byte, four big-endian length bytes, the message.\<close>

type_synonym byte = "8 word"

definition be32 :: "32 word \<Rightarrow> byte list" where
  "be32 n = [ucast (drop_bit 24 n), ucast (drop_bit 16 n), ucast (drop_bit 8 n), ucast n]"

definition grpcFrameMessage :: "byte list \<Rightarrow> byte list result" where
  "grpcFrameMessage message =
     (if length message \<le> 4294967295
      then Inr (0 # be32 (of_nat (length message)) @ message)
      else Inl (ReleaseAssert ''gRPC message too large to frame''))"

subsection \<open>URIs\<close>

record 'a UriImpl =
  host_and_port :: string
  host_without_port :: string
  uri_path :: string
  uri_port :: nat
  uri_scheme :: string
  uri_address :: "'a option"
  resolve_attempted :: bool

definition UriImpl_isValid :: "'a UriImpl \<Rightarrow> bool" where
  "UriImpl_isValid u \<longleftrightarrow>
     (uri_scheme u = ''http'' \<or> uri_scheme u = ''https'' \<or> uri_scheme u = ''zipkin'' \<or> uri_scheme u = ''grpc'' \<or>
      uri_scheme u = ''tcp'' \<or> uri_scheme u = ''tcps'' \<or> uri_scheme u = ''udp'') \<and>
     (0 < uri_port u \<and> uri_port u \<le> 65535) \<and>
     host_without_port u \<noteq> [] \<and> hd (host_without_port u) \<noteq> CHR ''-''"

definition default_port :: "string \<Rightarrow> nat" where
  "default_port scheme =
     (if scheme = ''https'' then 443
      else if scheme = ''grpc'' then 8443
      else if scheme = ''tcp'' \<or> scheme = ''tcps'' \<or> scheme = ''udp'' then 0
      else 80)"

definition mk_UriImpl :: "'z third_party_scheme \<Rightarrow> string \<Rightarrow> string \<Rightarrow> 'a UriImpl result" where
  "mk_UriImpl lib uri default_scheme =
     (let (host, path) = extractHostPathFromUri lib uri in
      if host = [] then Inl (UriException ''Invalid URI (no host)'')
      else
        let scheme = (case str_find_sub ''://'' uri of
                        None \<Rightarrow> default_scheme
                      | Some scheme_end \<Rightarrow> AsciiStrToLower lib (take scheme_end uri));
            build = (\<lambda>hap hwp port.
              \<lparr>host_and_port = hap, host_without_port = hwp, uri_path = path, uri_port = port,
               uri_scheme = scheme, uri_address = None, resolve_attempted = False\<rparr>);
            check = (\<lambda>u. if UriImpl_isValid u then Inr u else Inl (UriException ''Invalid URI''))
        in case findPortSeparator host of
             None \<Rightarrow> check (build (host @ '':'' @ show_nat (default_port scheme)) host (default_port scheme))
           | Some i \<Rightarrow>
               (case SimpleAtoi_uint64 lib (drop (Suc i) host) of
                  Some port \<Rightarrow> check (build host (take i host) port)
                | None \<Rightarrow> Inl (UriException ''Invalid URI, couldn't parse port'')))"

text \<open>
  DNS resolution: the resolver's answer is whether it completed and the addresses found, \<open>with_port\<close>
  is \<open>getAddressWithPort\<close>, \<open>is_v4\<close> and \<open>is_v6\<close> are the versions an address has.
\<close>

record 'a dns_lib =
  dns_resolve :: "string \<Rightarrow> DnsLookupFamily \<Rightarrow> bool \<times> 'a list"
  with_port :: "'a \<Rightarrow> nat \<Rightarrow> 'a"
  is_v4 :: "'a \<Rightarrow> bool"
  is_v6 :: "'a \<Rightarrow> bool"

definition performDnsLookup :: "'z third_party_scheme \<Rightarrow> 'a dns_lib \<Rightarrow> DnsLookupFamily \<Rightarrow> 'a UriImpl \<Rightarrow> bool \<times> 'a UriImpl" where
  "performDnsLookup lib dns family u =
     (let h = host_without_port u;
          hostname = (if h \<noteq> [] \<and> hd h = CHR ''['' \<and> last h = CHR '']''
                      then StrReplaceAll lib h [(''['', []), ('']'', [])] else h);
          u' = (case dns_resolve dns hostname family of
                  (True, a # _) \<Rightarrow> u\<lparr>uri_address := Some (with_port dns a (uri_port u))\<rparr>
                | _ \<Rightarrow> u)
      in (uri_address u' \<noteq> None, u'))"

definition UriImpl_resolve ::
  "'z third_party_scheme \<Rightarrow> 'a dns_lib \<Rightarrow> DnsLookupFamily \<Rightarrow> 'a UriImpl \<Rightarrow> 'a option result \<times> 'a UriImpl" where
  "UriImpl_resolve lib dns family u =
     (if resolve_attempted u then (Inr (uri_address u), u)
      else
        let (ok, u') = performDnsLookup lib dns family (u\<lparr>resolve_attempted := True\<rparr>);
            mismatch = (case uri_address u' of
                          Some a \<Rightarrow> (family = V6Only \<and> \<not> is_v6 dns a) \<or> (family = V4Only \<and> \<not> is_v4 dns a)
                        | None \<Rightarrow> False)
        in if ok \<and> \<not> mismatch then (Inr (uri_address u'), u')
           else (Inl (UriException ''Could not determine address''), u'\<lparr>uri_address := None\<rparr>))"

subsection \<open>Parsing properties\<close>

lemma mk_UriImpl_valid:
  assumes "mk_UriImpl lib uri d = Inr u"
  shows "UriImpl_isValid u"
  using assms by (auto simp: mk_UriImpl_def Let_def split: prod.splits if_splits option.splits)

lemma valid_scheme_lower:
  assumes "UriImpl_isValid u"
  shows "list_all is_lower (uri_scheme u)" "CHR '':'' \<notin> set (uri_scheme u)"
    "str_find_sub ''://'' (uri_scheme u @ ''://'' @ rest) = Some (length (uri_scheme u))"
  using assms by (auto simp: UriImpl_isValid_def is_lower_def)

lemma str_find_Some0: "str_find c (Some 0) s = find_index ((=) c) s"
  by (cases "find_index ((=) c) s") (simp_all add: str_find_def)

text \<open>Appending an explicit port to a host without one moves the separator there and nowhere else.\<close>

lemma findPortSeparator_append:
  assumes none: "findPortSeparator h = None" and "h \<noteq> []"
    and br: "hd h = CHR ''['' \<longrightarrow> CHR '']'' \<in> set h"
    and digits: "CHR '':'' \<notin> set p"
  shows "findPortSeparator (h @ '':'' @ p) = Some (length h)"
proof (cases "hd h = CHR ''[''")
  case True
  then obtain k where k: "find_index ((=) CHR '']'') h = Some k"
    using br by (cases "find_index ((=) CHR '']'') h") (auto simp: find_index_None)
  then have kl: "k < length h" using find_index_Some_bound by fastforce
  have "find_index ((=) CHR '':'') (drop k h) = None"
    using none True \<open>h \<noteq> []\<close> k by (simp add: findPortSeparator_def str_find_def)
  then have "find_index ((=) CHR '':'') (drop k h @ '':'' @ p) = Some (length h - k)"
    by (simp add: find_index_append)
  then show ?thesis using True \<open>h \<noteq> []\<close> k kl
    by (simp add: findPortSeparator_def str_find_def find_index_append)
next
  case False
  then show ?thesis using str_rfind_last [OF digits, of h] \<open>h \<noteq> []\<close>
    by (simp add: findPortSeparator_def)
qed

definition canonical_uri :: "'a UriImpl \<Rightarrow> string" where
  "canonical_uri u = uri_scheme u @ ''://'' @ host_and_port u @ uri_path u"

lemma digits_no_slash: "CHR ''/'' \<notin> set (show_nat n)"
  using show_nat_digits [of n] by (auto simp: digit_value_def)

text \<open>What a successful parse produced, by whether the URI had a port.\<close>

lemma mk_UriImpl_cases:
  assumes "mk_UriImpl lib uri d = Inr u"
  obtains host where "host \<noteq> []" "extractHostPathFromUri lib uri = (host, uri_path u)"
    "uri_address u = None" "\<not> resolve_attempted u"
    "findPortSeparator host = None \<and> host_and_port u = host @ '':'' @ show_nat (uri_port u) \<and>
       host_without_port u = host \<and> uri_port u = default_port (uri_scheme u) \<or>
     (\<exists>i. findPortSeparator host = Some i \<and> host_and_port u = host \<and> host_without_port u = take i host \<and>
       SimpleAtoi_uint64 lib (drop (Suc i) host) = Some (uri_port u))"
  using assms that by (auto simp: mk_UriImpl_def Let_def split: prod.splits if_splits option.splits)

text \<open>The same for a URI whose parts are known: parsing succeeds with them.\<close>

lemma mk_UriImpl_parts:
  assumes "UriImpl_isValid u" "absl_documented lib"
    and "extractHostPathFromUri lib (canonical_uri u) = (host_and_port u, uri_path u)"
    and "host_and_port u \<noteq> []" "findPortSeparator (host_and_port u) = Some i"
    and "SimpleAtoi_uint64 lib (drop (Suc i) (host_and_port u)) = Some (uri_port u)"
    and "take i (host_and_port u) = host_without_port u" "uri_address u = None" "\<not> resolve_attempted u"
  shows "mk_UriImpl lib (canonical_uri u) d = Inr u"
proof -
  note sch = valid_scheme_lower [OF assms(1)]
  have low: "AsciiStrToLower lib (uri_scheme u) = uri_scheme u"
    using sch(1) assms(2) by (simp add: absl_documented_def)
  have "str_find_sub ''://'' (canonical_uri u) = Some (length (uri_scheme u))"
    using sch(3) by (simp add: canonical_uri_def)
  moreover have "take (length (uri_scheme u)) (canonical_uri u) = uri_scheme u"
    by (simp add: canonical_uri_def)
  moreover have "u = \<lparr>host_and_port = host_and_port u, host_without_port = take i (host_and_port u),
      uri_path = uri_path u, uri_port = uri_port u, uri_scheme = uri_scheme u, uri_address = None,
      resolve_attempted = False\<rparr>" (is "_ = ?u")
    using assms(7-9) by (cases u) simp
  moreover have "UriImpl_isValid ?u" using assms(1) calculation(3) by argo
  ultimately show ?thesis unfolding mk_UriImpl_def Let_def
    by (simp add: assms(3-6) low)
qed

text \<open>
  C29: Parsing normalises a URI once and for all. The URI written from the parsed scheme, host, port and
  path (the port explicit, as \<open>hostAndPort()\<close> documents) parses, under any default scheme, to the same
  URI. A host that opens a bracket has to close it, as in an IPv6 address.
\<close>

theorem uri_normal_form:
  assumes "absl_documented lib" "envoy_uri_documented lib"
    and "mk_UriImpl lib uri d = Inr u"
    and br: "hd (host_without_port u) = CHR ''['' \<longrightarrow> CHR '']'' \<in> set (host_without_port u)"
  shows "mk_UriImpl lib (canonical_uri u) d' = Inr u"
proof -
  have valid: "UriImpl_isValid u" by (rule mk_UriImpl_valid [OF assms(3)])
  from assms(3) obtain host where host: "host \<noteq> []" "extractHostPathFromUri lib uri = (host, uri_path u)"
    "uri_address u = None" "\<not> resolve_attempted u"
    and alt: "findPortSeparator host = None \<and> host_and_port u = host @ '':'' @ show_nat (uri_port u) \<and>
       host_without_port u = host \<and> uri_port u = default_port (uri_scheme u) \<or>
     (\<exists>i. findPortSeparator host = Some i \<and> host_and_port u = host \<and> host_without_port u = take i host \<and>
       SimpleAtoi_uint64 lib (drop (Suc i) host) = Some (uri_port u))"
    by (rule mk_UriImpl_cases)
  obtain p where path: "uri_path u = CHR ''/'' # p" and slash: "CHR ''/'' \<notin> set host"
    using assms(2) host(2) unfolding envoy_uri_documented_def by (metis fst_conv snd_conv)
  have "CHR ''/'' \<notin> set (host_and_port u)" using alt slash digits_no_slash by auto
  then have ext: "extractHostPathFromUri lib (canonical_uri u) = (host_and_port u, uri_path u)"
    using assms(2) valid_scheme_lower(2) [OF valid] path by (simp add: envoy_uri_documented_def canonical_uri_def)
  from alt show ?thesis
  proof
    assume a: "findPortSeparator host = None \<and> host_and_port u = host @ '':'' @ show_nat (uri_port u) \<and>
       host_without_port u = host \<and> uri_port u = default_port (uri_scheme u)"
    then have sep: "findPortSeparator (host_and_port u) = Some (length host)"
      using findPortSeparator_append [of host] host(1) br show_nat_no_colon by simp
    have "SimpleAtoi_uint64 lib (show_nat (uri_port u)) = Some (uri_port u)"
      using assms(1) valid by (simp add: absl_documented_def UriImpl_isValid_def)
    then show ?thesis using a host by (intro mk_UriImpl_parts [OF valid assms(1) ext _ sep]) simp_all
  next
    assume "\<exists>i. findPortSeparator host = Some i \<and> host_and_port u = host \<and> host_without_port u = take i host \<and>
       SimpleAtoi_uint64 lib (drop (Suc i) host) = Some (uri_port u)"
    then obtain i where "findPortSeparator (host_and_port u) = Some i" "host_without_port u = take i (host_and_port u)"
       "SimpleAtoi_uint64 lib (drop (Suc i) (host_and_port u)) = Some (uri_port u)" "host_and_port u = host" by auto
    then show ?thesis using host by (intro mk_UriImpl_parts [OF valid assms(1) ext]) simp_all
  qed
qed

theorem uri_normal_form_witness:
  "mk_UriImpl sample_lib ''https://[::1]/x'' ''http'' =
     Inr \<lparr>host_and_port = ''[::1]:443'', host_without_port = ''[::1]'', uri_path = ''/x'', uri_port = 443,
          uri_scheme = ''https'', uri_address = (None :: unit option), resolve_attempted = False\<rparr> \<and>
   mk_UriImpl sample_lib ''https://[::1]:443/x'' ''grpc'' =
     Inr \<lparr>host_and_port = ''[::1]:443'', host_without_port = ''[::1]'', uri_path = ''/x'', uri_port = 443,
          uri_scheme = ''https'', uri_address = (None :: unit option), resolve_attempted = False\<rparr>"
proof -
  let ?u = "\<lparr>host_and_port = ''[::1]:443'', host_without_port = ''[::1]'', uri_path = ''/x'', uri_port = 443,
          uri_scheme = ''https'', uri_address = (None :: unit option), resolve_attempted = False\<rparr>"
  have parsed: "mk_UriImpl sample_lib ''https://[::1]/x'' ''http'' = Inr ?u"
    by (simp add: mk_UriImpl_def sample_lib_def split_uri_def findPortSeparator_def str_find_def default_port_def
          UriImpl_isValid_def lower_char_def show_nat.simps digit_char_def char_of_def bit_0)
  have "canonical_uri ?u = ''https://[::1]:443/x''" by (simp add: canonical_uri_def)
  then show ?thesis
    using parsed uri_normal_form [OF sample_lib_absl sample_lib_uri parsed, of "''grpc''"] by simp
qed

subsection \<open>Resolution and counters\<close>

text \<open>
  C0: DNS resolution happens once. Whatever the first call gave, a second call (with any resolver and
  family) does not consult the resolver: it returns the address the first one stored, which is the
  first result when that succeeded and no address at all, without an exception, when it failed. An
  address that is returned matches the requested family.
\<close>

theorem resolve_once:
  assumes "UriImpl_resolve lib dns family u = (r, u')" "\<not> resolve_attempted u" "uri_address u = None"
  shows "UriImpl_resolve lib dns' family' u' = (Inr (uri_address u'), u') \<and>
         (r = Inr (uri_address u') \<and> uri_address u' \<noteq> None \<or>
          r = Inl (UriException ''Could not determine address'') \<and> uri_address u' = None) \<and>
         (\<forall>a. uri_address u' = Some a \<longrightarrow>
            (family = V6Only \<longrightarrow> is_v6 dns a) \<and> (family = V4Only \<longrightarrow> is_v4 dns a))"
proof -
  have att: "resolve_attempted u'"
    and res: "r = Inr (uri_address u') \<and> uri_address u' \<noteq> None \<or>
      r = Inl (UriException ''Could not determine address'') \<and> uri_address u' = None"
    using assms
    by (auto simp: UriImpl_resolve_def performDnsLookup_def Let_def split: if_splits prod.splits bool.splits list.splits)
  moreover have "(family = V6Only \<longrightarrow> is_v6 dns a) \<and> (family = V4Only \<longrightarrow> is_v4 dns a)"
    if "uri_address u' = Some a" for a
    using assms that
    by (auto simp: UriImpl_resolve_def Let_def split: if_splits prod.splits option.splits)
  ultimately show ?thesis by (simp add: UriImpl_resolve_def)
qed

text \<open>The sum of the values of a counter map.\<close>

definition map_total :: "(string \<rightharpoonup> 64 word) \<Rightarrow> 64 word" where
  "map_total m = (\<Sum>k \<in> dom m. the (m k))"

lemma map_total_upd:
  assumes "finite (dom m)"
  shows "map_total (m(k \<mapsto> (case m k of Some v \<Rightarrow> v | None \<Rightarrow> 0) + x)) = map_total m + x"
proof -
  let ?m = "m(k \<mapsto> (case m k of Some v \<Rightarrow> v | None \<Rightarrow> 0) + x)"
  have "map_total ?m = the (?m k) + (\<Sum>j \<in> dom m - {k}. the (?m j))"
    using assms by (simp add: map_total_def sum.insert_remove)
  also have "(\<Sum>j \<in> dom m - {k}. the (?m j)) = (\<Sum>j \<in> dom m - {k}. the (m j))"
    by (rule sum.cong) auto
  finally have upd: "map_total ?m = the (?m k) + (\<Sum>j \<in> dom m - {k}. the (m j))" .
  have old: "map_total m = (case m k of Some v \<Rightarrow> v | None \<Rightarrow> 0) + (\<Sum>j \<in> dom m - {k}. the (m j))"
    using assms by (cases "m k") (auto simp: map_total_def sum.remove [of "dom m" k] domIff)
  show ?thesis unfolding upd old by simp
qed

text \<open>
  C0: Collecting the counters of a store loses no count: after stripping prefixes and merging equal
  names, the values in the map add up (modulo \<open>2^64\<close>, as the counters do) to the values of the counters
  the filter kept.
\<close>

theorem mapCounters_total:
  assumes "mapCountersFromStore lib keep counters m = Inr m'" "finite (dom m)"
  shows "finite (dom m') \<and> map_total m' = map_total m + sum_list (map snd (filter (\<lambda>(n, v). keep n v) counters))"
  using assms
proof (induction lib keep counters m rule: mapCountersFromStore.induct)
  case (2 lib keep n v rest results)
  show ?case
  proof (cases "keep n v")
    case True
    then obtain sn where sn: "strip_stat_prefix lib n = Inr sn"
      using "2.prems"(1) by (cases "strip_stat_prefix lib n") auto
    let ?m = "results(sn \<mapsto> (case results sn of Some v \<Rightarrow> v | None \<Rightarrow> 0) + v)"
    have "mapCountersFromStore lib keep rest ?m = Inr m'" "finite (dom ?m)"
      using "2.prems" True sn by simp_all
    then have "finite (dom m') \<and> map_total m' =
        map_total ?m + sum_list (map snd (filter (\<lambda>(n, v). keep n v) rest))"
      by (rule "2.IH"(1) [OF True])
    then show ?thesis unfolding map_total_upd [OF "2.prems"(2)] using True by simp
  qed (use 2 in auto)
qed auto

end
