(* ===== verification/Options.thy ===== *)
theory Options
  imports UriUtil
begin

text \<open>
  The options of a run, \<^verbatim>\<open>source/client/options_impl.{h,cc}\<close>: the option values with their defaults, the
  message \<^verbatim>\<open>CommandLineOptions\<close> of \<^verbatim>\<open>api/client/options.proto\<close>, both constructors (from parsed command line
  arguments and from the message), validation, and the conversion back to the message.

  A message of another project (TLS contexts, plugin configurations, sinks) is represented by its
  serialized bytes: the empty message is the empty string and merging into an empty message copies.
  The generated validator of the message is the parameter \<open>validateOptions\<close>.
\<close>

subsection \<open>Data\<close>

type_synonym message = string

datatype ProtocolOptions = HTTP1 | HTTP2 | HTTP3
datatype EnvoyProtocol = Http11 | Http2 | Http3
datatype VerbosityOptions = VERBOSITY_DEFAULT | INFO | TRACE | DEBUG | WARN | ERROR | CRITICAL
datatype OutputFormatOptions = FORMAT_DEFAULT | JSON | HUMAN | YAML | DOTTED | FORTIO
  | EXPERIMENTAL_FORTIO_PEDANTIC | CSV | PROMETHEUS
datatype GrpcModeOptions = GRPC_NONE | UNARY | BIDI_STREAM
datatype SequencerIdleStrategyOptions = IDLE_DEFAULT | SPIN | POLL | SLEEP | WAIT
datatype H1ConnectionReuseStrategyOptions = REUSE_DEFAULT | MRU | LRU
datatype RequestMethod = METHOD_UNSPECIFIED | GET | HEAD | POST | PUT | DELETE | CONNECT | OPTIONS | TRACE_METHOD | PATCH

record Endpoint =
  ep_address :: "string option"
  ep_port :: "nat option"

type_synonym TerminationPredicateMap = "string \<rightharpoonup> nat"

definition largest_acceptable_uint32_option_value :: nat where
  "largest_acceptable_uint32_option_value = 4294967295 - 30000"

definition largest_acceptable_concurrent_streams_value :: nat where
  "largest_acceptable_concurrent_streams_value = 2147483647"

record OptionsImpl =
  o_requests_per_second :: nat
  o_connections :: nat
  o_duration :: nat
  o_timeout :: nat
  o_uri :: "string option"
  o_h2 :: bool
  o_protocol :: ProtocolOptions
  o_http3_protocol_options :: "message option"
  o_concurrency :: string
  o_tunnel_protocol :: ProtocolOptions
  o_tunnel_uri :: string
  o_encap_port :: nat
  o_tunnel_tls_context :: "message option"
  o_verbosity :: VerbosityOptions
  o_output_format :: OutputFormatOptions
  o_prefetch_connections :: bool
  o_burst_size :: nat
  o_address_family :: AddressFamilyOptions
  o_request_method :: RequestMethod
  o_request_headers :: "string list"
  o_request_body_size :: nat
  o_request_body :: string
  o_grpc_mode :: GrpcModeOptions
  o_websocket :: bool
  o_websocket_binary :: bool
  o_tcp :: bool
  o_tcp_connections :: nat
  o_tcp_max_inflight :: nat
  o_tcp_expect_echo :: bool
  o_tcp_max_messages :: nat
  o_udp :: bool
  o_udp_max_inflight :: nat
  o_udp_timeout :: nanos
  o_streams :: nat
  o_max_inflight_per_stream :: nat
  o_stream_drain_duration :: nanos
  o_tls_context :: message
  o_upstream_bind_config :: "message option"
  o_transport_socket :: "message option"
  o_request_source_plugin_config :: "message option"
  o_rate_limiter_plugin_config :: "message option"
  o_max_pending_requests :: nat
  o_max_active_requests :: nat
  o_max_requests_per_connection :: nat
  o_max_concurrent_streams :: nat
  o_sequencer_idle_strategy :: SequencerIdleStrategyOptions
  o_request_source :: string
  o_trace :: string
  o_h1_connection_reuse_strategy :: H1ConnectionReuseStrategyOptions
  o_termination_predicates :: TerminationPredicateMap
  o_failure_predicates :: TerminationPredicateMap
  o_no_default_failure_predicates :: bool
  o_open_loop :: bool
  o_jitter_uniform :: nanos
  o_nighthawk_service :: string
  o_h2_use_multiple_connections :: bool
  o_multi_target_endpoints :: "Endpoint list"
  o_multi_target_path :: string
  o_multi_target_use_https :: bool
  o_labels :: "string list"
  o_simple_warmup :: bool
  o_no_duration :: bool
  o_stats_sinks :: "message list"
  o_stats_flush_interval :: nat
  o_stats_flush_interval_duration :: Duration
  o_latency_response_header_name :: string
  o_scheduled_start :: "nanos option"
  o_execution_id :: "string option"
  o_user_defined_output_plugin_configs :: "message list"

text \<open>
  The member initialisers, with \<open>setNonTrivialDefaults\<close> applied as both constructors do first.
\<close>

definition zero_duration :: Duration where
  "zero_duration = \<lparr>dur_seconds = 0, dur_nanos = 0\<rparr>"

definition default_failure_predicates :: TerminationPredicateMap where
  "default_failure_predicates =
     [''benchmark.http_4xx'' \<mapsto> 0, ''benchmark.http_5xx'' \<mapsto> 0, ''benchmark.pool_connection_failure'' \<mapsto> 0,
      ''benchmark.stream_resets'' \<mapsto> 0, ''requestsource.upstream_rq_5xx'' \<mapsto> 0]"

definition OptionsImpl_members :: OptionsImpl where
  "OptionsImpl_members =
     \<lparr>o_requests_per_second = 5, o_connections = 100, o_duration = 5, o_timeout = 30, o_uri = None,
      o_h2 = False, o_protocol = HTTP1, o_http3_protocol_options = None, o_concurrency = [],
      o_tunnel_protocol = HTTP1, o_tunnel_uri = [], o_encap_port = 0, o_tunnel_tls_context = None,
      o_verbosity = WARN, o_output_format = JSON, o_prefetch_connections = False, o_burst_size = 0,
      o_address_family = AF_AUTO, o_request_method = GET, o_request_headers = [], o_request_body_size = 0,
      o_request_body = [], o_grpc_mode = GRPC_NONE, o_websocket = False, o_websocket_binary = False,
      o_tcp = False, o_tcp_connections = 1, o_tcp_max_inflight = 256, o_tcp_expect_echo = True,
      o_tcp_max_messages = 0, o_udp = False, o_udp_max_inflight = 256, o_udp_timeout = one_second,
      o_streams = 20, o_max_inflight_per_stream = 256, o_stream_drain_duration = 500 * one_millisecond,
      o_tls_context = [], o_upstream_bind_config = None, o_transport_socket = None,
      o_request_source_plugin_config = None, o_rate_limiter_plugin_config = None,
      o_max_pending_requests = 0, o_max_active_requests = 100,
      o_max_requests_per_connection = largest_acceptable_uint32_option_value,
      o_max_concurrent_streams = largest_acceptable_concurrent_streams_value,
      o_sequencer_idle_strategy = SPIN, o_request_source = [], o_trace = [],
      o_h1_connection_reuse_strategy = MRU, o_termination_predicates = Map.empty,
      o_failure_predicates = Map.empty, o_no_default_failure_predicates = False, o_open_loop = False,
      o_jitter_uniform = 0, o_nighthawk_service = [], o_h2_use_multiple_connections = False,
      o_multi_target_endpoints = [], o_multi_target_path = [], o_multi_target_use_https = False,
      o_labels = [], o_simple_warmup = False, o_no_duration = False, o_stats_sinks = [],
      o_stats_flush_interval = 5, o_stats_flush_interval_duration = zero_duration,
      o_latency_response_header_name = [], o_scheduled_start = None, o_execution_id = None,
      o_user_defined_output_plugin_configs = []\<rparr>"

definition setNonTrivialDefaults :: "OptionsImpl \<Rightarrow> OptionsImpl" where
  "setNonTrivialDefaults opt =
     opt\<lparr>o_concurrency := ''1'', o_failure_predicates := o_failure_predicates opt ++ default_failure_predicates,
       o_jitter_uniform := 0\<rparr>"

definition grpcEnabled :: "OptionsImpl \<Rightarrow> bool" where
  "grpcEnabled opt = (o_grpc_mode opt \<noteq> GRPC_NONE)"

definition grpcStreamEnabled :: "OptionsImpl \<Rightarrow> bool" where
  "grpcStreamEnabled opt = (o_grpc_mode opt = BIDI_STREAM)"

definition streamModeEnabled :: "OptionsImpl \<Rightarrow> bool" where
  "streamModeEnabled opt = (grpcStreamEnabled opt \<or> o_websocket opt)"

definition OptionsImpl_protocol :: "OptionsImpl \<Rightarrow> EnvoyProtocol" where
  "OptionsImpl_protocol opt =
     (if o_h2 opt \<or> o_protocol opt = HTTP2 then Http2 else if o_protocol opt = HTTP3 then Http3 else Http11)"

definition tunnelProtocol :: "OptionsImpl \<Rightarrow> EnvoyProtocol" where
  "tunnelProtocol opt =
     (if o_tunnel_protocol opt = HTTP2 then Http2 else if o_tunnel_protocol opt = HTTP3 then Http3 else Http11)"

definition isTcpUri :: "'z third_party_scheme \<Rightarrow> string \<Rightarrow> bool" where
  "isTcpUri lib uri =
     (StartsWith lib (AsciiStrToLower lib uri) ''tcp://'' \<or> StartsWith lib (AsciiStrToLower lib uri) ''tcps://'')"

definition isUdpUri :: "'z third_party_scheme \<Rightarrow> string \<Rightarrow> bool" where
  "isUdpUri lib uri = StartsWith lib (AsciiStrToLower lib uri) ''udp://''"

text \<open>
  The number of workers a \<open>concurrency\<close> string asks for; a string \<open>std::stoi\<close> refuses counts as \<open>fallback\<close>.
\<close>

definition parse_concurrency :: "int \<Rightarrow> string \<Rightarrow> int" where
  "parse_concurrency fallback s =
     (if s = ''auto'' then fallback else case stoi s of StoiOk v \<Rightarrow> v | _ \<Rightarrow> fallback)"

definition raisePendingRequestsForStreams :: "OptionsImpl \<Rightarrow> OptionsImpl" where
  "raisePendingRequestsForStreams opt =
     (if \<not> streamModeEnabled opt then opt
      else
        let parsed_concurrency = nat (max 1 (parse_concurrency 1 (o_concurrency opt)));
            streams_per_worker = max 1 (o_streams opt div parsed_concurrency)
        in if o_max_pending_requests opt < streams_per_worker
           then opt\<lparr>o_max_pending_requests := streams_per_worker\<rparr> else opt)"

subsection \<open>Refusals\<close>

text \<open>A sequence of guarded \<open>throw MalformedArgvException\<close> statements: the first that applies throws.\<close>

fun throw_first :: "(bool \<times> string) list \<Rightarrow> unit result" where
  "throw_first [] = Inr ()"
| "throw_first ((c, m) # rest) = (if c then Inl (MalformedArgvException m) else throw_first rest)"

lemma throw_first_ok: "throw_first cs = Inr () \<longleftrightarrow> (\<forall>(c, m) \<in> set cs. \<not> c)"
  by (induction cs rule: throw_first.induct) auto

lemma throw_first_cases: "throw_first cs = Inr () \<or> (\<exists>m. throw_first cs = Inl (MalformedArgvException m))"
  by (induction cs rule: throw_first.induct) auto

lemma throw_first_append [simp]:
  "throw_first (xs @ ys) = result_bind (throw_first xs) (\<lambda>_. throw_first ys)"
  by (induction xs rule: throw_first.induct) auto

lemma result_bind_unit_Inr: "result_bind r (\<lambda>_. k) = Inr x \<longleftrightarrow> (\<exists>y. r = Inr y) \<and> k = Inr x"
  by (cases r) auto

end
