(* ===== verification/OptionsProto.thy ===== *)
theory OptionsProto
  imports Options
begin

text \<open>
  The options as the message \<^verbatim>\<open>CommandLineOptions\<close> of \<^verbatim>\<open>api/client/options.proto\<close>: serialisation, validation
  and the constructor from the message. A wrapper field is an option, a \<open>oneof\<close> a datatype.
\<close>

subsection \<open>The message\<close>

record GrpcStreamOptions =
  gs_streams :: "nat option"
  gs_max_inflight_per_stream :: "nat option"
  gs_drain_duration :: "Duration option"

record WebSocketOptions =
  ws_streams :: "nat option"
  ws_max_inflight_per_stream :: "nat option"
  ws_drain_duration :: "Duration option"
  ws_binary :: "bool option"

record TcpOptions =
  tcp_connections :: "nat option"
  tcp_max_inflight_per_connection :: "nat option"
  tcp_expect_echo :: "bool option"
  tcp_drain_duration :: "Duration option"
  tcp_max_messages_per_connection :: "nat option"

record UdpOptions =
  udp_max_inflight :: "nat option"
  udp_timeout :: "Duration option"

record TunnelOptions =
  tun_uri :: string
  tun_protocol :: "ProtocolOptions option"
  tun_tls_context :: message

record RequestOptions =
  ro_request_method :: RequestMethod
  ro_request_headers :: "(string \<times> string) list"
  ro_request_body_size :: "nat option"
  ro_request_body :: string

record MultiTarget =
  mt_use_https :: "bool option"
  mt_endpoints :: "Endpoint list"
  mt_path :: "string option"

datatype oneof_duration_options = Duration_set Duration | NoDuration_set bool
datatype oneof_protocol = H2_set bool | Protocol_set ProtocolOptions
datatype oneof_request_options = RequestOptions_set RequestOptions | RequestSource_set string
  | RequestSourcePlugin_set message
datatype oneof_uri = Uri_set string | MultiTarget_set MultiTarget
datatype oneof_stats_flush_interval = FlushInterval_set nat | FlushIntervalDuration_set Duration

record CommandLineOptions =
  p_requests_per_second :: "nat option"
  p_connections :: "nat option"
  p_duration_options :: "oneof_duration_options option"
  p_timeout :: "Duration option"
  p_protocol :: "oneof_protocol option"
  p_tunnel_options :: "TunnelOptions option"
  p_grpc_mode :: "GrpcModeOptions option"
  p_grpc_stream :: "GrpcStreamOptions option"
  p_websocket :: "WebSocketOptions option"
  p_tcp :: "TcpOptions option"
  p_udp :: "UdpOptions option"
  p_http3_protocol_options :: "message option"
  p_concurrency :: "string option"
  p_verbosity :: "VerbosityOptions option"
  p_output_format :: "OutputFormatOptions option"
  p_prefetch_connections :: "bool option"
  p_burst_size :: "nat option"
  p_address_family :: "AddressFamilyOptions option"
  p_request_options :: "oneof_request_options option"
  p_tls_context :: message
  p_max_pending_requests :: "nat option"
  p_max_active_requests :: "nat option"
  p_max_requests_per_connection :: "nat option"
  p_sequencer_idle_strategy :: "SequencerIdleStrategyOptions option"
  p_uri :: "oneof_uri option"
  p_trace :: "string option"
  p_h1_connection_reuse_strategy :: "H1ConnectionReuseStrategyOptions option"
  p_termination_predicates :: TerminationPredicateMap
  p_failure_predicates :: TerminationPredicateMap
  p_no_default_failure_predicates :: "bool option"
  p_open_loop :: "bool option"
  p_jitter_uniform :: "Duration option"
  p_nighthawk_service :: "string option"
  p_h2_use_multiple_connections :: "bool option"
  p_max_concurrent_streams :: "nat option"
  p_labels :: "string list"
  p_upstream_bind_config :: "message option"
  p_transport_socket :: "message option"
  p_simple_warmup :: "bool option"
  p_stats_sinks :: "message list"
  p_stats_flush_interval :: "oneof_stats_flush_interval option"
  p_latency_response_header_name :: "string option"
  p_scheduled_start :: "Duration option"
  p_execution_id :: "string option"
  p_user_defined_plugin_configs :: "message list"
  p_rate_limiter_plugin_config :: "message option"

text \<open>
  The third-party routines together with the generated validator (\<open>Some\<close> is its complaint) and the
  operating system's answers: a free port and the contents of a file.
\<close>

datatype file_read = NotOpened | ReadError | Contents string

record options_lib = third_party +
  validateOptions :: "CommandLineOptions \<Rightarrow> string option"
  GetAvailablePort :: "bool \<Rightarrow> AddressFamilyOptions \<Rightarrow> nat result"
  read_file :: "string \<Rightarrow> file_read"

text \<open>\<open>PROTOBUF_GET_WRAPPED_OR_DEFAULT\<close>.\<close>

definition get_or :: "'a option \<Rightarrow> 'a \<Rightarrow> 'a" where
  "get_or x d = (case x of Some v \<Rightarrow> v | None \<Rightarrow> d)"

lemma get_or_simps [simp]: "get_or (Some v) d = v" "get_or None d = d"
  by (simp_all add: get_or_def)

subsection \<open>To the message\<close>

text \<open>A header is split at the first colon behind its first character, so that \<open>:authority: x\<close> works.\<close>

definition split_header :: "'z third_party_scheme \<Rightarrow> string \<Rightarrow> (string \<times> string) result" where
  "split_header lib header =
     (case (if header = [] then None else str_find CHR '':'' (Some 1) header) of
        Some pos \<Rightarrow> Inr (StripAsciiWhitespace lib (take pos header), StripAsciiWhitespace lib (drop (pos + 1) header))
      | None \<Rightarrow> Inl (MalformedArgvException ''A ':' is required in a header.''))"

fun split_headers :: "'z third_party_scheme \<Rightarrow> string list \<Rightarrow> (string \<times> string) list result" where
  "split_headers lib [] = Inr []"
| "split_headers lib (h # hs) =
     result_bind (split_header lib h) (\<lambda>kv. result_bind (split_headers lib hs) (\<lambda>kvs. Inr (kv # kvs)))"

definition request_options_of :: "'z third_party_scheme \<Rightarrow> OptionsImpl \<Rightarrow> oneof_request_options result" where
  "request_options_of lib opt =
     (if o_request_source opt \<noteq> [] then Inr (RequestSource_set (o_request_source opt))
      else case o_request_source_plugin_config opt of
        Some c \<Rightarrow> Inr (RequestSourcePlugin_set c)
      | None \<Rightarrow> result_bind (split_headers lib (o_request_headers opt)) (\<lambda>headers.
          Inr (RequestOptions_set
            \<lparr>ro_request_method = o_request_method opt, ro_request_headers = headers,
             ro_request_body_size = Some (o_request_body_size opt), ro_request_body = o_request_body opt\<rparr>)))"

definition uri_of :: "OptionsImpl \<Rightarrow> oneof_uri" where
  "uri_of opt = (case o_uri opt of
     Some u \<Rightarrow> Uri_set u
   | None \<Rightarrow> MultiTarget_set
       \<lparr>mt_use_https = Some (o_multi_target_use_https opt),
        mt_endpoints = map (\<lambda>e. \<lparr>ep_address = Some (get_or (ep_address e) []), ep_port = Some (get_or (ep_port e) 0)\<rparr>)
                         (o_multi_target_endpoints opt),
        mt_path = Some (o_multi_target_path opt)\<rparr>)"

definition grpc_stream_of :: "'z third_party_scheme \<Rightarrow> OptionsImpl \<Rightarrow> GrpcStreamOptions option" where
  "grpc_stream_of lib opt = (if grpcStreamEnabled opt then Some
     \<lparr>gs_streams = Some (o_streams opt), gs_max_inflight_per_stream = Some (o_max_inflight_per_stream opt),
      gs_drain_duration = Some (NanosecondsToDuration lib (o_stream_drain_duration opt))\<rparr> else None)"

definition udp_of :: "'z third_party_scheme \<Rightarrow> OptionsImpl \<Rightarrow> UdpOptions option" where
  "udp_of lib opt = (if o_udp opt then Some
     \<lparr>udp_max_inflight = Some (o_udp_max_inflight opt),
      udp_timeout = Some (NanosecondsToDuration lib (o_udp_timeout opt))\<rparr> else None)"

definition tcp_of :: "'z third_party_scheme \<Rightarrow> OptionsImpl \<Rightarrow> TcpOptions option" where
  "tcp_of lib opt = (if o_tcp opt then Some
     \<lparr>tcp_connections = Some (o_tcp_connections opt), tcp_max_inflight_per_connection = Some (o_tcp_max_inflight opt),
      tcp_expect_echo = Some (o_tcp_expect_echo opt),
      tcp_drain_duration = Some (NanosecondsToDuration lib (o_stream_drain_duration opt)),
      tcp_max_messages_per_connection = Some (o_tcp_max_messages opt)\<rparr> else None)"

definition websocket_of :: "'z third_party_scheme \<Rightarrow> OptionsImpl \<Rightarrow> WebSocketOptions option" where
  "websocket_of lib opt = (if o_websocket opt then Some
     \<lparr>ws_streams = Some (o_streams opt), ws_max_inflight_per_stream = Some (o_max_inflight_per_stream opt),
      ws_drain_duration = Some (NanosecondsToDuration lib (o_stream_drain_duration opt)),
      ws_binary = Some (o_websocket_binary opt)\<rparr> else None)"

definition flush_interval_of :: "OptionsImpl \<Rightarrow> oneof_stats_flush_interval" where
  "flush_interval_of opt =
     (let d = o_stats_flush_interval_duration opt in
      if dur_seconds d > 0 \<or> dur_nanos d > 0 then FlushIntervalDuration_set d
      else FlushInterval_set (o_stats_flush_interval opt))"

definition message_of :: "'z third_party_scheme \<Rightarrow> OptionsImpl \<Rightarrow> oneof_request_options \<Rightarrow> CommandLineOptions" where
  "message_of lib opt request_options =
     \<lparr>p_requests_per_second = Some (o_requests_per_second opt),
      p_connections = Some (o_connections opt),
      p_duration_options = Some (if o_no_duration opt then NoDuration_set True
                                 else Duration_set \<lparr>dur_seconds = int (o_duration opt), dur_nanos = 0\<rparr>),
      p_timeout = Some \<lparr>dur_seconds = int (o_timeout opt), dur_nanos = 0\<rparr>,
      p_protocol = Some (if o_h2 opt then H2_set True else Protocol_set (o_protocol opt)),
      p_tunnel_options = None,
      p_grpc_mode = (if grpcEnabled opt then Some (o_grpc_mode opt) else None),
      p_grpc_stream = grpc_stream_of lib opt,
      p_websocket = websocket_of lib opt,
      p_tcp = tcp_of lib opt,
      p_udp = udp_of lib opt,
      p_http3_protocol_options = o_http3_protocol_options opt,
      p_concurrency = Some (o_concurrency opt),
      p_verbosity = Some (o_verbosity opt),
      p_output_format = Some (o_output_format opt),
      p_prefetch_connections = Some (o_prefetch_connections opt),
      p_burst_size = Some (o_burst_size opt),
      p_address_family = Some (o_address_family opt),
      p_request_options = Some request_options,
      p_tls_context = o_tls_context opt,
      p_max_pending_requests = Some (o_max_pending_requests opt),
      p_max_active_requests = Some (o_max_active_requests opt),
      p_max_requests_per_connection = Some (o_max_requests_per_connection opt),
      p_sequencer_idle_strategy = Some (o_sequencer_idle_strategy opt),
      p_uri = Some (uri_of opt),
      p_trace = Some (o_trace opt),
      p_h1_connection_reuse_strategy = Some (o_h1_connection_reuse_strategy opt),
      p_termination_predicates = o_termination_predicates opt,
      p_failure_predicates = o_failure_predicates opt,
      p_no_default_failure_predicates = Some (o_no_default_failure_predicates opt),
      p_open_loop = Some (o_open_loop opt),
      p_jitter_uniform = (if o_jitter_uniform opt > 0 then Some (NanosecondsToDuration lib (o_jitter_uniform opt)) else None),
      p_nighthawk_service = Some (o_nighthawk_service opt),
      p_h2_use_multiple_connections = None,
      p_max_concurrent_streams = Some (o_max_concurrent_streams opt),
      p_labels = o_labels opt,
      p_upstream_bind_config = o_upstream_bind_config opt,
      p_transport_socket = o_transport_socket opt,
      p_simple_warmup = Some (o_simple_warmup opt),
      p_stats_sinks = o_stats_sinks opt,
      p_stats_flush_interval = Some (flush_interval_of opt),
      p_latency_response_header_name = Some (o_latency_response_header_name opt),
      p_scheduled_start = map_option (NanosecondsToTimestamp lib) (o_scheduled_start opt),
      p_execution_id = o_execution_id opt,
      p_user_defined_plugin_configs = o_user_defined_output_plugin_configs opt,
      p_rate_limiter_plugin_config = o_rate_limiter_plugin_config opt\<rparr>"

definition toCommandLineOptions :: "'z third_party_scheme \<Rightarrow> OptionsImpl \<Rightarrow> CommandLineOptions result" where
  "toCommandLineOptions lib opt =
     result_bind (request_options_of lib opt) (\<lambda>request_options. Inr (message_of lib opt request_options))"

subsection \<open>Validation\<close>

text \<open>
  \<open>OptionsImpl::validate\<close>, its guarded throws in order, cut into the groups of the source. The texts of
  the exceptions leave out format arguments and explanations.
\<close>

definition validate_modes :: "OptionsImpl \<Rightarrow> (bool \<times> string) list" where
  "validate_modes opt =
     [(o_request_body opt \<noteq> [] \<and> o_request_body_size opt > 0,
        ''--request-body-file and --request-body-size are mutually exclusive''),
      (grpcEnabled opt \<and> \<not> o_h2 opt \<and> o_protocol opt \<noteq> HTTP2, ''--grpc-mode requires --protocol http2''),
      (grpcEnabled opt \<and> o_request_method opt \<noteq> POST, ''--grpc-mode requires --request-method POST''),
      (grpcEnabled opt \<and> o_request_source opt \<noteq> [], ''--grpc-mode is not supported together with --request-source''),
      (o_websocket opt \<and> grpcEnabled opt, ''--websocket and --grpc-mode are mutually exclusive''),
      (o_websocket opt \<and> o_protocol opt \<noteq> HTTP1, ''--websocket requires HTTP/1.1''),
      (o_websocket opt \<and> o_request_method opt \<noteq> GET, ''--websocket requires --request-method GET'')]"

definition validate_streams :: "OptionsImpl \<Rightarrow> (bool \<times> string) list" where
  "validate_streams opt =
     (if streamModeEnabled opt then
        let parsed_concurrency = parse_concurrency 0 (o_concurrency opt);
            workers = nat (max parsed_concurrency 1)
        in [(parsed_concurrency \<le> 0, ''requires a numeric --concurrency''),
            (o_websocket opt \<and> o_streams opt div workers > o_connections opt,
               ''--websocket: every stream is a connection, so --connections must be at least the streams per worker''),
            (o_streams opt = 0 \<or> o_streams opt mod workers \<noteq> 0, ''--streams must be a positive multiple of --concurrency''),
            (o_requests_per_second opt mod workers \<noteq> 0, ''--rps must be a multiple of --concurrency''),
            (o_max_inflight_per_stream opt = 0, ''--max-inflight-per-stream must be greater than 0''),
            (o_streams opt div workers > o_max_active_requests opt,
               ''--max-active-requests must be at least the number of streams per worker''),
            (o_request_source_plugin_config opt \<noteq> None, ''is not supported together with --request-source-plugin-config''),
            (o_user_defined_output_plugin_configs opt \<noteq> [], ''is not supported together with --user-defined-plugin-config''),
            (o_simple_warmup opt, ''is not supported together with --simple-warmup'')]
      else [])"

definition validate_concurrency :: "OptionsImpl \<Rightarrow> (bool \<times> string) list" where
  "validate_concurrency opt =
     [(o_h2_use_multiple_connections opt, ''The experimental_h2_use_multiple_connections option is deprecated''),
      (o_concurrency opt \<noteq> ''auto'' \<and> stoi (o_concurrency opt) = StoiInvalid, ''Invalid value for --concurrency''),
      (o_concurrency opt \<noteq> ''auto'' \<and> stoi (o_concurrency opt) = StoiOutOfRange, ''Value out of range: --concurrency''),
      (o_concurrency opt \<noteq> ''auto'' \<and> (case stoi (o_concurrency opt) of StoiOk v \<Rightarrow> v \<le> 0 | _ \<Rightarrow> False),
         ''Value for --concurrency should be greater then 0.'')]"

definition validate_request_source :: "'z third_party_scheme \<Rightarrow> OptionsImpl \<Rightarrow> (bool \<times> string) list" where
  "validate_request_source lib opt =
     [(o_request_source opt \<noteq> [] \<and>
         (case (mk_UriImpl lib (o_request_source opt) ''grpc'' :: unit UriImpl result) of
            Inl _ \<Rightarrow> True | Inr u \<Rightarrow> uri_scheme u \<noteq> ''grpc''), ''Invalid replay source URI'')]"

definition no_plain_request :: "OptionsImpl \<Rightarrow> bool" where
  "no_plain_request opt \<longleftrightarrow> o_request_source opt \<noteq> [] \<or> o_request_source_plugin_config opt \<noteq> None \<or>
     o_user_defined_output_plugin_configs opt \<noteq> [] \<or> o_simple_warmup opt"

definition validate_udp :: "OptionsImpl \<Rightarrow> (bool \<times> string) list" where
  "validate_udp opt =
     [(o_udp opt \<and> (grpcEnabled opt \<or> o_websocket opt), ''a udp:// URI cannot be combined with --grpc-mode or --websocket''),
      (o_udp opt \<and> (o_request_headers opt \<noteq> [] \<or> o_request_method opt \<noteq> GET), ''a udp:// URI takes no --request-header or --request-method''),
      (o_udp opt \<and> o_request_body opt = [] \<and> o_request_body_size opt = 0, ''a udp:// URI needs a --request-body-file or --request-body-size''),
      (o_udp opt \<and> (o_transport_socket opt \<noteq> None \<or> o_tls_context opt \<noteq> []), ''a udp:// URI takes no --transport-socket or --tls-context''),
      (o_udp opt \<and> (o_udp_max_inflight opt = 0 \<or> o_udp_timeout opt \<le> 0), ''--udp-max-inflight and --udp-timeout must be positive''),
      (o_udp opt \<and> no_plain_request opt, ''a udp:// URI is not supported together with a request source'')]"

definition validate_tcp :: "OptionsImpl \<Rightarrow> (bool \<times> string) list" where
  "validate_tcp opt =
     [(o_tcp opt \<and> (grpcEnabled opt \<or> o_websocket opt), ''a tcp:// URI cannot be combined with --grpc-mode or --websocket''),
      (o_tcp opt \<and> (o_request_headers opt \<noteq> [] \<or> o_request_method opt \<noteq> GET), ''a tcp:// URI takes no --request-header or --request-method''),
      (o_tcp opt \<and> o_tcp_expect_echo opt \<and> o_request_body opt = [] \<and> o_request_body_size opt = 0, ''a tcp:// URI needs a --request-body-file or --request-body-size''),
      (o_tcp opt \<and> (o_tcp_connections opt = 0 \<or> o_tcp_max_inflight opt = 0), ''--tcp-connections and --tcp-max-inflight-per-connection must be greater than 0''),
      (o_tcp opt \<and> no_plain_request opt, ''a tcp:// URI is not supported together with a request source'')]"

definition validate_target :: "'z third_party_scheme \<Rightarrow> OptionsImpl \<Rightarrow> (bool \<times> string) list" where
  "validate_target lib opt =
     (case o_uri opt of
        Some u \<Rightarrow>
          ((case (mk_UriImpl lib u ''http'' :: unit UriImpl result) of Inl _ \<Rightarrow> True | Inr _ \<Rightarrow> False), ''Invalid target URI: '')
          # validate_udp opt @ validate_tcp opt @
          [(o_multi_target_endpoints opt \<noteq> [] \<or> o_multi_target_path opt \<noteq> [] \<or> o_multi_target_use_https opt,
             ''URI and --multi-target-* options cannot both be specified.'')]
      | None \<Rightarrow>
          [(o_multi_target_endpoints opt = [], ''A URI or --multi-target-* options must be specified.''),
           (o_multi_target_path opt = [], ''--multi-target-path must be specified.'')])"

definition validate :: "'z options_lib_scheme \<Rightarrow> OptionsImpl \<Rightarrow> unit result" where
  "validate lib opt =
     result_bind (throw_first (validate_modes opt @ validate_streams opt @ validate_concurrency opt @
                               validate_request_source lib opt @ validate_target lib opt)) (\<lambda>_.
     result_bind (toCommandLineOptions lib opt) (\<lambda>p.
       case validateOptions lib p of None \<Rightarrow> Inr () | Some e \<Rightarrow> Inl (MalformedArgvException e)))"

subsection \<open>From the message\<close>

text \<open>
  \<open>OptionsImpl::OptionsImpl(const CommandLineOptions&)\<close>. Every member is assigned from the message over
  its default; the members whose value depends on several fields have a definition of their own.
\<close>

definition default_options :: OptionsImpl where
  "default_options = setNonTrivialDefaults OptionsImpl_members"

definition from_msg :: "'m option \<Rightarrow> ('m \<Rightarrow> 'a option) \<Rightarrow> 'a \<Rightarrow> 'a" where
  "from_msg m f d = (case m of None \<Rightarrow> d | Some x \<Rightarrow> get_or (f x) d)"

definition load_nanos :: "'z third_party_scheme \<Rightarrow> Duration option \<Rightarrow> nanos \<Rightarrow> nanos" where
  "load_nanos lib d old = (case d of Some x \<Rightarrow> DurationToNanoseconds lib x | None \<Rightarrow> old)"

definition proto_uri :: "CommandLineOptions \<Rightarrow> string option" where
  "proto_uri p = (case p_uri p of Some (Uri_set u) \<Rightarrow> Some u | _ \<Rightarrow> None)"

definition proto_multi_target :: "CommandLineOptions \<Rightarrow> MultiTarget" where
  "proto_multi_target p = (case p_uri p of Some (MultiTarget_set m) \<Rightarrow> m
     | _ \<Rightarrow> \<lparr>mt_use_https = None, mt_endpoints = [], mt_path = None\<rparr>)"

definition proto_grpc_mode :: "CommandLineOptions \<Rightarrow> GrpcModeOptions" where
  "proto_grpc_mode p = get_or (p_grpc_mode p) GRPC_NONE"

definition proto_protocol :: "CommandLineOptions \<Rightarrow> ProtocolOptions" where
  "proto_protocol p = (case p_protocol p of
     Some (Protocol_set v) \<Rightarrow> v
   | Some (H2_set _) \<Rightarrow> HTTP1
   | None \<Rightarrow> if proto_grpc_mode p \<noteq> GRPC_NONE then HTTP2 else HTTP1)"

text \<open>
  The stream settings are read from the gRPC message, then the TCP message, then the WebSocket
  message; a later one that is present wins.
\<close>

definition proto_streams :: "CommandLineOptions \<Rightarrow> nat" where
  "proto_streams p = from_msg (p_websocket p) ws_streams (from_msg (p_grpc_stream p) gs_streams 20)"

definition proto_max_inflight :: "CommandLineOptions \<Rightarrow> nat" where
  "proto_max_inflight p =
     from_msg (p_websocket p) ws_max_inflight_per_stream (from_msg (p_grpc_stream p) gs_max_inflight_per_stream 256)"

definition proto_drain :: "'z third_party_scheme \<Rightarrow> CommandLineOptions \<Rightarrow> nanos" where
  "proto_drain lib p =
     load_nanos lib (Option.bind (p_websocket p) ws_drain_duration)
    (load_nanos lib (Option.bind (p_tcp p) tcp_drain_duration)
    (load_nanos lib (Option.bind (p_grpc_stream p) gs_drain_duration) (500 * one_millisecond)))"

definition proto_websocket_binary :: "CommandLineOptions \<Rightarrow> bool" where
  "proto_websocket_binary p = (case p_websocket p of Some w \<Rightarrow> get_or (ws_binary w) False | None \<Rightarrow> False)"

definition proto_request :: "CommandLineOptions \<Rightarrow> RequestOptions option" where
  "proto_request p = (case p_request_options p of Some (RequestOptions_set r) \<Rightarrow> Some r | _ \<Rightarrow> None)"

definition proto_request_method :: "CommandLineOptions \<Rightarrow> RequestMethod" where
  "proto_request_method p =
     (let unspecified = (if proto_grpc_mode p \<noteq> GRPC_NONE then POST else GET)
      in case proto_request p of
           Some r \<Rightarrow> if ro_request_method r \<noteq> METHOD_UNSPECIFIED then ro_request_method r else unspecified
         | None \<Rightarrow> unspecified)"

definition proto_request_headers :: "CommandLineOptions \<Rightarrow> string list" where
  "proto_request_headers p = (case proto_request p of
     Some r \<Rightarrow> map (\<lambda>(k, v). k @ '':'' @ v) (ro_request_headers r) | None \<Rightarrow> [])"

definition proto_failure_predicates :: "CommandLineOptions \<Rightarrow> TerminationPredicateMap" where
  "proto_failure_predicates p =
     (if get_or (p_no_default_failure_predicates p) False \<or> p_failure_predicates p \<noteq> Map.empty
      then Map.empty else default_failure_predicates) ++ p_failure_predicates p"

text \<open>\<open>duration_cast<microseconds>\<close> truncates towards zero.\<close>

definition to_micros :: "nanos \<Rightarrow> int" where
  "to_micros n = (if 0 \<le> n then n div 1000 else - ((- n) div 1000))"

definition proto_scheduled_start :: "CommandLineOptions \<Rightarrow> nanos option" where
  "proto_scheduled_start p =
     map_option (\<lambda>t. to_micros (dur_nanos t + dur_seconds t * one_second) * one_microsecond) (p_scheduled_start p)"

definition load_message :: "'z third_party_scheme \<Rightarrow> CommandLineOptions \<Rightarrow> OptionsImpl" where
  "load_message lib p =
     \<lparr>o_requests_per_second = get_or (p_requests_per_second p) (o_requests_per_second default_options),
      o_connections = get_or (p_connections p) (o_connections default_options),
      o_duration = (case p_duration_options p of
         Some (Duration_set d) \<Rightarrow> to_uint32 (dur_seconds d) | _ \<Rightarrow> o_duration default_options),
      o_timeout = (case p_timeout p of Some d \<Rightarrow> to_uint32 (dur_seconds d) | None \<Rightarrow> o_timeout default_options),
      o_uri = proto_uri p,
      o_h2 = (case p_protocol p of Some (H2_set b) \<Rightarrow> b | _ \<Rightarrow> o_h2 default_options),
      o_protocol = proto_protocol p,
      o_http3_protocol_options = p_http3_protocol_options p,
      o_concurrency = get_or (p_concurrency p) (o_concurrency default_options),
      o_tunnel_protocol = o_tunnel_protocol default_options,
      o_tunnel_uri = o_tunnel_uri default_options,
      o_encap_port = o_encap_port default_options,
      o_tunnel_tls_context = o_tunnel_tls_context default_options,
      o_verbosity = get_or (p_verbosity p) (o_verbosity default_options),
      o_output_format = get_or (p_output_format p) (o_output_format default_options),
      o_prefetch_connections = get_or (p_prefetch_connections p) (o_prefetch_connections default_options),
      o_burst_size = get_or (p_burst_size p) (o_burst_size default_options),
      o_address_family = get_or (p_address_family p) (o_address_family default_options),
      o_request_method = proto_request_method p,
      o_request_headers = proto_request_headers p,
      o_request_body_size = from_msg (proto_request p) ro_request_body_size (o_request_body_size default_options),
      o_request_body = (case proto_request p of Some r \<Rightarrow> ro_request_body r | None \<Rightarrow> o_request_body default_options),
      o_grpc_mode = proto_grpc_mode p,
      o_websocket = (p_websocket p \<noteq> None),
      o_websocket_binary = proto_websocket_binary p,
      o_tcp = (case proto_uri p of Some u \<Rightarrow> isTcpUri lib u | None \<Rightarrow> o_tcp default_options),
      o_tcp_connections = from_msg (p_tcp p) tcp_connections (o_tcp_connections default_options),
      o_tcp_max_inflight = from_msg (p_tcp p) tcp_max_inflight_per_connection (o_tcp_max_inflight default_options),
      o_tcp_expect_echo = from_msg (p_tcp p) tcp_expect_echo (o_tcp_expect_echo default_options),
      o_tcp_max_messages = from_msg (p_tcp p) tcp_max_messages_per_connection (o_tcp_max_messages default_options),
      o_udp = (case proto_uri p of Some u \<Rightarrow> isUdpUri lib u | None \<Rightarrow> o_udp default_options),
      o_udp_max_inflight = from_msg (p_udp p) udp_max_inflight (o_udp_max_inflight default_options),
      o_udp_timeout = load_nanos lib (Option.bind (p_udp p) udp_timeout) (o_udp_timeout default_options),
      o_streams = proto_streams p,
      o_max_inflight_per_stream = proto_max_inflight p,
      o_stream_drain_duration = proto_drain lib p,
      o_tls_context = p_tls_context p,
      o_upstream_bind_config = p_upstream_bind_config p,
      o_transport_socket = p_transport_socket p,
      o_request_source_plugin_config = (case p_request_options p of Some (RequestSourcePlugin_set c) \<Rightarrow> Some c | _ \<Rightarrow> None),
      o_rate_limiter_plugin_config = p_rate_limiter_plugin_config p,
      o_max_pending_requests = o_max_pending_requests default_options,
      o_max_active_requests = get_or (p_max_active_requests p) (o_max_active_requests default_options),
      o_max_requests_per_connection = get_or (p_max_requests_per_connection p) (o_max_requests_per_connection default_options),
      o_max_concurrent_streams = get_or (p_max_concurrent_streams p) (o_max_concurrent_streams default_options),
      o_sequencer_idle_strategy = get_or (p_sequencer_idle_strategy p) (o_sequencer_idle_strategy default_options),
      o_request_source = (case p_request_options p of Some (RequestSource_set u) \<Rightarrow> u | _ \<Rightarrow> o_request_source default_options),
      o_trace = get_or (p_trace p) (o_trace default_options),
      o_h1_connection_reuse_strategy = get_or (p_h1_connection_reuse_strategy p) (o_h1_connection_reuse_strategy default_options),
      o_termination_predicates = p_termination_predicates p,
      o_failure_predicates = proto_failure_predicates p,
      o_no_default_failure_predicates = get_or (p_no_default_failure_predicates p) (o_no_default_failure_predicates default_options),
      o_open_loop = get_or (p_open_loop p) (o_open_loop default_options),
      o_jitter_uniform = load_nanos lib (p_jitter_uniform p) (o_jitter_uniform default_options),
      o_nighthawk_service = get_or (p_nighthawk_service p) (o_nighthawk_service default_options),
      o_h2_use_multiple_connections = get_or (p_h2_use_multiple_connections p) (o_h2_use_multiple_connections default_options),
      o_multi_target_endpoints = mt_endpoints (proto_multi_target p),
      o_multi_target_path = get_or (mt_path (proto_multi_target p)) (o_multi_target_path default_options),
      o_multi_target_use_https = get_or (mt_use_https (proto_multi_target p)) (o_multi_target_use_https default_options),
      o_labels = p_labels p,
      o_simple_warmup = get_or (p_simple_warmup p) (o_simple_warmup default_options),
      o_no_duration = (case p_duration_options p of Some (NoDuration_set b) \<Rightarrow> b | _ \<Rightarrow> o_no_duration default_options),
      o_stats_sinks = p_stats_sinks p,
      o_stats_flush_interval = (case p_stats_flush_interval p of
         Some (FlushInterval_set n) \<Rightarrow> n | _ \<Rightarrow> o_stats_flush_interval default_options),
      o_stats_flush_interval_duration = (case p_stats_flush_interval p of
         Some (FlushIntervalDuration_set d) \<Rightarrow> d | _ \<Rightarrow> o_stats_flush_interval_duration default_options),
      o_latency_response_header_name = get_or (p_latency_response_header_name p) (o_latency_response_header_name default_options),
      o_scheduled_start = proto_scheduled_start p,
      o_execution_id = p_execution_id p,
      o_user_defined_output_plugin_configs = p_user_defined_plugin_configs p\<rparr>"

text \<open>
  Merging the tunnel's TLS context goes through \<open>tunnel_tls_context_\<close>, which this constructor never
  engages: undefined behaviour, the error here.
\<close>

definition load_tunnel :: "'z options_lib_scheme \<Rightarrow> CommandLineOptions \<Rightarrow> unit result" where
  "load_tunnel lib p = (case p_tunnel_options p of
     None \<Rightarrow> Inr ()
   | Some t \<Rightarrow>
       result_bind (GetAvailablePort lib (proto_protocol p = HTTP3) (get_or (p_address_family p) AF_AUTO)) (\<lambda>_.
       Inl (Panic ''MergeFrom through an empty optional'')))"

definition check_rate_limiter :: "CommandLineOptions \<Rightarrow> unit result" where
  "check_rate_limiter p = throw_first
     [(p_rate_limiter_plugin_config p \<noteq> None \<and> get_or (p_burst_size p) 0 \<noteq> 0,
         ''burst_size and rate_limiter_plugin_config are mutually exclusive''),
      (p_rate_limiter_plugin_config p \<noteq> None \<and>
         (case p_jitter_uniform p of Some d \<Rightarrow> dur_seconds d \<noteq> 0 \<or> dur_nanos d \<noteq> 0 | None \<Rightarrow> False),
         ''jitter_uniform and rate_limiter_plugin_config are mutually exclusive'')]"

text \<open>The pending request limit is raised for the streams before the message's own value is read.\<close>

definition load_pending :: "CommandLineOptions \<Rightarrow> OptionsImpl \<Rightarrow> OptionsImpl" where
  "load_pending p opt =
     opt\<lparr>o_max_pending_requests :=
       get_or (p_max_pending_requests p) (o_max_pending_requests (raisePendingRequestsForStreams opt))\<rparr>"

definition OptionsImpl_of_proto :: "'z options_lib_scheme \<Rightarrow> CommandLineOptions \<Rightarrow> OptionsImpl result" where
  "OptionsImpl_of_proto lib p =
     result_bind (load_tunnel lib p) (\<lambda>_.
     result_bind (check_rate_limiter p) (\<lambda>_.
       let opt = load_pending p (load_message lib p)
       in result_bind (validate lib opt) (\<lambda>_. Inr opt)))"

lemmas proto_field_defs = proto_uri_def proto_multi_target_def proto_grpc_mode_def proto_protocol_def proto_streams_def
  proto_max_inflight_def proto_drain_def proto_websocket_binary_def proto_request_def proto_request_method_def
  proto_request_headers_def proto_failure_predicates_def proto_scheduled_start_def load_nanos_def from_msg_def

subsection \<open>Round trip\<close>

text \<open>
  What the serialised form can carry: a setting of a mode that is not selected, and an option that
  has been overridden by an exclusive one, has its default value; headers are in the form
  \<open>key:value\<close> without surrounding blanks; there is no tunnel.
\<close>

definition plain_header :: "'z third_party_scheme \<Rightarrow> string \<Rightarrow> bool" where
  "plain_header lib h \<longleftrightarrow> (\<exists>k v. h = k @ '':'' @ v \<and> k \<noteq> [] \<and> CHR '':'' \<notin> set (tl k) \<and>
     StripAsciiWhitespace lib k = k \<and> StripAsciiWhitespace lib v = v)"

definition plain_modes :: "OptionsImpl \<Rightarrow> bool" where
  "plain_modes opt \<longleftrightarrow>
     (o_h2 opt \<longrightarrow> o_protocol opt = HTTP1) \<and>
     (\<not> streamModeEnabled opt \<longrightarrow> o_streams opt = 20 \<and> o_max_inflight_per_stream opt = 256) \<and>
     (\<not> streamModeEnabled opt \<and> \<not> o_tcp opt \<longrightarrow> o_stream_drain_duration opt = 500 * one_millisecond) \<and>
     (\<not> o_websocket opt \<longrightarrow> \<not> o_websocket_binary opt) \<and>
     (\<not> o_tcp opt \<longrightarrow> o_tcp_connections opt = 1 \<and> o_tcp_max_inflight opt = 256 \<and> o_tcp_expect_echo opt \<and>
        o_tcp_max_messages opt = 0) \<and>
     (\<not> o_udp opt \<longrightarrow> o_udp_max_inflight opt = 256 \<and> o_udp_timeout opt = one_second)"

definition plain_request :: "'z third_party_scheme \<Rightarrow> OptionsImpl \<Rightarrow> bool" where
  "plain_request lib opt \<longleftrightarrow>
     (o_request_source opt \<noteq> [] \<longrightarrow> o_request_source_plugin_config opt = None) \<and>
     (o_request_source opt \<noteq> [] \<or> o_request_source_plugin_config opt \<noteq> None \<longrightarrow>
        o_request_headers opt = [] \<and> o_request_body opt = [] \<and> o_request_body_size opt = 0 \<and>
        o_request_method opt = (if grpcEnabled opt then POST else GET)) \<and>
     o_request_method opt \<noteq> METHOD_UNSPECIFIED \<and>
     list_all (plain_header lib) (o_request_headers opt)"

definition plain_target :: "'z third_party_scheme \<Rightarrow> OptionsImpl \<Rightarrow> bool" where
  "plain_target lib opt \<longleftrightarrow>
     o_tcp opt = (case o_uri opt of Some u \<Rightarrow> isTcpUri lib u | None \<Rightarrow> False) \<and>
     o_udp opt = (case o_uri opt of Some u \<Rightarrow> isUdpUri lib u | None \<Rightarrow> False) \<and>
     list_all (\<lambda>e. ep_address e \<noteq> None \<and> ep_port e \<noteq> None) (o_multi_target_endpoints opt) \<and>
     o_tunnel_protocol opt = HTTP1 \<and> o_tunnel_uri opt = [] \<and> o_encap_port opt = 0 \<and> o_tunnel_tls_context opt = None"

definition plain_values :: "OptionsImpl \<Rightarrow> bool" where
  "plain_values opt \<longleftrightarrow>
     o_duration opt < 4294967296 \<and> o_timeout opt < 4294967296 \<and> 0 \<le> o_jitter_uniform opt \<and>
     (o_no_duration opt \<longrightarrow> o_duration opt = 5) \<and>
     (o_rate_limiter_plugin_config opt \<noteq> None \<longrightarrow> o_burst_size opt = 0 \<and> o_jitter_uniform opt = 0) \<and>
     (o_no_default_failure_predicates opt \<or> o_failure_predicates opt \<noteq> Map.empty) \<and>
     (if dur_seconds (o_stats_flush_interval_duration opt) > 0 \<or> dur_nanos (o_stats_flush_interval_duration opt) > 0
      then o_stats_flush_interval opt = 5 else o_stats_flush_interval_duration opt = zero_duration) \<and>
     (\<forall>t. o_scheduled_start opt = Some t \<longrightarrow> 0 \<le> t \<and> 1000 dvd t)"

text \<open>protobuf: nanoseconds survive a \<open>Duration\<close> and a \<open>Timestamp\<close>.\<close>

definition protobuf_time_documented :: "'z third_party_scheme \<Rightarrow> bool" where
  "protobuf_time_documented lib \<longleftrightarrow>
     (\<forall>n. DurationToNanoseconds lib (NanosecondsToDuration lib n) = n) \<and>
     (\<forall>n. dur_seconds (NanosecondsToTimestamp lib n) * one_second + dur_nanos (NanosecondsToTimestamp lib n) = n)"

lemma split_plain_header:
  assumes "plain_header lib h"
  shows "\<exists>k v. split_header lib h = Inr (k, v) \<and> h = k @ '':'' @ v"
proof -
  obtain k v where h: "h = k @ '':'' @ v" "k \<noteq> []" "CHR '':'' \<notin> set (tl k)"
    "StripAsciiWhitespace lib k = k" "StripAsciiWhitespace lib v = v"
    using assms by (auto simp: plain_header_def)
  then obtain c k' where k: "k = c # k'" "CHR '':'' \<notin> set k'" by (cases k) auto
  then have "find_index ((=) CHR '':'') (k' @ '':'' @ v) = Some (length k')"
    by (simp add: find_index_first)
  then have "str_find CHR '':'' (Some 1) h = Some (length k)"
    using h(1) k by (simp add: str_find_def)
  then show ?thesis using h by (simp add: split_header_def)
qed

lemma split_plain_headers:
  assumes "list_all (plain_header lib) hs"
  shows "\<exists>kvs. split_headers lib hs = Inr kvs \<and> map (\<lambda>(k, v). k @ '':'' @ v) kvs = hs"
  using assms
proof (induction hs)
  case (Cons h hs)
  then show ?case using split_plain_header [of lib h] by fastforce
qed simp

text \<open>What the validator accepted gives the facts the serialised form relies on.\<close>

lemma validate_facts:
  assumes "validate lib opt = Inr ()"
  shows "\<not> o_h2_use_multiple_connections opt"
    and "o_uri opt \<noteq> None \<Longrightarrow> o_multi_target_endpoints opt = [] \<and> o_multi_target_path opt = [] \<and> \<not> o_multi_target_use_https opt"
    and "\<exists>p. toCommandLineOptions lib opt = Inr p"
    and "\<not> (o_tcp opt \<and> streamModeEnabled opt \<and> o_uri opt \<noteq> None)"
    and "\<not> (o_websocket opt \<and> grpcEnabled opt)"
  using assms
  by (auto simp: validate_def result_bind_unit_Inr validate_concurrency_def validate_target_def validate_tcp_def
      validate_modes_def throw_first_ok streamModeEnabled_def grpcStreamEnabled_def grpcEnabled_def result_bind_def
      split: sum.splits option.splits if_splits)

lemma default_options_eq:
  "default_options = OptionsImpl_members\<lparr>o_concurrency := ''1'', o_failure_predicates := default_failure_predicates\<rparr>"
  by (simp add: default_options_def setNonTrivialDefaults_def OptionsImpl_members_def)

lemma default_options_cases:
  "o_request_body default_options = []" "o_tcp default_options = False" "o_udp default_options = False"
  "o_request_source default_options = []" "o_stats_flush_interval default_options = 5"
  "o_stats_flush_interval_duration default_options = zero_duration" "o_duration default_options = 5"
  "o_no_duration default_options = False" "o_h2 default_options = False"
  by (simp_all add: default_options_eq OptionsImpl_members_def)

lemma toCommandLineOptions_Inr:
  "toCommandLineOptions lib opt = Inr p \<longleftrightarrow> (\<exists>r. request_options_of lib opt = Inr r \<and> p = message_of lib opt r)"
  by (cases "request_options_of lib opt") (auto simp: toCommandLineOptions_def)

lemma reload_target:
  assumes "plain_target lib opt" "validate lib opt = Inr ()"
  shows "proto_uri (message_of lib opt r) = o_uri opt"
    and "mt_endpoints (proto_multi_target (message_of lib opt r)) = o_multi_target_endpoints opt"
    and "get_or (mt_path (proto_multi_target (message_of lib opt r))) [] = o_multi_target_path opt"
    and "get_or (mt_use_https (proto_multi_target (message_of lib opt r))) False = o_multi_target_use_https opt"
proof -
  note facts = validate_facts(2) [OF assms(2)]
  have ep: "map (\<lambda>e. \<lparr>ep_address = Some (get_or (ep_address e) []), ep_port = Some (get_or (ep_port e) 0)\<rparr>) es = es"
    if "list_all (\<lambda>e. ep_address e \<noteq> None \<and> ep_port e \<noteq> None) es" for es
    using that by (induction es) auto
  show "proto_uri (message_of lib opt r) = o_uri opt"
    by (simp add: proto_uri_def message_of_def uri_of_def split: option.splits)
  show "mt_endpoints (proto_multi_target (message_of lib opt r)) = o_multi_target_endpoints opt"
    using facts assms(1) ep by (auto simp: proto_multi_target_def message_of_def uri_of_def plain_target_def split: option.splits)
  show "get_or (mt_path (proto_multi_target (message_of lib opt r))) [] = o_multi_target_path opt"
    "get_or (mt_use_https (proto_multi_target (message_of lib opt r))) False = o_multi_target_use_https opt"
    using facts by (auto simp: proto_multi_target_def message_of_def uri_of_def split: option.splits)
qed

lemma reload_modes:
  assumes "protobuf_time_documented lib" "plain_modes opt" "plain_target lib opt" "validate lib opt = Inr ()"
  shows "proto_grpc_mode (message_of lib opt r) = o_grpc_mode opt"
    and "proto_protocol (message_of lib opt r) = o_protocol opt"
    and "proto_streams (message_of lib opt r) = o_streams opt"
    and "proto_max_inflight (message_of lib opt r) = o_max_inflight_per_stream opt"
    and "proto_drain lib (message_of lib opt r) = o_stream_drain_duration opt"
    and "proto_websocket_binary (message_of lib opt r) = o_websocket_binary opt"
  using assms validate_facts(4,5) [OF assms(4)]
  by (auto simp: message_of_def proto_field_defs plain_modes_def plain_target_def streamModeEnabled_def grpcStreamEnabled_def
      grpcEnabled_def grpc_stream_of_def websocket_of_def tcp_of_def protobuf_time_documented_def split: option.splits)

lemma reload_request:
  assumes "plain_request lib opt" "request_options_of lib opt = Inr r"
  shows "proto_request_method (message_of lib opt r) = o_request_method opt"
    and "proto_request_headers (message_of lib opt r) = o_request_headers opt"
    and "from_msg (proto_request (message_of lib opt r)) ro_request_body_size 0 = o_request_body_size opt"
    and "(case proto_request (message_of lib opt r) of Some r \<Rightarrow> ro_request_body r | None \<Rightarrow> []) = o_request_body opt"
    and "(case p_request_options (message_of lib opt r) of Some (RequestSourcePlugin_set c) \<Rightarrow> Some c | _ \<Rightarrow> None) =
         o_request_source_plugin_config opt"
    and "(case p_request_options (message_of lib opt r) of Some (RequestSource_set u) \<Rightarrow> u | _ \<Rightarrow> []) = o_request_source opt"
proof -
  obtain kvs where kvs: "split_headers lib (o_request_headers opt) = Inr kvs"
     "map (\<lambda>(k, v). k @ '':'' @ v) kvs = o_request_headers opt"
    using split_plain_headers [of lib "o_request_headers opt"] assms(1) by (auto simp: plain_request_def)
  note defs = message_of_def proto_field_defs plain_request_def request_options_of_def grpcEnabled_def
  show "proto_request_method (message_of lib opt r) = o_request_method opt"
    using assms kvs by (auto simp: defs split: if_splits option.splits)
  show "proto_request_headers (message_of lib opt r) = o_request_headers opt"
    using assms kvs by (auto simp: defs split: if_splits option.splits)
  show "from_msg (proto_request (message_of lib opt r)) ro_request_body_size 0 = o_request_body_size opt"
    using assms kvs by (auto simp: defs split: if_splits option.splits)
  show "(case proto_request (message_of lib opt r) of Some r \<Rightarrow> ro_request_body r | None \<Rightarrow> []) = o_request_body opt"
    using assms kvs by (auto simp: defs split: if_splits option.splits)
  show "(case p_request_options (message_of lib opt r) of Some (RequestSourcePlugin_set c) \<Rightarrow> Some c | _ \<Rightarrow> None) =
         o_request_source_plugin_config opt"
    using assms kvs by (auto simp: defs split: if_splits option.splits)
  show "(case p_request_options (message_of lib opt r) of Some (RequestSource_set u) \<Rightarrow> u | _ \<Rightarrow> []) = o_request_source opt"
    using assms kvs by (auto simp: defs split: if_splits option.splits)
qed

lemma reload_flush_interval:
  assumes "plain_values opt"
  shows "(case flush_interval_of opt of FlushInterval_set n \<Rightarrow> n | _ \<Rightarrow> 5) = o_stats_flush_interval opt"
    and "(case flush_interval_of opt of FlushIntervalDuration_set d \<Rightarrow> d | _ \<Rightarrow> zero_duration) = o_stats_flush_interval_duration opt"
proof -
  have "if dur_seconds (o_stats_flush_interval_duration opt) > 0 \<or> dur_nanos (o_stats_flush_interval_duration opt) > 0
      then o_stats_flush_interval opt = 5 else o_stats_flush_interval_duration opt = zero_duration"
    using assms unfolding plain_values_def by blast
  then show "(case flush_interval_of opt of FlushInterval_set n \<Rightarrow> n | _ \<Rightarrow> 5) = o_stats_flush_interval opt"
    "(case flush_interval_of opt of FlushIntervalDuration_set d \<Rightarrow> d | _ \<Rightarrow> zero_duration) = o_stats_flush_interval_duration opt"
    by (auto simp: flush_interval_of_def Let_def split: if_splits)
qed

lemma reload_values:
  assumes "protobuf_time_documented lib" "plain_values opt"
  shows "proto_failure_predicates (message_of lib opt r) = o_failure_predicates opt"
    and "proto_scheduled_start (message_of lib opt r) = o_scheduled_start opt"
    and "load_nanos lib (p_jitter_uniform (message_of lib opt r)) 0 = o_jitter_uniform opt"
    and "check_rate_limiter (message_of lib opt r) = Inr ()"
proof -
  have micros: "to_micros t * one_microsecond = t" if "0 \<le> t" "1000 dvd t" for t
    using that by (simp add: to_micros_def one_microsecond_def)
  have stamp: "dur_nanos (NanosecondsToTimestamp lib n) + dur_seconds (NanosecondsToTimestamp lib n) * one_second = n" for n
    using assms(1) by (simp add: protobuf_time_documented_def add.commute)
  have jit: "0 \<le> o_jitter_uniform opt" using assms(2) unfolding plain_values_def by blast
  have dflt: "o_no_default_failure_predicates opt \<or> o_failure_predicates opt \<noteq> Map.empty"
    using assms(2) unfolding plain_values_def by blast
  then show "proto_failure_predicates (message_of lib opt r) = o_failure_predicates opt"
    by (simp add: message_of_def proto_failure_predicates_def)
  have start: "\<forall>t. o_scheduled_start opt = Some t \<longrightarrow> 0 \<le> t \<and> 1000 dvd t"
    using assms(2) unfolding plain_values_def by blast
  show "proto_scheduled_start (message_of lib opt r) = o_scheduled_start opt"
    using micros start stamp by (cases "o_scheduled_start opt") (simp_all add: message_of_def proto_scheduled_start_def)
  show "load_nanos lib (p_jitter_uniform (message_of lib opt r)) 0 = o_jitter_uniform opt"
    using jit assms(1) by (simp add: message_of_def load_nanos_def protobuf_time_documented_def)
  have "o_rate_limiter_plugin_config opt \<noteq> None \<longrightarrow> o_burst_size opt = 0 \<and> o_jitter_uniform opt = 0"
    using assms(2) unfolding plain_values_def by blast
  then show "check_rate_limiter (message_of lib opt r) = Inr ()"
    by (cases "o_rate_limiter_plugin_config opt") (auto simp: message_of_def check_rate_limiter_def)
qed

lemma reload_times:
  assumes "plain_values opt"
  shows "to_uint32 (int (o_timeout opt)) = o_timeout opt"
    and "to_uint32 (int (o_duration opt)) = o_duration opt"
    and "o_no_duration opt \<Longrightarrow> o_duration opt = 5"
proof -
  have "o_timeout opt < 4294967296" "o_duration opt < 4294967296" "o_no_duration opt \<longrightarrow> o_duration opt = 5"
    using assms unfolding plain_values_def by blast+
  then show "to_uint32 (int (o_timeout opt)) = o_timeout opt" "to_uint32 (int (o_duration opt)) = o_duration opt"
    "o_no_duration opt \<Longrightarrow> o_duration opt = 5" by simp_all
qed

lemma reload_simple:
  assumes "plain_modes opt" "plain_target lib opt" "validate lib opt = Inr ()"
  shows "o_tunnel_protocol opt = HTTP1" "o_tunnel_uri opt = []" "o_encap_port opt = 0" "o_tunnel_tls_context opt = None"
    and "\<not> o_udp opt \<Longrightarrow> o_udp_max_inflight opt = 256" "\<not> o_udp opt \<Longrightarrow> o_udp_timeout opt = one_second"
    and "\<not> o_tcp opt \<Longrightarrow> o_tcp_connections opt = 1" "\<not> o_tcp opt \<Longrightarrow> o_tcp_max_inflight opt = 256"
    and "\<not> o_tcp opt \<Longrightarrow> o_tcp_expect_echo opt" "\<not> o_tcp opt \<Longrightarrow> o_tcp_max_messages opt = 0"
    and "(case o_uri opt of Some u \<Rightarrow> isTcpUri lib u | None \<Rightarrow> False) = o_tcp opt"
    and "(case o_uri opt of Some u \<Rightarrow> isUdpUri lib u | None \<Rightarrow> False) = o_udp opt"
    and "o_h2_use_multiple_connections opt = False"
  using assms(1,2) validate_facts(1) [OF assms(3)] by (auto simp: plain_modes_def plain_target_def)

lemma message_tcp_udp:
  assumes "protobuf_time_documented lib"
  shows "from_msg (p_tcp (message_of lib opt r)) tcp_connections d = (if o_tcp opt then o_tcp_connections opt else d)"
    "from_msg (p_tcp (message_of lib opt r)) tcp_max_inflight_per_connection d = (if o_tcp opt then o_tcp_max_inflight opt else d)"
    "from_msg (p_tcp (message_of lib opt r)) tcp_expect_echo b = (if o_tcp opt then o_tcp_expect_echo opt else b)"
    "from_msg (p_tcp (message_of lib opt r)) tcp_max_messages_per_connection d = (if o_tcp opt then o_tcp_max_messages opt else d)"
    "from_msg (p_udp (message_of lib opt r)) udp_max_inflight d = (if o_udp opt then o_udp_max_inflight opt else d)"
    "load_nanos lib (Option.bind (p_udp (message_of lib opt r)) udp_timeout) n = (if o_udp opt then o_udp_timeout opt else n)"
  using assms by (simp_all add: message_of_def from_msg_def load_nanos_def tcp_of_def udp_of_def protobuf_time_documented_def)

lemma reload_message:
  assumes doc: "protobuf_time_documented lib"
    and plain: "plain_modes opt" "plain_request lib opt" "plain_target lib opt" "plain_values opt"
    and val: "validate lib opt = Inr ()" and r: "request_options_of lib opt = Inr r"
    shows "load_pending (message_of lib opt r) (load_message lib (message_of lib opt r)) = opt"
proof -
  note again = reload_target [OF plain(3) val, of r] reload_modes [OF doc plain(1,3) val, of r]
    reload_request [OF plain(2) r] reload_values [OF doc plain(4), of r] reload_flush_interval [OF plain(4)]
    reload_simple [OF plain(1,3) val] reload_times [OF plain(4)] message_tcp_udp [OF doc]
  have load: "load_pending (message_of lib opt r) opt' =
      opt'\<lparr>o_max_pending_requests := o_max_pending_requests opt\<rparr>" for opt'
    by (simp add: load_pending_def message_of_def)
  show ?thesis
    unfolding load load_message_def default_options_cases
    apply (rule OptionsImpl.equality)
    apply (simp_all add: again default_options_eq OptionsImpl_members_def)
    apply (simp_all add: message_of_def again websocket_of_def)
    done
qed

subsection \<open>What accepted options guarantee\<close>

text \<open>
  The rate of one worker (\<^verbatim>\<open>rate_limiter_impl.cc\<close>): in the stream modes the requests per second are an
  aggregate that the workers share. \<open>std::stoi\<close> may throw; the divisor is converted to unsigned.
\<close>

definition perWorkerRequestsPerSecond :: "OptionsImpl \<Rightarrow> nat result" where
  "perWorkerRequestsPerSecond opt =
     (if o_grpc_mode opt = BIDI_STREAM \<or> o_websocket opt
      then (case stoi (o_concurrency opt) of
              StoiOk c \<Rightarrow> Inr (o_requests_per_second opt div to_uint32 c)
            | _ \<Rightarrow> Inl (NighthawkException ''stoi''))
      else Inr (o_requests_per_second opt))"

lemma stoi_range: "stoi s = StoiOk v \<Longrightarrow> - 2147483648 \<le> v \<and> v \<le> 2147483647"
  by (auto simp: stoi_def Let_def split: if_splits)

lemma validate_stream_facts:
  assumes "validate lib opt = Inr ()" "streamModeEnabled opt"
  obtains c where "stoi (o_concurrency opt) = StoiOk (int c)" "0 < c" "c < 4294967296"
    "o_streams opt mod c = 0" "0 < o_streams opt" "o_requests_per_second opt mod c = 0"
    "0 < o_max_inflight_per_stream opt" "o_streams opt div c \<le> o_max_active_requests opt"
    "o_websocket opt \<longrightarrow> o_streams opt div c \<le> o_connections opt"
proof -
  have facts: "\<forall>(c, m) \<in> set (validate_streams opt). \<not> c"
    using assms(1) by (simp add: validate_def result_bind_unit_Inr throw_first_ok)
  let ?v = "parse_concurrency 0 (o_concurrency opt)"
  have pos: "0 < ?v" using facts assms(2) by (simp add: validate_streams_def Let_def)
  then have st: "stoi (o_concurrency opt) = StoiOk ?v"
    by (auto simp: parse_concurrency_def split: stoi_result.splits if_splits)
  have w: "nat (max ?v 1) = nat ?v" using pos by simp
  show thesis
    using facts assms(2) pos st stoi_range [OF st]
    by (intro that [of "nat ?v"]) (auto simp: validate_streams_def Let_def w)
qed

text \<open>
  C25: In the stream modes the workers' rates and streams add up to what was asked for. For options that
  validate, the rate of one worker is defined and, taken once for each worker, is the aggregate rate;
  likewise the streams divide evenly, at least one for each worker, and fit the limit of active requests.
\<close>

theorem stream_mode_shares_exact:
  assumes "validate lib opt = Inr ()" "streamModeEnabled opt"
  shows "\<exists>workers rate. stoi (o_concurrency opt) = StoiOk (int workers) \<and> 0 < workers \<and>
           perWorkerRequestsPerSecond opt = Inr rate \<and> rate * workers = o_requests_per_second opt \<and>
           (\<exists>k > 0. o_streams opt = k * workers \<and> k \<le> o_max_active_requests opt)"
proof -
  obtain c where c: "stoi (o_concurrency opt) = StoiOk (int c)" "0 < c" "c < 4294967296"
    "o_streams opt mod c = 0" "0 < o_streams opt" "o_requests_per_second opt mod c = 0"
    "0 < o_max_inflight_per_stream opt" "o_streams opt div c \<le> o_max_active_requests opt"
    "o_websocket opt \<longrightarrow> o_streams opt div c \<le> o_connections opt"
    by (rule validate_stream_facts [OF assms])
  have "perWorkerRequestsPerSecond opt = Inr (o_requests_per_second opt div c)"
    using assms(2) c(1,3) by (auto simp: perWorkerRequestsPerSecond_def streamModeEnabled_def grpcStreamEnabled_def)
  moreover have "o_requests_per_second opt div c * c = o_requests_per_second opt"
    using c(6) by auto
  moreover have "o_streams opt = o_streams opt div c * c" "0 < o_streams opt div c"
    using c(2,4,5) by (auto simp: div_greater_zero_iff mod_eq_0_iff_dvd dvd_imp_le)
  ultimately show ?thesis using c by blast
qed

end
