(* ===== verification/OptionsCli.thy ===== *)
theory OptionsCli
  imports OptionsProto
begin

text \<open>
  The constructor from the command line, \<^verbatim>\<open>OptionsImpl::OptionsImpl(int, const char* const*)\<close>, behind the
  TCLAP parser: an argument is \<open>None\<close> when it is not set. An argument with a values constraint has the
  enumeration value TCLAP admitted, so the \<open>RELEASE_ASSERT\<close>s on the enumeration parsers hold.
\<close>

subsection \<open>Arguments\<close>

record cli_args =
  a_requests_per_second :: "nat option"
  a_connections :: "nat option"
  a_duration :: "nat option"
  a_no_duration :: "bool option"
  a_timeout :: "nat option"
  a_uri :: "string option"
  a_h2 :: "bool option"
  a_protocol :: "ProtocolOptions option"
  a_h2_use_multiple_connections :: "bool option"
  a_grpc_mode :: "GrpcModeOptions option"
  a_websocket :: bool
  a_websocket_binary :: bool
  a_tcp_connections :: "nat option"
  a_tcp_max_inflight :: "nat option"
  a_tcp_no_echo :: bool
  a_tcp_max_messages :: "nat option"
  a_udp_max_inflight :: "nat option"
  a_udp_timeout :: "string option"
  a_streams :: "nat option"
  a_max_inflight_per_stream :: "nat option"
  a_stream_drain_duration :: "string option"
  a_concurrency :: "string option"
  a_http3_protocol_options :: string
  a_verbosity :: "VerbosityOptions option"
  a_output_format :: "OutputFormatOptions option"
  a_prefetch_connections :: "bool option"
  a_burst_size :: "nat option"
  a_address_family :: "AddressFamilyOptions option"
  a_request_method :: "RequestMethod option"
  a_request_headers :: "string list option"
  a_request_body_size :: "nat option"
  a_request_body_file :: "string option"
  a_max_pending_requests :: "nat option"
  a_max_active_requests :: "nat option"
  a_max_requests_per_connection :: "nat option"
  a_max_concurrent_streams :: "nat option"
  a_sequencer_idle_strategy :: "SequencerIdleStrategyOptions option"
  a_request_source :: "string option"
  a_h1_connection_reuse_strategy :: "H1ConnectionReuseStrategyOptions option"
  a_trace :: "string option"
  a_termination_predicates :: "string list option"
  a_no_default_failure_predicates :: "bool option"
  a_failure_predicates :: "string list option"
  a_open_loop :: "bool option"
  a_jitter_uniform :: "string option"
  a_nighthawk_service :: "string option"
  a_multi_target_use_https :: "bool option"
  a_multi_target_path :: "string option"
  a_multi_target_endpoints :: "string list option"
  a_labels :: "string list option"
  a_simple_warmup :: "bool option"
  a_stats_sinks :: "string list option"
  a_stats_flush_interval :: "nat option"
  a_stats_flush_interval_duration :: "string option"
  a_latency_response_header_name :: "string option"
  a_tls_context :: string
  a_upstream_bind_config :: string
  a_transport_socket :: string
  a_request_source_plugin_config :: string
  a_rate_limiter_plugin_config :: string
  a_user_defined_output_plugin_configs :: "string list"
  a_tunnel_protocol :: "ProtocolOptions option"
  a_tunnel_uri :: "string option"
  a_tunnel_tls_context :: "string option"

abbreviation malformed :: "string \<Rightarrow> 'a result" where
  "malformed m \<equiv> Inl (MalformedArgvException m)"

subsection \<open>Values that are parsed\<close>

definition cli_nonnegative :: "Duration \<Rightarrow> bool" where
  "cli_nonnegative d \<longleftrightarrow> 0 \<le> dur_seconds d \<and> 0 \<le> dur_nanos d"

definition cli_udp_timeout :: "'z third_party_scheme \<Rightarrow> cli_args \<Rightarrow> nanos result" where
  "cli_udp_timeout lib a = (case a_udp_timeout a of None \<Rightarrow> Inr one_second | Some s \<Rightarrow>
     (case TimeUtil_FromString lib s of
        Some d \<Rightarrow> if cli_nonnegative d then Inr (DurationToNanoseconds lib d) else malformed ''Invalid value for --udp-timeout''
      | None \<Rightarrow> malformed ''Invalid value for --udp-timeout''))"

definition cli_stream_drain :: "'z third_party_scheme \<Rightarrow> cli_args \<Rightarrow> nanos result" where
  "cli_stream_drain lib a = (case a_stream_drain_duration a of None \<Rightarrow> Inr (500 * one_millisecond) | Some s \<Rightarrow>
     (case TimeUtil_FromString lib s of
        Some d \<Rightarrow> if cli_nonnegative d then Inr (DurationToNanoseconds lib d) else malformed ''Invalid value for --stream-drain-duration''
      | None \<Rightarrow> malformed ''Invalid value for --stream-drain-duration''))"

definition cli_jitter :: "'z third_party_scheme \<Rightarrow> cli_args \<Rightarrow> nanos result" where
  "cli_jitter lib a = (case a_jitter_uniform a of None \<Rightarrow> Inr 0 | Some s \<Rightarrow>
     (case TimeUtil_FromString lib s of
        Some d \<Rightarrow> if cli_nonnegative d then Inr (DurationToNanoseconds lib d) else malformed ''--jitter-uniform is out of range''
      | None \<Rightarrow> malformed ''Invalid value for --jitter-uniform''))"

definition cli_flush_duration :: "'z third_party_scheme \<Rightarrow> cli_args \<Rightarrow> Duration result" where
  "cli_flush_duration lib a = (case a_stats_flush_interval_duration a of None \<Rightarrow> Inr zero_duration | Some s \<Rightarrow>
     (case TimeUtil_FromString lib s of
        Some d \<Rightarrow> if cli_nonnegative d then Inr d else malformed ''--stats-flush-interval-duration is out of range''
      | None \<Rightarrow> malformed ''Invalid value for --stats-flush-interval-duration''))"

text \<open>\<open>loadFromJson\<close> in a \<open>try\<close> block that turns Envoy's exception into \<open>MalformedArgvException\<close>.\<close>

definition load_json :: "'z third_party_scheme \<Rightarrow> string \<Rightarrow> message result" where
  "load_json lib s = (case loadFromJson lib s of Inr m \<Rightarrow> Inr m | Inl (EnvoyException e) \<Rightarrow> malformed e | Inl e \<Rightarrow> Inl e)"

definition load_optional_json :: "'z third_party_scheme \<Rightarrow> string \<Rightarrow> message option result" where
  "load_optional_json lib s = (if s = [] then Inr None else result_bind (load_json lib s) (\<lambda>m. Inr (Some m)))"

fun load_jsons :: "'z third_party_scheme \<Rightarrow> string list \<Rightarrow> message list result" where
  "load_jsons lib [] = Inr []"
| "load_jsons lib (s # ss) = result_bind (load_json lib s) (\<lambda>m. result_bind (load_jsons lib ss) (\<lambda>ms. Inr (m # ms)))"

definition readRequestBodyFile :: "'z options_lib_scheme \<Rightarrow> string \<Rightarrow> string result" where
  "readRequestBodyFile lib path =
     (case read_file lib path of
        NotOpened \<Rightarrow> malformed ''Failed to open --request-body-file''
      | ReadError \<Rightarrow> malformed ''Failed to read --request-body-file''
      | Contents contents \<Rightarrow>
          if length contents > largest_acceptable_uint32_option_value
          then malformed ''--request-body-file is larger than the maximum request body size'' else Inr contents)"

fun add_predicates :: "'z third_party_scheme \<Rightarrow> string list \<Rightarrow> TerminationPredicateMap \<Rightarrow> TerminationPredicateMap result" where
  "add_predicates lib [] m = Inr m"
| "add_predicates lib (p # ps) m =
     (case StrSplit_SkipWhitespace lib CHR '':'' p of
        [name, count] \<Rightarrow> (case SimpleAtoi_uint64 lib count of
           Some threshold \<Rightarrow> add_predicates lib ps (m(name \<mapsto> threshold))
         | None \<Rightarrow> malformed ''Termination predicate has an out of range threshold.'')
      | _ \<Rightarrow> malformed ''Termination predicate is badly formatted.'')"

definition parsePredicates ::
  "'z third_party_scheme \<Rightarrow> string list option \<Rightarrow> TerminationPredicateMap \<Rightarrow> TerminationPredicateMap result" where
  "parsePredicates lib arg predicates =
     (case arg of None \<Rightarrow> Inr predicates | Some ps \<Rightarrow> add_predicates lib ps Map.empty)"

fun cli_endpoints :: "'z third_party_scheme \<Rightarrow> string list \<Rightarrow> Endpoint list result" where
  "cli_endpoints lib [] = Inr []"
| "cli_endpoints lib (hp # hps) =
     (case parseHostPort lib hp of
        None \<Rightarrow> malformed ''--multi-target-endpoint must be in the format IPv4:port, [IPv6]:port, or DNS:port.''
      | Some (host, port) \<Rightarrow> result_bind (cli_endpoints lib hps) (\<lambda>es.
          Inr (\<lparr>ep_address = Some host, ep_port = Some (to_uint32 port)\<rparr> # es)))"

subsection \<open>Refusals\<close>

definition cli_exclusive :: "cli_args \<Rightarrow> (bool \<times> string) list" where
  "cli_exclusive a =
     [(a_h2_use_multiple_connections a \<noteq> None,
         ''--experimental-h2-use-multiple-connections is deprecated, set --max-concurrent-streams to one instead''),
      (a_duration a \<noteq> None \<and> a_no_duration a = Some True, ''--duration and --no-duration are mutually exclusive''),
      (a_stats_flush_interval a \<noteq> None \<and> a_stats_flush_interval_duration a \<noteq> None,
         ''--stats-flush-interval and --stats-flush-interval-duration are mutually exclusive''),
      ((a_stats_flush_interval a \<noteq> None \<or> a_stats_flush_interval_duration a \<noteq> None) \<and> a_stats_sinks a = None,
         ''if --stats-flush-interval or --stats-flush-interval-duration is set, then --stats-sinks must also be set''),
      (a_h2 a \<noteq> None \<and> a_protocol a \<noteq> None, ''--h2 and --protocol are mutually exclusive'')]"

definition cli_grpc_mode :: "cli_args \<Rightarrow> GrpcModeOptions" where
  "cli_grpc_mode a = get_or (a_grpc_mode a) GRPC_NONE"

definition cli_protocol :: "cli_args \<Rightarrow> ProtocolOptions" where
  "cli_protocol a = (case a_protocol a of Some v \<Rightarrow> v
     | None \<Rightarrow> if cli_grpc_mode a \<noteq> GRPC_NONE \<and> a_h2 a = None then HTTP2 else HTTP1)"

definition cli_http3 :: "'z third_party_scheme \<Rightarrow> cli_args \<Rightarrow> message option result" where
  "cli_http3 lib a =
     (if a_http3_protocol_options a = [] then Inr None
      else result_bind (throw_first
        [(cli_protocol a \<noteq> HTTP3, ''--http3-protocol-options can only be used with --protocol http3''),
         (a_max_concurrent_streams a \<noteq> None, ''--http3-protocol-options and --max-concurrent-streams are mutually exclusive'')])
        (\<lambda>_. load_optional_json lib (a_http3_protocol_options a)))"

definition cli_caps :: "OptionsImpl \<Rightarrow> (bool \<times> string) list" where
  "cli_caps opt =
     [(o_requests_per_second opt > largest_acceptable_uint32_option_value, ''Invalid value for --rps''),
      (o_connections opt > largest_acceptable_uint32_option_value, ''Invalid value for --connections''),
      (o_duration opt > largest_acceptable_uint32_option_value, ''Invalid value for --duration''),
      (o_timeout opt > largest_acceptable_uint32_option_value, ''Invalid value for --timeout''),
      (o_request_body_size opt > largest_acceptable_uint32_option_value, ''Invalid value for --request-body-size''),
      (o_burst_size opt > largest_acceptable_uint32_option_value, ''Invalid value for --burst-size''),
      (o_max_pending_requests opt > largest_acceptable_uint32_option_value, ''Invalid value for --max-pending-requests''),
      (o_max_active_requests opt > largest_acceptable_uint32_option_value, ''Invalid value for --max-active-requests''),
      (o_max_requests_per_connection opt > largest_acceptable_uint32_option_value, ''Invalid value for --max-requests-per-connection''),
      (o_max_concurrent_streams opt > largest_acceptable_concurrent_streams_value, ''Invalid value for --max_concurrent_streams''),
      (o_stats_flush_interval opt > largest_acceptable_uint32_option_value, ''Invalid value for --stats-flush-interval'')]"

definition cli_body :: "'z options_lib_scheme \<Rightarrow> cli_args \<Rightarrow> string result" where
  "cli_body lib a = (case a_request_body_file a of None \<Rightarrow> Inr [] | Some path \<Rightarrow> readRequestBodyFile lib path)"

definition cli_failure_predicates :: "'z third_party_scheme \<Rightarrow> cli_args \<Rightarrow> TerminationPredicateMap result" where
  "cli_failure_predicates lib a =
     parsePredicates lib (a_failure_predicates a)
       (if get_or (a_no_default_failure_predicates a) False then Map.empty else default_failure_predicates)"

text \<open>The members behind the range checks: TLS, binding, plugins and the tunnel.\<close>

record cli_late =
  l_tls_context :: message
  l_upstream_bind_config :: "message option"
  l_transport_socket :: "message option"
  l_request_source_plugin_config :: "message option"
  l_rate_limiter_plugin_config :: "message option"
  l_user_defined_output_plugin_configs :: "message list"

definition cli_plugins :: "'z third_party_scheme \<Rightarrow> cli_args \<Rightarrow> cli_late result" where
  "cli_plugins lib a =
     result_bind (throw_first
       [(a_tls_context a \<noteq> [] \<and> a_transport_socket a \<noteq> [], ''--tls-context and --transport-socket cannot both be set.'')]) (\<lambda>_.
     result_bind (load_optional_json lib (a_tls_context a)) (\<lambda>tls.
     result_bind (load_optional_json lib (a_upstream_bind_config a)) (\<lambda>bind.
     result_bind (load_optional_json lib (a_transport_socket a)) (\<lambda>socket.
     result_bind (throw_first
       [(get_or (a_request_source a) [] \<noteq> [] \<and> a_request_source_plugin_config a \<noteq> [],
           ''--request-source and --request_source_plugin_config cannot both be set.'')]) (\<lambda>_.
     result_bind (load_optional_json lib (a_request_source_plugin_config a)) (\<lambda>source_plugin.
     result_bind (throw_first
       [(a_rate_limiter_plugin_config a \<noteq> [] \<and> a_burst_size a \<noteq> None,
           ''--burst-size and --rate-limiter-plugin-config are mutually exclusive''),
        (a_rate_limiter_plugin_config a \<noteq> [] \<and> a_jitter_uniform a \<noteq> None,
           ''--jitter-uniform and --rate-limiter-plugin-config are mutually exclusive'')]) (\<lambda>_.
     result_bind (load_optional_json lib (a_rate_limiter_plugin_config a)) (\<lambda>limiter_plugin.
     result_bind (load_jsons lib (a_user_defined_output_plugin_configs a)) (\<lambda>user_plugins.
       Inr \<lparr>l_tls_context = get_or tls [], l_upstream_bind_config = bind, l_transport_socket = socket,
            l_request_source_plugin_config = source_plugin, l_rate_limiter_plugin_config = limiter_plugin,
            l_user_defined_output_plugin_configs = user_plugins\<rparr>)))))))))"

record cli_tunnel =
  t_protocol :: ProtocolOptions
  t_uri :: string
  t_encap_port :: nat
  t_tls_context :: "message option"

definition cli_tunnel_options :: "'z options_lib_scheme \<Rightarrow> cli_args \<Rightarrow> cli_tunnel result" where
  "cli_tunnel_options lib a =
     (let tunnel_protocol = get_or (a_tunnel_protocol a) HTTP1;
          tls_given = get_or (a_tunnel_tls_context a) [] \<noteq> []
      in result_bind (case a_tunnel_protocol a of
           Some _ \<Rightarrow> (case a_tunnel_uri a of
               None \<Rightarrow> malformed ''--tunnel-protocol requires --tunnel-uri''
             | Some u \<Rightarrow> result_bind (GetAvailablePort lib (cli_protocol a = HTTP3) (get_or (a_address_family a) AF_AUTO))
                            (\<lambda>port. Inr (u, port)))
         | None \<Rightarrow> if a_tunnel_uri a \<noteq> None \<or> a_tunnel_tls_context a \<noteq> None
                   then malformed ''tunnel flags require --tunnel-protocol'' else Inr ([], 0)) (\<lambda>(u, port).
         result_bind (load_optional_json lib (get_or (a_tunnel_tls_context a) [])) (\<lambda>tls.
         result_bind (throw_first
           [(\<not> tls_given \<and> tunnel_protocol = HTTP3, ''--tunnel-tls-context is required to use --tunnel-protocol http3''),
            (a_tunnel_protocol a = Some HTTP3 \<and> cli_protocol a = HTTP3,
               ''--protocol HTTP3 over --tunnel-protocol HTTP3 is not supported''),
            (a_tunnel_protocol a = Some HTTP1 \<and> cli_protocol a = HTTP3,
               ''--protocol HTTP3 over --tunnel-protocol HTTP1 is not supported'')]) (\<lambda>_.
         Inr \<lparr>t_protocol = tunnel_protocol, t_uri = u, t_encap_port = port, t_tls_context = tls\<rparr>))))"

subsection \<open>The constructor\<close>

text \<open>The values parsed on the way, in the order of the source.\<close>

record cli_parsed =
  c_udp_timeout :: nanos
  c_stream_drain :: nanos
  c_http3 :: "message option"
  c_body :: string
  c_termination_predicates :: TerminationPredicateMap
  c_failure_predicates :: TerminationPredicateMap
  c_jitter :: nanos
  c_endpoints :: "Endpoint list"
  c_sinks :: "message list"
  c_flush_duration :: Duration

definition cli_parse :: "'z options_lib_scheme \<Rightarrow> cli_args \<Rightarrow> cli_parsed result" where
  "cli_parse lib a =
     result_bind (throw_first (cli_exclusive a)) (\<lambda>_.
     result_bind (cli_udp_timeout lib a) (\<lambda>timeout.
     result_bind (cli_stream_drain lib a) (\<lambda>drain.
     result_bind (cli_http3 lib a) (\<lambda>http3.
     result_bind (cli_body lib a) (\<lambda>body.
     result_bind (parsePredicates lib (a_termination_predicates a) Map.empty) (\<lambda>termination.
     result_bind (cli_failure_predicates lib a) (\<lambda>failure.
     result_bind (cli_jitter lib a) (\<lambda>jitter.
     result_bind (cli_endpoints lib (get_or (a_multi_target_endpoints a) [])) (\<lambda>endpoints.
     result_bind (load_jsons lib (get_or (a_stats_sinks a) [])) (\<lambda>sinks.
     result_bind (cli_flush_duration lib a) (\<lambda>flush.
       Inr \<lparr>c_udp_timeout = timeout, c_stream_drain = drain, c_http3 = http3, c_body = body,
            c_termination_predicates = termination, c_failure_predicates = failure, c_jitter = jitter,
            c_endpoints = endpoints, c_sinks = sinks, c_flush_duration = flush\<rparr>)))))))))))"

text \<open>
  The members the command line sets, over the defaults of the command line mode; those set behind the
  range checks still have their defaults.
\<close>

definition cli_members :: "'z third_party_scheme \<Rightarrow> cli_args \<Rightarrow> cli_parsed \<Rightarrow> OptionsImpl" where
  "cli_members lib a c = default_options
     \<lparr>o_requests_per_second := get_or (a_requests_per_second a) (o_requests_per_second default_options),
      o_connections := get_or (a_connections a) (o_connections default_options),
      o_duration := get_or (a_duration a) (o_duration default_options),
      o_timeout := get_or (a_timeout a) (o_timeout default_options),
      o_uri := a_uri a,
      o_tcp := (case a_uri a of Some u \<Rightarrow> isTcpUri lib u | None \<Rightarrow> False),
      o_udp := (case a_uri a of Some u \<Rightarrow> isUdpUri lib u | None \<Rightarrow> False),
      o_grpc_mode := cli_grpc_mode a,
      o_websocket := a_websocket a,
      o_websocket_binary := a_websocket_binary a,
      o_tcp_connections := get_or (a_tcp_connections a) (o_tcp_connections default_options),
      o_tcp_max_inflight := get_or (a_tcp_max_inflight a) (o_tcp_max_inflight default_options),
      o_tcp_expect_echo := \<not> a_tcp_no_echo a,
      o_tcp_max_messages := get_or (a_tcp_max_messages a) (o_tcp_max_messages default_options),
      o_udp_max_inflight := get_or (a_udp_max_inflight a) (o_udp_max_inflight default_options),
      o_udp_timeout := c_udp_timeout c,
      o_streams := get_or (a_streams a) (o_streams default_options),
      o_max_inflight_per_stream := get_or (a_max_inflight_per_stream a) (o_max_inflight_per_stream default_options),
      o_stream_drain_duration := c_stream_drain c,
      o_h2 := get_or (a_h2 a) (o_h2 default_options),
      o_concurrency := get_or (a_concurrency a) (o_concurrency default_options),
      o_protocol := cli_protocol a,
      o_http3_protocol_options := c_http3 c,
      o_verbosity := get_or (a_verbosity a) INFO,
      o_output_format := get_or (a_output_format a) HUMAN,
      o_prefetch_connections := get_or (a_prefetch_connections a) (o_prefetch_connections default_options),
      o_burst_size := get_or (a_burst_size a) (o_burst_size default_options),
      o_address_family := get_or (a_address_family a) (o_address_family default_options),
      o_request_method := get_or (a_request_method a) (if cli_grpc_mode a \<noteq> GRPC_NONE then POST else GET),
      o_request_headers := get_or (a_request_headers a) (o_request_headers default_options),
      o_request_body_size := get_or (a_request_body_size a) (o_request_body_size default_options),
      o_request_body := c_body c,
      o_max_pending_requests := get_or (a_max_pending_requests a) (o_max_pending_requests default_options),
      o_max_active_requests := get_or (a_max_active_requests a) (o_max_active_requests default_options),
      o_max_requests_per_connection := get_or (a_max_requests_per_connection a) (o_max_requests_per_connection default_options),
      o_max_concurrent_streams := get_or (a_max_concurrent_streams a) (o_max_concurrent_streams default_options),
      o_sequencer_idle_strategy := get_or (a_sequencer_idle_strategy a) (o_sequencer_idle_strategy default_options),
      o_request_source := get_or (a_request_source a) (o_request_source default_options),
      o_h1_connection_reuse_strategy := get_or (a_h1_connection_reuse_strategy a) (o_h1_connection_reuse_strategy default_options),
      o_trace := get_or (a_trace a) (o_trace default_options),
      o_termination_predicates := c_termination_predicates c,
      o_no_default_failure_predicates := get_or (a_no_default_failure_predicates a) (o_no_default_failure_predicates default_options),
      o_failure_predicates := c_failure_predicates c,
      o_open_loop := get_or (a_open_loop a) (o_open_loop default_options),
      o_jitter_uniform := c_jitter c,
      o_nighthawk_service := get_or (a_nighthawk_service a) (o_nighthawk_service default_options),
      o_multi_target_use_https := get_or (a_multi_target_use_https a) (o_multi_target_use_https default_options),
      o_multi_target_path := get_or (a_multi_target_path a) (o_multi_target_path default_options),
      o_multi_target_endpoints := c_endpoints c,
      o_labels := get_or (a_labels a) (o_labels default_options),
      o_simple_warmup := get_or (a_simple_warmup a) (o_simple_warmup default_options),
      o_no_duration := get_or (a_no_duration a) (o_no_duration default_options),
      o_stats_sinks := c_sinks c,
      o_stats_flush_interval := get_or (a_stats_flush_interval a) (o_stats_flush_interval default_options),
      o_stats_flush_interval_duration := c_flush_duration c,
      o_latency_response_header_name := get_or (a_latency_response_header_name a) (o_latency_response_header_name default_options)\<rparr>"

definition cli_finish :: "cli_late \<Rightarrow> cli_tunnel \<Rightarrow> OptionsImpl \<Rightarrow> OptionsImpl" where
  "cli_finish l t opt =
     opt\<lparr>o_tls_context := l_tls_context l, o_upstream_bind_config := l_upstream_bind_config l,
         o_transport_socket := l_transport_socket l, o_request_source_plugin_config := l_request_source_plugin_config l,
         o_rate_limiter_plugin_config := l_rate_limiter_plugin_config l,
         o_user_defined_output_plugin_configs := l_user_defined_output_plugin_configs l,
         o_tunnel_protocol := t_protocol t, o_tunnel_uri := t_uri t, o_encap_port := t_encap_port t,
         o_tunnel_tls_context := t_tls_context t\<rparr>"

definition OptionsImpl_of_cli :: "'z options_lib_scheme \<Rightarrow> cli_args \<Rightarrow> OptionsImpl result" where
  "OptionsImpl_of_cli lib a =
     result_bind (cli_parse lib a) (\<lambda>c.
     let opt = raisePendingRequestsForStreams (cli_members lib a c) in
     result_bind (throw_first (cli_caps opt)) (\<lambda>_.
     result_bind (cli_plugins lib a) (\<lambda>l.
     result_bind (cli_tunnel_options lib a) (\<lambda>t.
     let opt' = cli_finish l t opt in
     result_bind (validate lib opt') (\<lambda>_. Inr opt')))))"

subsection \<open>Properties\<close>

lemma bind_Inr_iff: "result_bind r f = Inr y \<longleftrightarrow> (\<exists>x. r = Inr x \<and> f x = Inr y)"
  by (cases r) auto

lemma cli_shape:
  assumes "OptionsImpl_of_cli lib a = Inr opt"
  obtains c l t where "cli_parse lib a = Inr c"
    "opt = cli_finish l t (raisePendingRequestsForStreams (cli_members lib a c))"
    "throw_first (cli_caps (raisePendingRequestsForStreams (cli_members lib a c))) = Inr ()"
    "validate lib opt = Inr ()"
  using assms that by (auto simp: OptionsImpl_of_cli_def Let_def bind_Inr_iff)

lemma raise_enough:
  assumes "streamModeEnabled opt" "stoi (o_concurrency opt) = StoiOk (int c)" "0 < c" "o_concurrency opt \<noteq> ''auto''"
  shows "o_streams opt div c \<le> o_max_pending_requests (raisePendingRequestsForStreams opt)"
  using assms by (auto simp: raisePendingRequestsForStreams_def parse_concurrency_def Let_def)

lemma stoi_auto: "stoi ''auto'' = StoiInvalid"
  by (simp add: stoi_def isspace_def digit_value_def)

lemma raise_keeps:
  "o_grpc_mode (raisePendingRequestsForStreams opt) = o_grpc_mode opt"
  "o_websocket (raisePendingRequestsForStreams opt) = o_websocket opt"
  "o_concurrency (raisePendingRequestsForStreams opt) = o_concurrency opt"
  "o_streams (raisePendingRequestsForStreams opt) = o_streams opt"
  by (simp_all add: raisePendingRequestsForStreams_def Let_def)

text \<open>
  C26: From the command line, the pending request limit of a stream mode always holds one worker's
  streams: whatever limit was given, the options accepted admit the streams of one worker to the pool's
  pending queue at once, and the limit is within the range checks.
\<close>

theorem cli_pending_holds_streams:
  assumes "OptionsImpl_of_cli lib a = Inr opt" "streamModeEnabled opt"
  shows "\<exists>workers. stoi (o_concurrency opt) = StoiOk (int workers) \<and> 0 < workers \<and>
           o_streams opt div workers \<le> o_max_pending_requests opt \<and>
           o_max_pending_requests opt \<le> largest_acceptable_uint32_option_value"
proof -
  from assms(1) obtain c l t where c: "cli_parse lib a = Inr c"
    "opt = cli_finish l t (raisePendingRequestsForStreams (cli_members lib a c))"
    "throw_first (cli_caps (raisePendingRequestsForStreams (cli_members lib a c))) = Inr ()"
    "validate lib opt = Inr ()" by (rule cli_shape)
  let ?m = "cli_members lib a c"
  obtain w where w: "stoi (o_concurrency opt) = StoiOk (int w)" "0 < w"
    using validate_stream_facts [OF c(4) assms(2)] by metis
  have eq: "o_concurrency opt = o_concurrency ?m" "o_streams opt = o_streams ?m" "streamModeEnabled ?m"
    "o_max_pending_requests opt = o_max_pending_requests (raisePendingRequestsForStreams ?m)"
    using c(2) assms(2) by (simp_all add: cli_finish_def raise_keeps streamModeEnabled_def grpcStreamEnabled_def)
  have "o_concurrency ?m \<noteq> ''auto''" using w(1) eq(1) stoi_auto by auto
  then have "o_streams ?m div w \<le> o_max_pending_requests (raisePendingRequestsForStreams ?m)"
    using raise_enough [OF eq(3)] w eq(1) by simp
  moreover have "o_max_pending_requests (raisePendingRequestsForStreams ?m) \<le> largest_acceptable_uint32_option_value"
    using c(3) by (simp add: cli_caps_def split: if_splits)
  ultimately show ?thesis using w eq by auto
qed



end
