(* ===== verification/OptionsExamples.thy ===== *)
theory OptionsExamples
  imports OptionsCli
begin

text \<open>
  Concrete options, arguments and messages, on which the properties of the options are instantiated.
\<close>


definition sample_options_lib :: options_lib where
  "sample_options_lib = third_party.extend sample_lib
     \<lparr>validateOptions = (\<lambda>_. None), GetAvailablePort = (\<lambda>_ _. Inr 10000), read_file = (\<lambda>_. NotOpened)\<rparr>"

definition sample_options :: "nat \<Rightarrow> OptionsImpl" where
  "sample_options n = default_options\<lparr>o_uri := Some ''http://h'', o_grpc_mode := BIDI_STREAM, o_protocol := HTTP2,
     o_request_method := POST, o_concurrency := ''2'', o_streams := 4, o_requests_per_second := 6, o_max_pending_requests := n\<rparr>"

lemmas options_eval = sample_options_lib_def third_party.defs sample_lib_def

lemma sample_uri: "(mk_UriImpl sample_options_lib ''http://h'' ''http'' :: unit UriImpl result) =
  Inr \<lparr>host_and_port = ''h:80'', host_without_port = ''h'', uri_path = ''/'', uri_port = 80,
          uri_scheme = ''http'', uri_address = None, resolve_attempted = False\<rparr>"
  by (simp add: mk_UriImpl_def options_eval split_uri_def findPortSeparator_def str_rfind_def default_port_def
          UriImpl_isValid_def lower_char_def show_nat.simps digit_char_def char_of_def bit_0)

lemma sample_stoi: "stoi ''2'' = StoiOk 2"
  by (simp add: stoi_def isspace_def digit_value_def)

lemma sample_validate: "validate sample_options_lib (sample_options n) = Inr ()"
  by (simp add: validate_def validate_modes_def validate_streams_def validate_concurrency_def validate_request_source_def
    validate_target_def validate_udp_def validate_tcp_def sample_options_def default_options_eq OptionsImpl_members_def
    grpcEnabled_def streamModeEnabled_def grpcStreamEnabled_def parse_concurrency_def sample_stoi sample_uri
    toCommandLineOptions_def request_options_of_def Let_def no_plain_request_def
    ; simp add: sample_options_lib_def third_party.defs)

definition sample_message :: "nat \<Rightarrow> CommandLineOptions" where
  "sample_message n = message_of sample_options_lib (sample_options n) (RequestOptions_set
     \<lparr>ro_request_method = POST, ro_request_headers = [], ro_request_body_size = Some 0, ro_request_body = []\<rparr>)"

lemma sample_request: "request_options_of sample_options_lib (sample_options n) = Inr (RequestOptions_set
     \<lparr>ro_request_method = POST, ro_request_headers = [], ro_request_body_size = Some 0, ro_request_body = []\<rparr>)"
  by (simp add: request_options_of_def sample_options_def default_options_eq OptionsImpl_members_def)

lemma sample_time: "protobuf_time_documented sample_options_lib"
  by (simp add: protobuf_time_documented_def options_eval one_second_def)

lemma sample_not_raw: "isTcpUri sample_options_lib ''http://h'' = False" "isUdpUri sample_options_lib ''http://h'' = False"
  by (simp_all add: isTcpUri_def isUdpUri_def options_eval lower_char_def)

lemma sample_plain:
  "plain_modes (sample_options n)" "plain_request sample_options_lib (sample_options n)"
  "plain_target sample_options_lib (sample_options n)" "plain_values (sample_options n)"
  by (simp_all add: sample_not_raw plain_modes_def plain_request_def plain_target_def plain_values_def sample_options_def default_options_eq
      OptionsImpl_members_def streamModeEnabled_def grpcStreamEnabled_def default_failure_predicates_def zero_duration_def)


theorem stream_mode_shares_exact_witness:
  "\<exists>rate. perWorkerRequestsPerSecond (sample_options 2) = Inr rate \<and> rate * 2 = 6"
proof -
  have "streamModeEnabled (sample_options 2)" "o_concurrency (sample_options 2) = ''2''"
    "o_requests_per_second (sample_options 2) = 6"
    by (simp_all add: sample_options_def streamModeEnabled_def grpcStreamEnabled_def)
  then show ?thesis using stream_mode_shares_exact [OF sample_validate, of 2] sample_stoi by auto
qed



definition sample_args :: cli_args where
  "sample_args =
     \<lparr>a_requests_per_second = Some 6, a_connections = None, a_duration = None, a_no_duration = None,
      a_timeout = None, a_uri = Some ''http://h'', a_h2 = None, a_protocol = None,
      a_h2_use_multiple_connections = None, a_grpc_mode = Some BIDI_STREAM, a_websocket = False,
      a_websocket_binary = False, a_tcp_connections = None, a_tcp_max_inflight = None, a_tcp_no_echo = False,
      a_tcp_max_messages = None, a_udp_max_inflight = None, a_udp_timeout = None, a_streams = Some 4,
      a_max_inflight_per_stream = None, a_stream_drain_duration = None, a_concurrency = Some ''2'',
      a_http3_protocol_options = [], a_verbosity = None, a_output_format = None,
      a_prefetch_connections = None, a_burst_size = None, a_address_family = None, a_request_method = None,
      a_request_headers = None, a_request_body_size = None, a_request_body_file = None,
      a_max_pending_requests = None, a_max_active_requests = None, a_max_requests_per_connection = None,
      a_max_concurrent_streams = None, a_sequencer_idle_strategy = None, a_request_source = None,
      a_h1_connection_reuse_strategy = None, a_trace = None, a_termination_predicates = None,
      a_no_default_failure_predicates = None, a_failure_predicates = None, a_open_loop = None,
      a_jitter_uniform = None, a_nighthawk_service = None, a_multi_target_use_https = None,
      a_multi_target_path = None, a_multi_target_endpoints = None, a_labels = None, a_simple_warmup = None,
      a_stats_sinks = None, a_stats_flush_interval = None, a_stats_flush_interval_duration = None,
      a_latency_response_header_name = None, a_tls_context = [], a_upstream_bind_config = [],
      a_transport_socket = [], a_request_source_plugin_config = [], a_rate_limiter_plugin_config = [],
      a_user_defined_output_plugin_configs = [], a_tunnel_protocol = None, a_tunnel_uri = None,
      a_tunnel_tls_context = None\<rparr>"

definition sample_parsed :: cli_parsed where
  "sample_parsed = \<lparr>c_udp_timeout = one_second, c_stream_drain = 500 * one_millisecond, c_http3 = None, c_body = [],
     c_termination_predicates = Map.empty, c_failure_predicates = default_failure_predicates, c_jitter = 0, c_endpoints = [],
     c_sinks = [], c_flush_duration = zero_duration\<rparr>"

definition sample_late :: cli_late where
  "sample_late = \<lparr>l_tls_context = [], l_upstream_bind_config = None, l_transport_socket = None,
            l_request_source_plugin_config = None, l_rate_limiter_plugin_config = None,
            l_user_defined_output_plugin_configs = []\<rparr>"

definition sample_tunnel :: cli_tunnel where
  "sample_tunnel = \<lparr>t_protocol = HTTP1, t_uri = [], t_encap_port = 0, t_tls_context = None\<rparr>"

lemma sample_stages:
  "cli_parse sample_options_lib sample_args = Inr sample_parsed"
  "cli_plugins sample_options_lib sample_args = Inr sample_late"
  "cli_tunnel_options sample_options_lib sample_args = Inr sample_tunnel"
  by (simp_all add: cli_parse_def sample_args_def cli_exclusive_def cli_udp_timeout_def cli_stream_drain_def cli_http3_def
      cli_body_def parsePredicates_def cli_failure_predicates_def cli_jitter_def cli_flush_duration_def sample_parsed_def
      cli_plugins_def sample_late_def load_optional_json_def cli_tunnel_options_def sample_tunnel_def)

lemma sample_members:
  "cli_finish sample_late sample_tunnel (raisePendingRequestsForStreams (cli_members sample_options_lib sample_args sample_parsed)) =
     (sample_options 2)\<lparr>o_verbosity := INFO, o_output_format := HUMAN\<rparr>"
  "throw_first (cli_caps (raisePendingRequestsForStreams (cli_members sample_options_lib sample_args sample_parsed))) = Inr ()"
  by (simp_all add: cli_finish_def raisePendingRequestsForStreams_def cli_members_def sample_args_def sample_parsed_def
     sample_late_def sample_tunnel_def default_options_eq OptionsImpl_members_def sample_options_def cli_grpc_mode_def cli_protocol_def
     streamModeEnabled_def grpcStreamEnabled_def parse_concurrency_def sample_stoi sample_not_raw cli_caps_def
     largest_acceptable_uint32_option_value_def largest_acceptable_concurrent_streams_value_def Let_def)

lemma sample_cli_validate: "validate sample_options_lib ((sample_options 2)\<lparr>o_verbosity := INFO, o_output_format := HUMAN\<rparr>) = Inr ()"
  by (simp add: validate_def validate_modes_def validate_streams_def validate_concurrency_def validate_request_source_def
    validate_target_def validate_udp_def validate_tcp_def sample_options_def default_options_eq OptionsImpl_members_def
    grpcEnabled_def streamModeEnabled_def grpcStreamEnabled_def parse_concurrency_def sample_stoi sample_uri
    toCommandLineOptions_def request_options_of_def Let_def no_plain_request_def
    ; simp add: sample_options_lib_def third_party.defs)

theorem cli_pending_holds_streams_witness:
  "\<exists>opt. OptionsImpl_of_cli sample_options_lib sample_args = Inr opt \<and> streamModeEnabled opt \<and>
     a_max_pending_requests sample_args = None \<and> o_streams opt div 2 \<le> o_max_pending_requests opt"
proof -
  let ?opt = "(sample_options 2)\<lparr>o_verbosity := INFO, o_output_format := HUMAN\<rparr>"
  have acc: "OptionsImpl_of_cli sample_options_lib sample_args = Inr ?opt"
    by (simp add: OptionsImpl_of_cli_def sample_stages sample_members sample_cli_validate Let_def)
  have st: "streamModeEnabled ?opt" "o_concurrency ?opt = ''2''"
    by (simp_all add: sample_options_def streamModeEnabled_def grpcStreamEnabled_def)
  have "o_streams ?opt div 2 \<le> o_max_pending_requests ?opt"
    using cli_pending_holds_streams [OF acc st(1)] st(2) sample_stoi by auto
  then show ?thesis using acc st(1) by (intro exI [of _ ?opt]) (simp add: sample_args_def)
qed

end
