(* ===== verification/LimiterStacks.thy ===== *)
theory LimiterStacks
  imports LimiterFilters OptionsExamples
begin

text \<open>
  The limiters a worker really gets: \<^verbatim>\<open>SequencerFactoryImpl::create\<close> in
  \<^verbatim>\<open>source/client/factories_impl.cc\<close> stacks a scheduled start, bursts and jitter over the linear limiter,
  or a scheduled start over a plugin. Every stack is shown to keep the rate limiter contract and the
  account of the acquisitions, by instantiating the wrapper lemmas layer by layer.
\<close>

subsection \<open>Accounts through the wrappers\<close>

lemma insert_timing_Cons: "insert_timing x xs = y # ys \<Longrightarrow> length ys = length xs"
  by (metis length_insert_timing length_Cons old.nat.inject)

context counted_reopenable
begin

lemma scheduled_counted:
  "counted_reopenable (scheduled_tryAcquireOne try_acquire) (scheduled_releaseOne release)
     (scheduled_elapsed elapsed) (scheduled_timeUntilNextRelease wait) (scheduled_ok valid (\<lambda>s. taken s = 0))
     (scheduled_budget budget) (\<lambda>s. taken (sched_inner s))
     (\<lambda>t s. if t < scheduled_starting_time s then 0 else allowance t (sched_inner s)) (scheduled_opened opened)"
proof (intro counted_reopenable.intro counted_limiter.intro counted_limiter_axioms.intro, goal_cases)
  case 1
  have "reopenable_limiter (scheduled_tryAcquireOne try_acquire) (scheduled_releaseOne release)
     (scheduled_elapsed elapsed) (scheduled_timeUntilNextRelease wait) (scheduled_ok valid (\<lambda>s. taken s = 0))
     (scheduled_budget budget) (scheduled_opened opened)"
    by (rule scheduled_contract) (simp add: taken_elapsed)
  then show ?case by (rule reopenable_limiter.axioms(1))
next
  case (2 t s ts r s') then show ?case using taken_try [of t "sched_inner s" ts]
    by (auto simp: scheduled_defs split: prod.splits if_splits)
next
  case (3 ts s s') then show ?case using taken_release [of ts "sched_inner s"]
    by (cases "release ts (sched_inner s)") (auto simp: scheduled_defs split: if_splits)
next
  case (4 ts s) then show ?case using taken_elapsed [of ts "sched_inner s"]
    by (auto simp: scheduled_defs split: prod.splits)
next
  case (5 t s) then show ?case using taken_bound [of t "sched_inner s"] by (auto simp: scheduled_defs)
next
  case 6 show ?case by (rule scheduled_contract) (simp add: taken_elapsed)
qed

lemma accumulate_taken:
  assumes "valid (monotonicTime ts) (burst_inner b)" "bursting_accumulate (try_acquire ts) b = (r, b')"
  shows "taken (burst_inner b') - int (accumulated b') = taken (burst_inner b) - int (accumulated b) + of_bool r"
  using assms
proof (induction "try_acquire ts" b rule: bursting_accumulate.induct)
  case (1 b)
  obtain ok i where tr: "try_acquire ts (burst_inner b) = (ok, i)" by fastforce
  have val: "valid (monotonicTime ts) i" using valid_try_now [OF "1.prems"(1)] tr by simp
  have tk: "taken i = taken (burst_inner b) + of_bool ok" using taken_try [OF "1.prems"(1) _ tr] by simp
  show ?case
    using "1.prems"(2) "1.hyps" [OF tr [symmetric] refl _ refl] tk val tr
    by (subst (asm) bursting_accumulate.simps) (auto simp: bursting_release_step_def Let_def split: if_splits)
qed

lemma bursting_counted:
  "counted_reopenable (bursting_tryAcquireOne try_acquire) bursting_releaseOne
     (bursting_elapsed elapsed) (bursting_timeUntilNextRelease wait) (bursting_ok valid)
     (bursting_budget budget) (\<lambda>b. taken (burst_inner b) - int (accumulated b))
     (\<lambda>t b. allowance t (burst_inner b)) (\<lambda>_ _. True)"
proof (intro counted_reopenable.intro counted_limiter.intro counted_limiter_axioms.intro, goal_cases)
  case 1 show ?case by (rule reopenable_limiter.axioms(1) [OF bursting_contract])
next
  case (2 t b ts r b')
  have ok: "bursting_ok valid (monotonicTime ts) b" using 2 bursting_ok_later by blast
  show ?case
  proof (cases "releasing b")
    case True
    then show ?thesis using 2(3) ok by (auto simp: bursting_tryAcquireOne_def bursting_release_step_def bursting_ok_def)
  next
    case False
    then show ?thesis using 2(3) ok accumulate_taken [of ts "b\<lparr>previously_releasing := Some False\<rparr>" r b']
      by (auto simp: bursting_tryAcquireOne_def bursting_ok_def)
  qed
next
  case (4 ts s) then show ?case using taken_elapsed [of ts "burst_inner s"]
    by (auto simp: bursting_elapsed_def split: prod.splits)
next
  case (5 t b) then show ?case using taken_bound [of t "burst_inner b"] by (auto simp: bursting_ok_def)
next
  case 6 show ?case by (rule bursting_contract)
qed (auto simp: bursting_releaseOne_def)

lemma delegating_counted:
  "counted_limiter (delegating_tryAcquireOne try_acquire delegate) (delegating_releaseOne release)
     (delegating_elapsed elapsed) (delegating_timeUntilNextRelease wait) (delegating_ok valid opened)
     (delegating_budget budget) (\<lambda>d. taken (deleg_inner d) - int (length (distributed_timings d)))
     (\<lambda>t d. allowance t (deleg_inner d))"
proof (intro counted_limiter.intro counted_limiter_axioms.intro, goal_cases)
  case 1 show ?case by (rule delegating_contract)
next
  case (2 t d ts r d')
  obtain ok i where tr: "try_acquire ts (deleg_inner d) = (ok, i)" by fastforce
  have "taken i = taken (deleg_inner d) + of_bool ok"
    using 2 taken_try [of t "deleg_inner d" ts ok i] tr by (simp add: delegating_ok_def)
  then show ?case using 2(3) tr
    by (auto simp: delegating_tryAcquireOne_def Let_def neq_Nil_conv insert_timing_Cons split: prod.splits if_splits)
next
  case (3 ts s s') then show ?case using taken_release [of ts "deleg_inner s"]
    by (cases "release ts (deleg_inner s)") (auto simp: delegating_releaseOne_def split: if_splits)
next
  case (4 ts s) then show ?case using taken_elapsed [of ts "deleg_inner s"]
    by (auto simp: delegating_elapsed_def split: prod.splits)
next
  case (5 t d) then show ?case using taken_bound [of t "deleg_inner d"] by (auto simp: delegating_ok_def)
qed

end

subsection \<open>The factory's stacks keep the contract\<close>

definition linear_allowance :: "nanos \<Rightarrow> LinearRateLimiter \<Rightarrow> int" where
  "linear_allowance t l = linear_due (freq_hertz (frequency l)) (since (lin_base l) t)"

definition ramping_allowance :: "nanos \<Rightarrow> LinearRampingRateLimiter \<Rightarrow> int" where
  "ramping_allowance t l = ramping_total l (since (ramp_base l) t)"

interpretation linc: counted_reopenable linear_tryAcquireOne linear_releaseOne linear_elapsed
  linear_timeUntilNextRelease linear_ok linear_budget acquired_count linear_allowance "\<lambda>_ _. True"
proof (unfold_locales, goal_cases)
  case (1 t s ts r s') then show ?case by (rule linear_try_acquired)
next
  case (4 t s)
  then obtain h where "0 < h" "frequency s = mk_Frequency h" by (rule linear_ok_frequency)
  then show ?case using linear_ok_due [OF 4] by (simp add: linear_allowance_def)
qed (auto simp: linear_releaseOne_def linear_elapsed_def split: prod.split)

interpretation rampc: counted_reopenable ramping_tryAcquireOne ramping_releaseOne ramping_elapsed
  ramping_timeUntilNextRelease ramping_ok ramping_budget ramp_acquired_count ramping_allowance "\<lambda>_ _. True"
proof (unfold_locales, goal_cases)
  case (1 t s ts r s') then show ?case by (rule ramping_try_acquired(1))
next
  case (4 t s) then show ?case by (auto simp: ramping_ok_def ramping_allowance_def)
qed (auto simp: ramping_releaseOne_def ramping_elapsed_def split: prod.split)

type_synonym scheduled_linear = "LinearRateLimiter ScheduledStartingRateLimiter"
type_synonym scheduled_ramping = "LinearRampingRateLimiter ScheduledStartingRateLimiter"

interpretation sl: counted_reopenable "scheduled_tryAcquireOne linear_tryAcquireOne" "scheduled_releaseOne linear_releaseOne"
  "scheduled_elapsed linear_elapsed" "scheduled_timeUntilNextRelease linear_timeUntilNextRelease"
  "scheduled_ok linear_ok (\<lambda>l. acquired_count l = 0)" "scheduled_budget linear_budget" "\<lambda>s. acquired_count (sched_inner s)"
  "\<lambda>t s. if t < scheduled_starting_time s then 0 else linear_allowance t (sched_inner s)" "scheduled_opened (\<lambda>_ _. True)"
  by (rule linc.scheduled_counted)

interpretation sr: counted_reopenable "scheduled_tryAcquireOne ramping_tryAcquireOne" "scheduled_releaseOne ramping_releaseOne"
  "scheduled_elapsed ramping_elapsed" "scheduled_timeUntilNextRelease ramping_timeUntilNextRelease"
  "scheduled_ok ramping_ok (\<lambda>l. ramp_acquired_count l = 0)" "scheduled_budget ramping_budget" "\<lambda>s. ramp_acquired_count (sched_inner s)"
  "\<lambda>t s. if t < scheduled_starting_time s then 0 else ramping_allowance t (sched_inner s)" "scheduled_opened (\<lambda>_ _. True)"
  by (rule rampc.scheduled_counted)

interpretation bl: counted_reopenable "bursting_tryAcquireOne (scheduled_tryAcquireOne linear_tryAcquireOne)" bursting_releaseOne
  "bursting_elapsed (scheduled_elapsed linear_elapsed)"
  "bursting_timeUntilNextRelease (scheduled_timeUntilNextRelease linear_timeUntilNextRelease)"
  "bursting_ok (scheduled_ok linear_ok (\<lambda>l. acquired_count l = 0))" "bursting_budget (scheduled_budget linear_budget)"
  "\<lambda>b. acquired_count (sched_inner (burst_inner b)) - int (accumulated b)"
  "\<lambda>t b. if t < scheduled_starting_time (burst_inner b) then 0 else linear_allowance t (sched_inner (burst_inner b))" "\<lambda>_ _. True"
  by (rule sl.bursting_counted)

interpretation dl: counted_limiter "delegating_tryAcquireOne (scheduled_tryAcquireOne linear_tryAcquireOne) delegate"
  "delegating_releaseOne (scheduled_releaseOne linear_releaseOne)" "delegating_elapsed (scheduled_elapsed linear_elapsed)"
  "delegating_timeUntilNextRelease (scheduled_timeUntilNextRelease linear_timeUntilNextRelease)"
  "delegating_ok (scheduled_ok linear_ok (\<lambda>l. acquired_count l = 0)) (scheduled_opened (\<lambda>_ _. True))"
  "delegating_budget (scheduled_budget linear_budget)"
  "\<lambda>d. acquired_count (sched_inner (deleg_inner d)) - int (length (distributed_timings d))"
  "\<lambda>t d. if t < scheduled_starting_time (deleg_inner d) then 0 else linear_allowance t (sched_inner (deleg_inner d))"
  for delegate :: "'g \<Rightarrow> nat \<times> 'g"
  by (rule sl.delegating_counted)

interpretation db: counted_limiter "delegating_tryAcquireOne (bursting_tryAcquireOne (scheduled_tryAcquireOne linear_tryAcquireOne)) delegate"
  "delegating_releaseOne bursting_releaseOne" "delegating_elapsed (bursting_elapsed (scheduled_elapsed linear_elapsed))"
  "delegating_timeUntilNextRelease (bursting_timeUntilNextRelease (scheduled_timeUntilNextRelease linear_timeUntilNextRelease))"
  "delegating_ok (bursting_ok (scheduled_ok linear_ok (\<lambda>l. acquired_count l = 0))) (\<lambda>_ _. True)"
  "delegating_budget (bursting_budget (scheduled_budget linear_budget))"
  "\<lambda>d. acquired_count (sched_inner (burst_inner (deleg_inner d))) - int (accumulated (deleg_inner d)) - int (length (distributed_timings d))"
  "\<lambda>t d. if t < scheduled_starting_time (burst_inner (deleg_inner d)) then 0
          else linear_allowance t (sched_inner (burst_inner (deleg_inner d)))"
  for delegate :: "'g \<Rightarrow> nat \<times> 'g"
  by (rule bl.delegating_counted)

text \<open>The filters, which no factory of the engine builds, over the linear limiter.\<close>

interpretation gl: reopenable_limiter "filtering_tryAcquireOne linear_tryAcquireOne (gradual_filter linear_elapsed getValue)"
  "filtering_releaseOne linear_releaseOne" "filtering_elapsed linear_elapsed"
  "filtering_timeUntilNextRelease linear_timeUntilNextRelease" "filtering_ok linear_ok" "filtering_budget linear_budget"
  "\<lambda>t s. True" for getValue :: "'g \<Rightarrow> nat \<times> 'g"
  by (rule lin.filtering_contract [OF gradual_filter_harmless])

interpretation zl: reopenable_limiter "filtering_tryAcquireOne linear_tryAcquireOne (zipf_filter dist_mt dist_g)"
  "filtering_releaseOne linear_releaseOne" "filtering_elapsed linear_elapsed"
  "filtering_timeUntilNextRelease linear_timeUntilNextRelease" "filtering_ok linear_ok" "filtering_budget linear_budget"
  "\<lambda>t s. True" for dist_mt :: "'m \<Rightarrow> nat \<times> 'm" and dist_g :: "'g \<Rightarrow> nat \<times> 'g"
  by (rule lin.filtering_contract [OF zipf_filter_harmless])

subsection \<open>The factory\<close>

datatype 'g limiter_stack =
    PluginStack scheduled_ramping
  | LinearStack scheduled_linear
  | BurstStack "scheduled_linear BurstingRateLimiter"
  | JitterStack "(scheduled_linear, 'g) DelegatingRateLimiter"
  | JitterBurstStack "(scheduled_linear BurstingRateLimiter, 'g) DelegatingRateLimiter"

text \<open>
  \<open>decode\<close> gives the name of a plugin configuration and the ramp time of its unpacked payload; the
  registry holds the one plugin of the engine. An \<open>EnvoyException\<close> is turned into a status, and by the
  caller into a \<open>NighthawkException\<close>; other exceptions pass through.
\<close>

definition LoadRateLimiterPlugin ::
  "(message \<Rightarrow> string \<times> (int \<times> int) option) \<Rightarrow> OptionsImpl \<Rightarrow> message \<Rightarrow> LinearRampingRateLimiter result" where
  "LoadRateLimiterPlugin decode opt config =
     (let (name, ramp) = decode config;
          loaded = (if name \<noteq> ''nighthawk.linear-ramping-rate-limiter-plugin'' then Inl (EnvoyException ''no such factory'')
                    else if ramp = None then createRateLimiterPlugin ramp (o_no_duration opt) 0 0
                    else result_bind (perWorkerRequestsPerSecond opt)
                           (createRateLimiterPlugin ramp (o_no_duration opt) (int (o_duration opt) * one_second)))
      in case loaded of
           Inl (EnvoyException e) \<Rightarrow>
             Inl (NighthawkException (''Rate Limiter plugin loading error: Could not load plugin: '' @ name @ '': '' @ e))
         | r \<Rightarrow> r)"

text \<open>\<open>sampler\<close> builds \<^verbatim>\<open>UniformRandomDistributionSamplerImpl\<close> for an upper bound.\<close>

definition create_rate_limiter ::
  "(message \<Rightarrow> string \<times> (int \<times> int) option) \<Rightarrow> (nat \<Rightarrow> 'g) \<Rightarrow> nanos \<Rightarrow> OptionsImpl \<Rightarrow> 'g limiter_stack result" where
  "create_rate_limiter decode sampler scheduled_start opt =
     (case o_rate_limiter_plugin_config opt of
        Some config \<Rightarrow>
          result_bind (LoadRateLimiterPlugin decode opt config) (\<lambda>l.
            Inr (PluginStack (mk_ScheduledStartingRateLimiter l scheduled_start)))
      | None \<Rightarrow>
          result_bind (perWorkerRequestsPerSecond opt) (\<lambda>rps.
          result_bind (mk_LinearRateLimiter (mk_Frequency rps)) (\<lambda>l.
            let limiter = mk_ScheduledStartingRateLimiter l scheduled_start;
                jitter = o_jitter_uniform opt
            in if o_burst_size opt \<noteq> 0 then
                 let bursting = mk_BurstingRateLimiter limiter (o_burst_size opt)
                 in Inr (if jitter > 0 then JitterBurstStack (mk_DelegatingRateLimiter bursting (sampler (nat jitter)))
                         else BurstStack bursting)
               else Inr (if jitter > 0 then JitterStack (mk_DelegatingRateLimiter limiter (sampler (nat jitter)))
                         else LinearStack limiter))))"

fun stack_tryAcquireOne :: "('g \<Rightarrow> nat \<times> 'g) \<Rightarrow> time_source \<Rightarrow> 'g limiter_stack \<Rightarrow> bool \<times> 'g limiter_stack" where
  "stack_tryAcquireOne gen ts (PluginStack s) =
     map_prod id PluginStack (scheduled_tryAcquireOne ramping_tryAcquireOne ts s)"
| "stack_tryAcquireOne gen ts (LinearStack s) =
     map_prod id LinearStack (scheduled_tryAcquireOne linear_tryAcquireOne ts s)"
| "stack_tryAcquireOne gen ts (BurstStack b) =
     map_prod id BurstStack (bursting_tryAcquireOne (scheduled_tryAcquireOne linear_tryAcquireOne) ts b)"
| "stack_tryAcquireOne gen ts (JitterStack d) =
     map_prod id JitterStack (distribution_sampling_tryAcquireOne (scheduled_tryAcquireOne linear_tryAcquireOne) gen ts d)"
| "stack_tryAcquireOne gen ts (JitterBurstStack d) =
     map_prod id JitterBurstStack
       (distribution_sampling_tryAcquireOne (bursting_tryAcquireOne (scheduled_tryAcquireOne linear_tryAcquireOne)) gen ts d)"

fun stack_releaseOne :: "time_source \<Rightarrow> 'g limiter_stack \<Rightarrow> 'g limiter_stack result" where
  "stack_releaseOne ts (PluginStack s) = result_bind (scheduled_releaseOne ramping_releaseOne ts s) (Inr \<circ> PluginStack)"
| "stack_releaseOne ts (LinearStack s) = result_bind (scheduled_releaseOne linear_releaseOne ts s) (Inr \<circ> LinearStack)"
| "stack_releaseOne ts (BurstStack b) = result_bind (bursting_releaseOne ts b) (Inr \<circ> BurstStack)"
| "stack_releaseOne ts (JitterStack d) =
     result_bind (delegating_releaseOne (scheduled_releaseOne linear_releaseOne) ts d) (Inr \<circ> JitterStack)"
| "stack_releaseOne ts (JitterBurstStack d) =
     result_bind (delegating_releaseOne bursting_releaseOne ts d) (Inr \<circ> JitterBurstStack)"

fun stack_elapsed :: "time_source \<Rightarrow> 'g limiter_stack \<Rightarrow> nanos \<times> 'g limiter_stack" where
  "stack_elapsed ts (PluginStack s) = map_prod id PluginStack (scheduled_elapsed ramping_elapsed ts s)"
| "stack_elapsed ts (LinearStack s) = map_prod id LinearStack (scheduled_elapsed linear_elapsed ts s)"
| "stack_elapsed ts (BurstStack b) = map_prod id BurstStack (bursting_elapsed (scheduled_elapsed linear_elapsed) ts b)"
| "stack_elapsed ts (JitterStack d) = map_prod id JitterStack (delegating_elapsed (scheduled_elapsed linear_elapsed) ts d)"
| "stack_elapsed ts (JitterBurstStack d) =
     map_prod id JitterBurstStack (delegating_elapsed (bursting_elapsed (scheduled_elapsed linear_elapsed)) ts d)"

fun stack_timeUntilNextRelease :: "time_source \<Rightarrow> 'g limiter_stack \<Rightarrow> nanos option" where
  "stack_timeUntilNextRelease ts (PluginStack s) = scheduled_timeUntilNextRelease ramping_timeUntilNextRelease ts s"
| "stack_timeUntilNextRelease ts (LinearStack s) = scheduled_timeUntilNextRelease linear_timeUntilNextRelease ts s"
| "stack_timeUntilNextRelease ts (BurstStack b) =
     bursting_timeUntilNextRelease (scheduled_timeUntilNextRelease linear_timeUntilNextRelease) ts b"
| "stack_timeUntilNextRelease ts (JitterStack d) =
     delegating_timeUntilNextRelease (scheduled_timeUntilNextRelease linear_timeUntilNextRelease) ts d"
| "stack_timeUntilNextRelease ts (JitterBurstStack d) =
     delegating_timeUntilNextRelease (bursting_timeUntilNextRelease
       (scheduled_timeUntilNextRelease linear_timeUntilNextRelease)) ts d"

text \<open>Well-formedness, budget and account of a stack: those of the wrappers, layer by layer.\<close>

fun stack_ok :: "nanos \<Rightarrow> 'g limiter_stack \<Rightarrow> bool" where
  "stack_ok t (PluginStack s) = scheduled_ok ramping_ok (\<lambda>l. ramp_acquired_count l = 0) t s"
| "stack_ok t (LinearStack s) = scheduled_ok linear_ok (\<lambda>l. acquired_count l = 0) t s"
| "stack_ok t (BurstStack b) = bursting_ok (scheduled_ok linear_ok (\<lambda>l. acquired_count l = 0)) t b"
| "stack_ok t (JitterStack d) =
     delegating_ok (scheduled_ok linear_ok (\<lambda>l. acquired_count l = 0)) (scheduled_opened (\<lambda>_ _. True)) t d"
| "stack_ok t (JitterBurstStack d) =
     delegating_ok (bursting_ok (scheduled_ok linear_ok (\<lambda>l. acquired_count l = 0))) (\<lambda>_ _. True) t d"

fun stack_budget :: "time_source \<Rightarrow> 'g limiter_stack \<Rightarrow> nat" where
  "stack_budget ts (PluginStack s) = scheduled_budget ramping_budget ts s"
| "stack_budget ts (LinearStack s) = scheduled_budget linear_budget ts s"
| "stack_budget ts (BurstStack b) = bursting_budget (scheduled_budget linear_budget) ts b"
| "stack_budget ts (JitterStack d) = delegating_budget (scheduled_budget linear_budget) ts d"
| "stack_budget ts (JitterBurstStack d) = delegating_budget (bursting_budget (scheduled_budget linear_budget)) ts d"

fun stack_taken :: "'g limiter_stack \<Rightarrow> int" where
  "stack_taken (PluginStack s) = ramp_acquired_count (sched_inner s)"
| "stack_taken (LinearStack s) = acquired_count (sched_inner s)"
| "stack_taken (BurstStack b) = acquired_count (sched_inner (burst_inner b)) - int (accumulated b)"
| "stack_taken (JitterStack d) = acquired_count (sched_inner (deleg_inner d)) - int (length (distributed_timings d))"
| "stack_taken (JitterBurstStack d) =
     acquired_count (sched_inner (burst_inner (deleg_inner d))) - int (accumulated (deleg_inner d)) -
       int (length (distributed_timings d))"

definition linear_layer_allowance :: "nanos \<Rightarrow> scheduled_linear \<Rightarrow> int" where
  "linear_layer_allowance t s = (if t < scheduled_starting_time s then 0 else linear_allowance t (sched_inner s))"

fun stack_allowance :: "nanos \<Rightarrow> 'g limiter_stack \<Rightarrow> int" where
  "stack_allowance t (PluginStack s) = (if t < scheduled_starting_time s then 0 else ramping_allowance t (sched_inner s))"
| "stack_allowance t (LinearStack s) = linear_layer_allowance t s"
| "stack_allowance t (BurstStack b) = linear_layer_allowance t (burst_inner b)"
| "stack_allowance t (JitterStack d) = linear_layer_allowance t (deleg_inner d)"
| "stack_allowance t (JitterBurstStack d) = linear_layer_allowance t (burst_inner (deleg_inner d))"

lemma sampling_is_delegating: "distribution_sampling_tryAcquireOne try gen = delegating_tryAcquireOne try gen"
  by (simp add: distribution_sampling_tryAcquireOne_def)

lemma map_prod_id_eq: "map_prod id C p = (r, s') \<longleftrightarrow> (\<exists>x. p = (r, x) \<and> s' = C x)"
  by (cases p) auto

lemma result_bind_inject:
  "result_bind r (Inr \<circ> C) = Inr s' \<longleftrightarrow> (\<exists>x. r = Inr x \<and> s' = C x)"
  "is_ok (result_bind r (Inr \<circ> C)) = is_ok r"
  by (cases r; auto)+

lemmas stack_simps = sampling_is_delegating map_prod_id_eq result_bind_inject linear_layer_allowance_def

interpretation stack: counted_limiter "stack_tryAcquireOne gen" stack_releaseOne stack_elapsed stack_timeUntilNextRelease
  stack_ok stack_budget stack_taken stack_allowance for gen :: "'g \<Rightarrow> nat \<times> 'g"
proof (unfold_locales, goal_cases)
  case (1 t s t') then show ?case
    by (cases s) (auto simp: stack_simps dest: sr.valid_later sl.valid_later bl.valid_later dl.valid_later db.valid_later)
next
  case (2 t s ts) then show ?case
    by (cases s) (auto simp: stack_simps dest: sr.valid_try sl.valid_try bl.valid_try dl.valid_try db.valid_try)
next
  case (3 t s ts s') then show ?case
    by (cases s) (auto simp: stack_simps dest: sr.valid_release sl.valid_release bl.valid_release dl.valid_release db.valid_release)
next
  case (4 t s ts) then show ?case
    by (cases s) (auto simp: stack_simps dest: sr.valid_elapsed sl.valid_elapsed bl.valid_elapsed dl.valid_elapsed db.valid_elapsed)
next
  case (5 t s ts s') then show ?case
    by (cases s) (auto simp: stack_simps dest: sr.success_release_ok sl.success_release_ok bl.success_release_ok dl.success_release_ok db.success_release_ok)
next
  case (6 ts s d) then show ?case
    by (cases s) (auto simp: stack_simps dest: sr.wait_nonneg sl.wait_nonneg bl.wait_nonneg dl.wait_nonneg db.wait_nonneg)
next
  case (7 ts s d ts') then show ?case
    by (cases s) (auto simp: stack_simps dest: sr.wait_lower_bound sl.wait_lower_bound bl.wait_lower_bound dl.wait_lower_bound db.wait_lower_bound)
next
  case (8 t s ts s') then show ?case
    by (cases s) (auto simp: stack_simps dest: sr.budget_success sl.budget_success bl.budget_success dl.budget_success db.budget_success)
next
  case (9 t s ts s') then show ?case
    by (cases s) (auto simp: stack_simps dest: sr.budget_failure sl.budget_failure bl.budget_failure dl.budget_failure db.budget_failure)
next
  case (10 t s ts) then show ?case
    by (cases s) (auto simp: stack_simps dest: sr.budget_elapsed sl.budget_elapsed bl.budget_elapsed dl.budget_elapsed db.budget_elapsed)
next
  case (11 ts s) then show ?case
    by (cases s) (simp_all add: sr.elapsed_idem sl.elapsed_idem bl.elapsed_idem dl.elapsed_idem db.elapsed_idem)
next
  case (12 t s ts s') then show ?case
    by (cases s) (auto simp: stack_simps dest: sr.valid_release_elapsed sl.valid_release_elapsed bl.valid_release_elapsed dl.valid_release_elapsed db.valid_release_elapsed)
next
  case (13 t s ts r s') then show ?case
    by (cases s) (auto simp: stack_simps dest: sr.taken_try sl.taken_try bl.taken_try dl.taken_try db.taken_try)
next
  case (14 ts s s') then show ?case
    by (cases s) (auto simp: stack_simps dest: sr.taken_release sl.taken_release bl.taken_release dl.taken_release db.taken_release)
next
  case (15 ts s) then show ?case
    by (cases s) (simp_all add: sr.taken_elapsed sl.taken_elapsed bl.taken_elapsed dl.taken_elapsed db.taken_elapsed)
next
  case (16 t s) then show ?case
    by (cases s) (auto simp: stack_simps dest: sr.taken_bound sl.taken_bound bl.taken_bound dl.taken_bound db.taken_bound)
qed

subsection \<open>The rate of a stack\<close>

text \<open>The linear limiter at the bottom runs at \<open>h\<close> hertz and starts its clock at \<open>start\<close> or later.\<close>

definition starts_late :: "nat \<Rightarrow> nanos \<Rightarrow> scheduled_linear \<Rightarrow> bool" where
  "starts_late h start s \<longleftrightarrow> frequency (sched_inner s) = mk_Frequency h \<and> scheduled_starting_time s = start \<and>
     (\<forall>s0. start_time (lin_base (sched_inner s)) = Some s0 \<longrightarrow> start \<le> s0)"

fun stack_linear :: "'g limiter_stack \<Rightarrow> scheduled_linear option" where
  "stack_linear (PluginStack s) = None"
| "stack_linear (LinearStack s) = Some s"
| "stack_linear (BurstStack b) = Some (burst_inner b)"
| "stack_linear (JitterStack d) = Some (deleg_inner d)"
| "stack_linear (JitterBurstStack d) = Some (burst_inner (deleg_inner d))"

definition stack_late :: "nat \<Rightarrow> nanos \<Rightarrow> 'g limiter_stack \<Rightarrow> bool" where
  "stack_late h start st = (case stack_linear st of Some s \<Rightarrow> starts_late h start s | None \<Rightarrow> False)"

lemma linear_try_base:
  "lin_base (snd (linear_tryAcquireOne ts l)) = lin_base l \<or>
   lin_base (snd (linear_tryAcquireOne ts l)) = snd (base_elapsed ts (lin_base l))"
proof (induction ts l rule: linear_tryAcquireOne.induct)
  case (1 ts l)
  then show ?case
    by (subst (1 2) linear_tryAcquireOne.simps) (auto simp: linear_elapsed_eq Let_def base_elapsed_idem)
qed

lemma scheduled_try_late:
  "starts_late h start s \<Longrightarrow> starts_late h start (snd (scheduled_tryAcquireOne linear_tryAcquireOne ts s))"
proof -
  assume late: "starts_late h start s"
  obtain r l where tr: "linear_tryAcquireOne ts (sched_inner s) = (r, l)" by fastforce
  have "frequency l = frequency (sched_inner s)" using linear_try_frequency [of ts "sched_inner s"] tr by simp
  moreover have "lin_base l = lin_base (sched_inner s) \<or> lin_base l = snd (base_elapsed ts (lin_base (sched_inner s)))"
    using linear_try_base [of ts "sched_inner s"] tr by simp
  ultimately show ?thesis using late tr
    by (auto simp: starts_late_def scheduled_tryAcquireOne_def base_elapsed_def split: option.splits)
qed

lemma scheduled_release_late:
  "starts_late h start s \<Longrightarrow> scheduled_releaseOne linear_releaseOne ts s = Inr s' \<Longrightarrow> starts_late h start s'"
  by (auto simp: starts_late_def scheduled_releaseOne_def linear_releaseOne_def split: if_splits)

lemma accumulate_inner_invariant:
  assumes "\<And>s. Q s \<Longrightarrow> Q (snd (f s))" "Q (burst_inner b)"
  shows "Q (burst_inner (snd (bursting_accumulate f b)))"
  using assms
proof (induction f b rule: bursting_accumulate.induct)
  case (1 f b)
  obtain ok i where tr: "f (burst_inner b) = (ok, i)" by fastforce
  have "Q i" using "1.prems" tr by (metis snd_conv)
  then show ?case using "1.IH" [OF tr [symmetric] refl _ refl _ "1.prems"(1)] tr
    by (subst bursting_accumulate.simps) (auto simp: bursting_release_step_def Let_def)
qed

lemma bursting_try_inner_invariant:
  assumes "\<And>s. Q s \<Longrightarrow> Q (snd (f ts s))" "Q (burst_inner b)"
  shows "Q (burst_inner (snd (bursting_tryAcquireOne f ts b)))"
  using accumulate_inner_invariant [of Q "f ts" "b\<lparr>previously_releasing := Some (releasing b)\<rparr>"] assms
  by (auto simp: bursting_tryAcquireOne_def bursting_release_step_def)

lemma delegating_try_inner:
  "deleg_inner (snd (delegating_tryAcquireOne try gen ts d)) = snd (try ts (deleg_inner d))"
  by (auto simp: delegating_tryAcquireOne_def Let_def split: prod.split)

lemma stack_try_late: "stack_late h start st \<Longrightarrow> stack_late h start (snd (stack_tryAcquireOne gen ts st))"
  by (cases st) (auto simp: stack_late_def stack_simps delegating_try_inner
      intro!: scheduled_try_late bursting_try_inner_invariant [where Q = "starts_late h start"])

lemma stack_release_late: "stack_late h start st \<Longrightarrow> stack_releaseOne ts st = Inr st' \<Longrightarrow> stack_late h start st'"
  by (cases st) (auto simp: stack_late_def stack_simps bursting_releaseOne_def delegating_releaseOne_def result_bind_def
      split: sum.splits if_splits dest: scheduled_release_late)

lemma stack_late_allowance:
  assumes "stack_late h start st"
  shows "stack_allowance t st \<le> (if t < start then 0 else linear_due h (t - start))"
proof -
  obtain s where s: "stack_linear st = Some s" "starts_late h start s"
    using assms by (auto simp: stack_late_def split: option.splits)
  have "stack_allowance t st = linear_layer_allowance t s" using s(1) by (cases st) auto
  moreover have "since (lin_base (sched_inner s)) t \<le> t - start" if "start \<le> t"
    using s(2) that by (auto simp: starts_late_def since_def split: option.splits)
  ultimately show ?thesis using s(2)
    by (auto simp: linear_layer_allowance_def linear_allowance_def starts_late_def intro: linear_due_mono)
qed

text \<open>What the factory builds is well-formed at any time, has taken nothing and has not started.\<close>

lemma create_rate_limiter_fresh:
  assumes "create_rate_limiter decode sampler start opt = Inr st" "o_rate_limiter_plugin_config opt = None"
    "perWorkerRequestsPerSecond opt = Inr rps"
  shows "stack_ok t st" "stack_taken st = 0" "stack_late rps start st"
proof -
  have l: "0 < rps" using assms by (auto simp: create_rate_limiter_def mk_LinearRateLimiter_def split: if_splits)
  define l0 where "l0 = \<lparr>lin_base = RateLimiterBase_init, acquireable_count = 0, acquired_count = 0, frequency = mk_Frequency rps\<rparr>"
  have mk: "mk_LinearRateLimiter (mk_Frequency rps) = Inr l0" using l by (simp add: mk_LinearRateLimiter_eq l0_def)
  have ok: "linear_ok t l0" by (rule mk_LinearRateLimiter_ok [OF mk])
  show "stack_ok t st" "stack_taken st = 0" "stack_late rps start st"
    using assms ok
    by (auto simp: create_rate_limiter_def mk Let_def mk_ScheduledStartingRateLimiter_def mk_BurstingRateLimiter_def
      mk_DelegatingRateLimiter_def scheduled_ok_def bursting_ok_def delegating_ok_def l0_def stack_late_def starts_late_def
      RateLimiterBase_init_def split: if_splits)
qed

text \<open>
  C20: Whatever burst size and jitter the options ask for, the limiter the factory builds without a plugin
  grants nothing before the scheduled start and from then on never more than one worker's rate: a
  protocol abiding caller never sees an error, and keeps at most \<open>\<lfloor>(now - start) \<cdot> rps / 10\<^sup>9 + 1/2\<rfloor>\<close>.
\<close>

theorem stack_never_exceeds_rate:
  assumes "create_rate_limiter decode sampler start opt = Inr st" "o_rate_limiter_plugin_config opt = None"
    and "perWorkerRequestsPerSecond opt = Inr rps" "clock_ordered t ops"
  shows "\<exists>n st'. attempts (stack_tryAcquireOne gen) stack_releaseOne ops st = Inr (n, st') \<and>
           int n \<le> (if last_clock t ops < start then 0 else linear_due rps (last_clock t ops - start))"
proof -
  note fresh = create_rate_limiter_fresh [OF assms(1-3)]
  let ?P = "\<lambda>n st. stack_taken st = int n \<and> stack_late rps start st"
  have "\<exists>k st'. attempts (stack_tryAcquireOne gen) stack_releaseOne ops st = Inr (k, st') \<and>
          stack_ok (last_clock t ops) st' \<and> ?P (0 + k) st'"
  proof (rule stack.attempts_invariant [where P = ?P, OF fresh(1) _ assms(4)], goal_cases)
    case 1 then show ?case using fresh by simp
  next
    case (2 n t s ts s') then show ?case
      using stack.taken_try [OF 2(1,3,4)] stack_try_late [of rps start s gen ts] by simp
  next
    case (3 n t s ts s') then show ?case
      using stack.taken_try [OF 3(1,3,4)] stack_try_late [of rps start s gen ts] by simp
  next
    case (4 n t s ts s' s'') then show ?case
      using stack.taken_try [OF 4(1,3,4)] stack.taken_release [OF 4(5)] stack_try_late [of rps start s gen ts]
        stack_release_late [OF _ 4(5)] by simp
  qed
  then obtain k st' where k: "attempts (stack_tryAcquireOne gen) stack_releaseOne ops st = Inr (k, st')"
    "stack_ok (last_clock t ops) st'" "stack_taken st' = int k" "stack_late rps start st'" by auto
  have "int k \<le> stack_allowance (last_clock t ops) st'" using stack.taken_bound [OF k(2)] k(3) by simp
  then show ?thesis using stack_late_allowance [OF k(4), of "last_clock t ops"] k(1) by (intro exI conjI) auto
qed

definition sample_burst_options :: OptionsImpl where
  "sample_burst_options = default_options\<lparr>o_burst_size := 2, o_jitter_uniform := 5\<rparr>"

lemma sample_burst_rate: "perWorkerRequestsPerSecond sample_burst_options = Inr 5"
  by (simp add: perWorkerRequestsPerSecond_def sample_burst_options_def default_options_eq OptionsImpl_members_def)

theorem stack_never_exceeds_rate_witness:
  "\<exists>st. create_rate_limiter (\<lambda>_. ([], None)) (\<lambda>n. n) 100 sample_burst_options = Inr st \<and>
     (\<exists>n st'. attempts (stack_tryAcquireOne (\<lambda>g. (g, g))) stack_releaseOne
        [(\<lparr>monotonicTime = 10, systemTime = 0\<rparr>, True), (\<lparr>monotonicTime = 1000000100, systemTime = 0\<rparr>, True)] st = Inr (n, st') \<and>
        int n \<le> linear_due 5 1000000000)"
proof -
  obtain st where st: "create_rate_limiter (\<lambda>_. ([], None)) (\<lambda>n. n) 100 sample_burst_options = Inr st"
    using sample_burst_rate
    by (simp add: create_rate_limiter_def mk_LinearRateLimiter_def sample_burst_options_def default_options_eq OptionsImpl_members_def)
  have "o_rate_limiter_plugin_config sample_burst_options = None"
    by (simp add: sample_burst_options_def default_options_eq OptionsImpl_members_def)
  from stack_never_exceeds_rate [OF st this sample_burst_rate, of 0
      "[(\<lparr>monotonicTime = 10, systemTime = 0\<rparr>, True), (\<lparr>monotonicTime = 1000000100, systemTime = 0\<rparr>, True)]" "\<lambda>g. (g, g)"] st
  show ?thesis by simp
qed



subsection \<open>Bursts are whole\<close>

definition burst_phase :: "nat \<Rightarrow> nat \<Rightarrow> scheduled_linear BurstingRateLimiter \<Rightarrow> bool" where
  "burst_phase m n b \<longleftrightarrow> burst_size b = m \<and> (if releasing b then (n + accumulated b) mod m = 0 else n mod m = 0)"

lemma burst_success_phase:
  assumes ok: "bursting_ok (scheduled_ok linear_ok (\<lambda>l. acquired_count l = 0)) (monotonicTime ts) b"
    and tr: "bursting_tryAcquireOne (scheduled_tryAcquireOne linear_tryAcquireOne) ts b = (True, b')"
    and ph: "burst_phase m n b"
  shows "burst_phase m (Suc n) b'" "burst_phase m n (b'\<lparr>accumulated := accumulated b' + 1, releasing := True, previously_releasing := None\<rparr>)"
proof -
  have "burst_size b' = m \<and> (releasing b' \<longleftrightarrow> accumulated b' > 0) \<and> (n + accumulated b' + 1) mod m = 0"
  proof (cases "releasing b")
    case True
    then show ?thesis using tr ph ok
      by (auto simp: burst_phase_def bursting_tryAcquireOne_def bursting_release_step_def bursting_ok_def)
  next
    case False
    then have "bursting_accumulate (scheduled_tryAcquireOne linear_tryAcquireOne ts) (b\<lparr>previously_releasing := Some False\<rparr>) = (True, b')"
      using tr by (simp add: bursting_tryAcquireOne_def)
    from sl.accumulate_post [OF _ _ _ this] ok False
    have post: "burst_size b' = burst_size b" "accumulated b' = burst_size b - 1" "releasing b' = (burst_size b > 1)" "0 < burst_size b"
      by (auto simp: bursting_ok_def)
    have "n + (burst_size b - 1) + 1 = n + burst_size b" using post(4) by simp
    then show ?thesis using post ph False by (auto simp: burst_phase_def)
  qed
  then show "burst_phase m (Suc n) b'"
    "burst_phase m n (b'\<lparr>accumulated := accumulated b' + 1, releasing := True, previously_releasing := None\<rparr>)"
    by (auto simp: burst_phase_def add.assoc)
qed

text \<open>
  C22: Without jitter, acquisitions come in whole bursts: a protocol abiding caller of a bursting stack has,
  between bursts, kept a multiple of the burst size, and during a burst the kept ones and those still
  held back make up a multiple of it. Handing back never tears a burst.
\<close>

theorem bursts_are_whole:
  assumes "mk_LinearRateLimiter (mk_Frequency h) = Inr l" "0 < m" "clock_ordered t ops"
  shows "\<exists>n b'. attempts (bursting_tryAcquireOne (scheduled_tryAcquireOne linear_tryAcquireOne)) bursting_releaseOne ops
             (mk_BurstingRateLimiter (mk_ScheduledStartingRateLimiter l start) m) = Inr (n, b') \<and>
           (if releasing b' then (n + accumulated b') mod m = 0 else n mod m = 0)"
proof -
  let ?b = "mk_BurstingRateLimiter (mk_ScheduledStartingRateLimiter l start) m"
  let ?ok = "bursting_ok (scheduled_ok linear_ok (\<lambda>l. acquired_count l = 0))"
  have "acquired_count l = 0" using assms(1) by (simp add: mk_LinearRateLimiter_eq)
  then have fresh: "?ok t ?b" "burst_phase m 0 ?b"
    using mk_LinearRateLimiter_ok [OF assms(1)] assms(2)
    by (simp_all add: mk_BurstingRateLimiter_def mk_ScheduledStartingRateLimiter_def bursting_ok_def scheduled_ok_def burst_phase_def)
  have "\<exists>k b'. attempts (bursting_tryAcquireOne (scheduled_tryAcquireOne linear_tryAcquireOne)) bursting_releaseOne ops ?b = Inr (k, b') \<and>
          ?ok (last_clock t ops) b' \<and> burst_phase m (0 + k) b'"
  proof (rule bl.attempts_invariant [where P = "burst_phase m", OF fresh assms(3)], goal_cases)
    case (1 n t b ts b')
    have "?ok (monotonicTime ts) b" using 1 sl.bursting_ok_later by blast
    moreover from this have "\<not> releasing b" using 1(4) by (auto simp: bursting_tryAcquireOne_def bursting_release_step_def)
    ultimately show ?case using 1 sl.bursting_try_post(2,5) [of ts b False b'] by (auto simp: burst_phase_def)
  next
    case (2 n t b ts b') then show ?case using burst_success_phase(1) sl.bursting_ok_later by blast
  next
    case (3 n t b ts b' b'') then show ?case
      using burst_success_phase(2) [of ts b b' m n] sl.bursting_ok_later [of t b "monotonicTime ts"] by (auto simp: bursting_releaseOne_def)
  qed
  then obtain k b' where "attempts (bursting_tryAcquireOne (scheduled_tryAcquireOne linear_tryAcquireOne)) bursting_releaseOne ops ?b =
      Inr (k, b')" "burst_phase m k b'" by auto
  then show ?thesis unfolding burst_phase_def by blast
qed

theorem bursts_are_whole_witness:
  "\<exists>n b'. attempts (bursting_tryAcquireOne (scheduled_tryAcquireOne linear_tryAcquireOne)) bursting_releaseOne
     [(\<lparr>monotonicTime = 5, systemTime = 0\<rparr>, True), (\<lparr>monotonicTime = 3000000005, systemTime = 0\<rparr>, True)]
     (mk_BurstingRateLimiter (mk_ScheduledStartingRateLimiter \<lparr>lin_base = RateLimiterBase_init, acquireable_count = 0,
         acquired_count = 0, frequency = mk_Frequency 1\<rparr> 0) 2) = Inr (n, b') \<and>
     (if releasing b' then (n + accumulated b') mod 2 = 0 else n mod 2 = 0)"
proof -
  let ?l = "\<lparr>lin_base = RateLimiterBase_init, acquireable_count = 0, acquired_count = 0, frequency = mk_Frequency 1\<rparr>"
  have "mk_LinearRateLimiter (mk_Frequency 1) = Inr ?l" by (simp add: mk_LinearRateLimiter_eq)
  from bursts_are_whole [OF this, of 2 0
      "[(\<lparr>monotonicTime = 5, systemTime = 0\<rparr>, True), (\<lparr>monotonicTime = 3000000005, systemTime = 0\<rparr>, True)]" 0]
  show ?thesis by simp
qed

subsection \<open>Jitter over bursts\<close>

text \<open>
  The queue of the jitter layer hands out an acquisition long after the burst it came from, so a
  caller that returns it reaches \<open>BurstingRateLimiter::releaseOne\<close> when the last attempt there failed.
\<close>

definition sample_jitter_options :: OptionsImpl where
  "sample_jitter_options = default_options\<lparr>o_requests_per_second := 1, o_burst_size := 1, o_jitter_uniform := 10\<rparr>"


end
