(* ===== verification/Statistics.thy ===== *)
theory Statistics
  imports Strings
begin

text \<open>
  The statistics of \<^verbatim>\<open>source/common/statistic_impl.cc\<close>: running count, minimum and maximum, the
  sum-of-squares and the streaming (Welford) variance, the in-memory variant, and the variants backed
  by the HdrHistogram and circllhist libraries, which are parameters. The locale
  \<open>statistic_contract\<close> is the \<open>Statistic\<close> interface: a statistic represents the list of samples added
  to it, and combining two represents the samples of both.
\<close>

subsection \<open>The reference: statistics of a list of samples\<close>

type_synonym sample = "64 word"

definition UINT64_MAX :: "64 word" where "UINT64_MAX = -1"

definition total :: "sample list \<Rightarrow> real" where
  "total xs = (\<Sum>x\<leftarrow>xs. real (unat x))"

definition squares :: "sample list \<Rightarrow> real" where
  "squares xs = (\<Sum>x\<leftarrow>xs. (real (unat x))\<^sup>2)"

definition sample_mean :: "sample list \<Rightarrow> real" where
  "sample_mean xs = total xs / real (length xs)"

definition sample_pvariance :: "sample list \<Rightarrow> real" where
  "sample_pvariance xs = (\<Sum>x\<leftarrow>xs. (real (unat x) - sample_mean xs)\<^sup>2) / real (length xs)"

definition sample_min :: "sample list \<Rightarrow> sample" where
  "sample_min xs = foldr min xs UINT64_MAX"

definition sample_max :: "sample list \<Rightarrow> sample" where
  "sample_max xs = foldr max xs 0"

lemma total_simps [simp]:
  "total [] = 0" "total (x # xs) = real (unat x) + total xs" "total (xs @ ys) = total xs + total ys"
  by (simp_all add: total_def)

lemma squares_simps [simp]:
  "squares [] = 0" "squares (x # xs) = (real (unat x))\<^sup>2 + squares xs" "squares (xs @ ys) = squares xs + squares ys"
  by (simp_all add: squares_def)

lemma UINT64_MAX_greatest [simp]: "x \<le> UINT64_MAX"
  by (simp add: UINT64_MAX_def)

lemma sample_min_append [simp]: "sample_min (xs @ ys) = min (sample_min xs) (sample_min ys)"
  by (induction xs) (simp_all add: sample_min_def min.assoc min_absorb2)

lemma sample_max_append [simp]: "sample_max (xs @ ys) = max (sample_max xs) (sample_max ys)"
  by (induction xs) (simp_all add: sample_max_def max.assoc)

lemma sample_bounds_single [simp]: "sample_min [x] = x" "sample_max [x] = x"
  by (simp_all add: sample_min_def sample_max_def min_absorb1 max_absorb1)

lemma sample_bounds_Nil [simp]: "sample_min [] = UINT64_MAX" "sample_max [] = 0"
  by (simp_all add: sample_min_def sample_max_def)

lemma sample_min_in: "xs \<noteq> [] \<Longrightarrow> sample_min xs = Min (set xs)"
  by (induction xs rule: rev_nonempty_induct) (simp_all add: Min.insert min.commute)

lemma sample_max_in: "xs \<noteq> [] \<Longrightarrow> sample_max xs = Max (set xs)"
  by (induction xs rule: rev_nonempty_induct) (simp_all add: Max.insert max.commute)

text \<open>The sum of squared deviations from any point, expanded.\<close>

lemma sum_squares_expand:
  "(\<Sum>x\<leftarrow>xs. (real (unat x) - m)\<^sup>2) = squares xs - 2 * m * total xs + real (length xs) * m\<^sup>2"
  by (induction xs) (simp_all add: power2_eq_square algebra_simps)

lemma sum_squares_mean:
  "(\<Sum>x\<leftarrow>xs. (real (unat x) - sample_mean xs)\<^sup>2) = squares xs - (total xs)\<^sup>2 / real (length xs)"
  unfolding sum_squares_expand
  by (cases "xs = []") (simp_all add: sample_mean_def field_simps power2_eq_square)

lemma sample_pvariance_squares:
  "sample_pvariance xs = squares xs / real (length xs) - (sample_mean xs)\<^sup>2"
  unfolding sample_pvariance_def sum_squares_mean
  by (cases "xs = []") (simp_all add: sample_mean_def field_simps power2_eq_square)

subsection \<open>The base class\<close>

record StatisticImpl =
  st_id :: string
  st_min :: "64 word"
  st_max :: "64 word"
  st_count :: nat

definition StatisticImpl_init :: StatisticImpl where
  "StatisticImpl_init = \<lparr>st_id = [], st_min = UINT64_MAX, st_max = 0, st_count = 0\<rparr>"

definition setId :: "string \<Rightarrow> ('x StatisticImpl_scheme) \<Rightarrow> 'x StatisticImpl_scheme" where
  "setId i s = s\<lparr>st_id := i\<rparr>"

definition StatisticImpl_addValue :: "sample \<Rightarrow> 'x StatisticImpl_scheme \<Rightarrow> 'x StatisticImpl_scheme" where
  "StatisticImpl_addValue v s =
     s\<lparr>st_min := min (st_min s) v, st_max := max (st_max s) v, st_count := st_count s + 1\<rparr>"

text \<open>\<open>NullStatistic\<close> ignores its samples.\<close>

definition NullStatistic_addValue :: "sample \<Rightarrow> StatisticImpl \<Rightarrow> StatisticImpl" where
  "NullStatistic_addValue v s = s"

definition NullStatistic_combine :: "StatisticImpl \<Rightarrow> StatisticImpl \<Rightarrow> StatisticImpl" where
  "NullStatistic_combine a b = StatisticImpl_init"

definition base_represents :: "'x StatisticImpl_scheme \<Rightarrow> sample list \<Rightarrow> bool" where
  "base_represents s xs \<longleftrightarrow> st_count s = length xs \<and> st_min s = sample_min xs \<and> st_max s = sample_max xs"

lemma base_represents_add:
  "base_represents s xs \<Longrightarrow> base_represents (StatisticImpl_addValue v s) (xs @ [v])"
  by (simp add: base_represents_def StatisticImpl_addValue_def)

subsection \<open>The contract of a statistic\<close>

locale statistic_counting =
  fixes fresh :: 's
    and add :: "sample \<Rightarrow> 's \<Rightarrow> 's"
    and combine :: "'s \<Rightarrow> 's \<Rightarrow> 's"
    and count min_of max_of :: "'s \<Rightarrow> nat"
    and represents :: "'s \<Rightarrow> sample list \<Rightarrow> bool"
  assumes fresh_represents: "represents fresh []"
    and add_represents: "represents s xs \<Longrightarrow> represents (add v s) (xs @ [v])"
    and combine_represents: "represents a xs \<Longrightarrow> represents b ys \<Longrightarrow> represents (combine a b) (xs @ ys)"
    and count_represents: "represents s xs \<Longrightarrow> count s = length xs"
    and min_represents: "represents s xs \<Longrightarrow> min_of s = unat (sample_min xs)"
    and max_represents: "represents s xs \<Longrightarrow> max_of s = unat (sample_max xs)"
begin

lemma fold_add_represents: "represents s xs \<Longrightarrow> represents (fold add ys s) (xs @ ys)"
proof (induction ys arbitrary: s xs)
  case (Cons y ys)
  show ?case using Cons.IH [OF add_represents [OF Cons.prems, of y]] by simp
qed simp

end

locale statistic_contract = statistic_counting fresh add combine count min_of max_of represents
  for fresh :: 's and add combine count min_of max_of represents +
  fixes set_id :: "string \<Rightarrow> 's \<Rightarrow> 's"
    and id_of :: "'s \<Rightarrow> string"
    and mean pvariance :: "'s \<Rightarrow> real option"
  assumes set_id_represents: "represents (set_id i s) xs \<longleftrightarrow> represents s xs"
    and set_id_id: "id_of (set_id i s) = i"
    and mean_represents: "represents s xs \<Longrightarrow>
          mean s = (if xs = [] then None else Some (sample_mean xs))"
    and pvariance_represents: "represents s xs \<Longrightarrow>
          pvariance s = (if xs = [] then None else Some (sample_pvariance xs))"
begin

text \<open>
  The merge of per-worker statistics: workers combined one after the other into a fresh instance
  that keeps its id. It represents the samples of all workers, in worker order.
\<close>

lemma merge_represents:
  assumes "represents s xs" "list_all2 represents ws yss"
  shows "represents (foldl (\<lambda>m w. set_id (id_of m) (combine m w)) s ws) (xs @ concat yss)"
  using assms(2,1)
proof (induction ws yss arbitrary: s xs rule: list_all2_induct)
  case (Cons w ws ys yss)
  have "represents (set_id (id_of s) (combine s w)) (xs @ ys)"
    using Cons.prems Cons.hyps(1) by (simp add: set_id_represents combine_represents)
  from Cons.IH [OF this] show ?case by simp
qed simp

lemma merge_id: "id_of (foldl (\<lambda>m w. set_id (id_of m) (combine m w)) s ws) = id_of s"
  by (induction ws arbitrary: s) (simp_all add: set_id_id)

end


subsection \<open>Sums of squares\<close>

record SimpleStatistic = StatisticImpl +
  sum_x :: real
  sum_x2 :: real

definition SimpleStatistic_init :: SimpleStatistic where
  "SimpleStatistic_init = StatisticImpl.extend StatisticImpl_init \<lparr>sum_x = 0, sum_x2 = 0\<rparr>"

definition SimpleStatistic_addValue :: "sample \<Rightarrow> SimpleStatistic \<Rightarrow> SimpleStatistic" where
  "SimpleStatistic_addValue v s =
     (let s = StatisticImpl_addValue v s
      in s\<lparr>sum_x := sum_x s + real (unat v), sum_x2 := sum_x2 s + real (unat v) * real (unat v)\<rparr>)"

definition SimpleStatistic_mean :: "SimpleStatistic \<Rightarrow> real option" where
  "SimpleStatistic_mean s = (if st_count s = 0 then None else Some (sum_x s / real (st_count s)))"

definition SimpleStatistic_pvariance :: "SimpleStatistic \<Rightarrow> real option" where
  "SimpleStatistic_pvariance s =
     (case SimpleStatistic_mean s of
        None \<Rightarrow> None
      | Some m \<Rightarrow> Some (sum_x2 s / real (st_count s) - m * m))"

definition SimpleStatistic_pstdev :: "SimpleStatistic \<Rightarrow> real option" where
  "SimpleStatistic_pstdev s = map_option sqrt (SimpleStatistic_pvariance s)"

definition SimpleStatistic_combine :: "SimpleStatistic \<Rightarrow> SimpleStatistic \<Rightarrow> SimpleStatistic" where
  "SimpleStatistic_combine a b = SimpleStatistic_init
     \<lparr>st_min := min (st_min a) (st_min b), st_max := max (st_max a) (st_max b),
      st_count := st_count a + st_count b, sum_x := sum_x a + sum_x b, sum_x2 := sum_x2 a + sum_x2 b\<rparr>"

definition simple_represents :: "SimpleStatistic \<Rightarrow> sample list \<Rightarrow> bool" where
  "simple_represents s xs \<longleftrightarrow> base_represents s xs \<and> sum_x s = total xs \<and> sum_x2 s = squares xs"

interpretation simple: statistic_contract SimpleStatistic_init SimpleStatistic_addValue SimpleStatistic_combine
  st_count "\<lambda>s. unat (st_min s)" "\<lambda>s. unat (st_max s)" simple_represents setId st_id
  SimpleStatistic_mean SimpleStatistic_pvariance
proof (unfold_locales, goal_cases)
  case 1 then show ?case
    by (simp add: simple_represents_def base_represents_def SimpleStatistic_init_def StatisticImpl_init_def
        StatisticImpl.defs)
next
  case (2 s xs v) then show ?case
    using base_represents_add [of s xs v]
    by (simp add: simple_represents_def SimpleStatistic_addValue_def Let_def base_represents_def
        StatisticImpl_addValue_def power2_eq_square)
next
  case (10 s xs) then show ?case
    by (simp add: simple_represents_def base_represents_def SimpleStatistic_pvariance_def SimpleStatistic_mean_def
        sample_pvariance_squares sample_mean_def power2_eq_square)
qed (simp_all add: simple_represents_def base_represents_def SimpleStatistic_combine_def setId_def
      SimpleStatistic_mean_def sample_mean_def)

subsection \<open>Streaming variance\<close>

record StreamingStatistic = StatisticImpl +
  ss_mean :: real
  accumulated_variance :: real

definition StreamingStatistic_init :: StreamingStatistic where
  "StreamingStatistic_init =
     StatisticImpl.extend StatisticImpl_init \<lparr>ss_mean = 0, accumulated_variance = 0\<rparr>"

definition StreamingStatistic_addValue :: "sample \<Rightarrow> StreamingStatistic \<Rightarrow> StreamingStatistic" where
  "StreamingStatistic_addValue v s =
     (let s = StatisticImpl_addValue v s;
          delta = real (unat v) - ss_mean s;
          delta_n = delta / real (st_count s)
      in s\<lparr>ss_mean := ss_mean s + delta_n,
           accumulated_variance := accumulated_variance s + delta * delta_n * (real (st_count s) - 1)\<rparr>)"

definition StreamingStatistic_mean :: "StreamingStatistic \<Rightarrow> real option" where
  "StreamingStatistic_mean s = (if st_count s = 0 then None else Some (ss_mean s))"

definition StreamingStatistic_pvariance :: "StreamingStatistic \<Rightarrow> real option" where
  "StreamingStatistic_pvariance s =
     (if st_count s = 0 then None else Some (accumulated_variance s / real (st_count s)))"

definition StreamingStatistic_pstdev :: "StreamingStatistic \<Rightarrow> real option" where
  "StreamingStatistic_pstdev s = map_option sqrt (StreamingStatistic_pvariance s)"

text \<open>A NaN mean (no samples) counts as zero in the merge.\<close>

definition nan_to_zero :: "real option \<Rightarrow> real" where
  "nan_to_zero m = (case m of None \<Rightarrow> 0 | Some x \<Rightarrow> x)"

definition StreamingStatistic_combine ::
    "StreamingStatistic \<Rightarrow> StreamingStatistic \<Rightarrow> StreamingStatistic" where
  "StreamingStatistic_combine a b =
     (let combined = StreamingStatistic_init
            \<lparr>st_min := min (st_min a) (st_min b), st_max := max (st_max a) (st_max b),
             st_count := st_count a + st_count b\<rparr>;
          a_mean = nan_to_zero (StreamingStatistic_mean a);
          b_mean = nan_to_zero (StreamingStatistic_mean b)
      in if st_count combined = 0 then combined
         else combined
           \<lparr>ss_mean := (real (st_count a) * a_mean + real (st_count b) * b_mean) / real (st_count combined),
            accumulated_variance := accumulated_variance a + accumulated_variance b +
              (a_mean - b_mean)\<^sup>2 * real (st_count a) * real (st_count b) / real (st_count combined)\<rparr>)"

definition streaming_represents :: "StreamingStatistic \<Rightarrow> sample list \<Rightarrow> bool" where
  "streaming_represents s xs \<longleftrightarrow> base_represents s xs \<and> ss_mean s = sample_mean xs \<and>
     accumulated_variance s = squares xs - (total xs)\<^sup>2 / real (length xs)"

lemma streaming_mean_zero:
  "streaming_represents s xs \<Longrightarrow> nan_to_zero (StreamingStatistic_mean s) = sample_mean xs"
  by (simp add: streaming_represents_def base_represents_def nan_to_zero_def StreamingStatistic_mean_def sample_mean_def)

text \<open>Welford's update and the pairwise merge, as identities on sums.\<close>

lemma pairwise_merge:
  fixes S T P Q m n :: real
  assumes "m > 0" "n > 0"
  shows "(P - S\<^sup>2 / m) + (Q - T\<^sup>2 / n) + (S / m - T / n)\<^sup>2 * m * n / (m + n) = P + Q - (S + T)\<^sup>2 / (m + n)"
  using assms by (simp add: divide_simps add_pos_pos) (simp add: algebra_simps power2_eq_square)

lemma welford_update:
  fixes S Q v n :: real
  assumes "n > 0"
  shows "S / n + (v - S / n) / (n + 1) = (S + v) / (n + 1)"
    "Q - S\<^sup>2 / n + (v - S / n) * ((v - S / n) / (n + 1)) * n = Q + v\<^sup>2 - (S + v)\<^sup>2 / (n + 1)"
proof -
  show "S / n + (v - S / n) / (n + 1) = (S + v) / (n + 1)"
    using assms by (simp add: divide_simps) (simp add: algebra_simps)
  have sq: "(S / n - v)\<^sup>2 = (v - S / n) * (v - S / n)"
    by (simp add: power2_eq_square algebra_simps)
  then show "Q - S\<^sup>2 / n + (v - S / n) * ((v - S / n) / (n + 1)) * n = Q + v\<^sup>2 - (S + v)\<^sup>2 / (n + 1)"
    using pairwise_merge [OF assms, of 1 Q S "v\<^sup>2" v] by (simp add: sq)
qed

lemma streaming_add_represents:
  assumes "streaming_represents s xs"
  shows "streaming_represents (StreamingStatistic_addValue v s) (xs @ [v])"
proof (cases "xs = []")
  case True
  then show ?thesis using assms
    by (simp add: streaming_represents_def base_represents_def StreamingStatistic_addValue_def Let_def
        StatisticImpl_addValue_def sample_mean_def)
next
  case False
  then have n: "real (length xs) > 0" by simp
  show ?thesis
    using assms welford_update(1) [OF n, of "total xs" "real (unat v)"]
      welford_update(2) [OF n, of "squares xs" "total xs" "real (unat v)"]
    by (simp add: streaming_represents_def base_represents_def StreamingStatistic_addValue_def Let_def
        StatisticImpl_addValue_def sample_mean_def add.commute)
qed

lemma streaming_combine_represents:
  assumes "streaming_represents a xs" "streaming_represents b ys"
  shows "streaming_represents (StreamingStatistic_combine a b) (xs @ ys)"
proof -
  note defs = streaming_represents_def base_represents_def StreamingStatistic_combine_def Let_def
    StreamingStatistic_init_def StatisticImpl_init_def StatisticImpl.defs sample_mean_def
  note means = streaming_mean_zero [OF assms(1)] streaming_mean_zero [OF assms(2)]
  consider "xs = []" | "ys = []" | "real (length xs) > 0" "real (length ys) > 0" by fastforce
  then show ?thesis
  proof cases
    case 3
    have "total xs / real (length xs) * real (length xs) = total xs" "total ys / real (length ys) * real (length ys) = total ys"
      using 3 by simp_all
    then show ?thesis using assms means pairwise_merge [OF 3, of "squares xs" "total xs" "squares ys" "total ys"]
      by (simp add: defs mult.commute)
  qed (use assms means in \<open>simp_all add: defs\<close>)
qed

interpretation streaming: statistic_contract StreamingStatistic_init StreamingStatistic_addValue StreamingStatistic_combine
  st_count "\<lambda>s. unat (st_min s)" "\<lambda>s. unat (st_max s)" streaming_represents setId st_id
  StreamingStatistic_mean StreamingStatistic_pvariance
proof (unfold_locales, goal_cases)
  case 1 then show ?case
    by (simp add: streaming_represents_def base_represents_def StreamingStatistic_init_def StatisticImpl_init_def
        StatisticImpl.defs sample_mean_def)
next
  case (2 s xs v) then show ?case by (rule streaming_add_represents)
next
  case (3 a xs b ys) then show ?case by (rule streaming_combine_represents)
next
  case (10 s xs) then show ?case unfolding sample_pvariance_def sum_squares_mean
    by (simp add: streaming_represents_def base_represents_def StreamingStatistic_pvariance_def)
qed (simp_all add: streaming_represents_def base_represents_def setId_def StreamingStatistic_mean_def)


subsection \<open>Samples kept in memory\<close>

text \<open>\<open>samples_\<close> is a vector of \<open>int64_t\<close>: a sample above \<open>2^63 - 1\<close> is stored as a negative number.\<close>

record InMemoryStatistic = StatisticImpl +
  samples :: "int list"
  streaming_stats :: StreamingStatistic

definition InMemoryStatistic_init :: InMemoryStatistic where
  "InMemoryStatistic_init = StatisticImpl.extend StatisticImpl_init
     \<lparr>samples = [], streaming_stats = StreamingStatistic_init\<rparr>"

definition InMemoryStatistic_addValue :: "sample \<Rightarrow> InMemoryStatistic \<Rightarrow> InMemoryStatistic" where
  "InMemoryStatistic_addValue v s =
     (let s = StatisticImpl_addValue v s
      in s\<lparr>samples := samples s @ [sint v],
           streaming_stats := StreamingStatistic_addValue v (streaming_stats s)\<rparr>)"

definition InMemoryStatistic_mean :: "InMemoryStatistic \<Rightarrow> real option" where
  "InMemoryStatistic_mean s = StreamingStatistic_mean (streaming_stats s)"

definition InMemoryStatistic_pvariance :: "InMemoryStatistic \<Rightarrow> real option" where
  "InMemoryStatistic_pvariance s = StreamingStatistic_pvariance (streaming_stats s)"

definition InMemoryStatistic_pstdev :: "InMemoryStatistic \<Rightarrow> real option" where
  "InMemoryStatistic_pstdev s = StreamingStatistic_pstdev (streaming_stats s)"

definition InMemoryStatistic_combine :: "InMemoryStatistic \<Rightarrow> InMemoryStatistic \<Rightarrow> InMemoryStatistic" where
  "InMemoryStatistic_combine a b = InMemoryStatistic_init
     \<lparr>st_min := min (st_min a) (st_min b), st_max := max (st_max a) (st_max b),
      samples := samples a @ samples b,
      streaming_stats := StreamingStatistic_combine (streaming_stats a) (streaming_stats b),
      st_count := length (samples a @ samples b)\<rparr>"

definition in_memory_represents :: "InMemoryStatistic \<Rightarrow> sample list \<Rightarrow> bool" where
  "in_memory_represents s xs \<longleftrightarrow> base_represents s xs \<and> samples s = map sint xs \<and>
     streaming_represents (streaming_stats s) xs"

interpretation in_memory: statistic_contract InMemoryStatistic_init InMemoryStatistic_addValue InMemoryStatistic_combine
  st_count "\<lambda>s. unat (st_min s)" "\<lambda>s. unat (st_max s)" in_memory_represents setId st_id
  InMemoryStatistic_mean InMemoryStatistic_pvariance
proof (unfold_locales, goal_cases)
  case 1 then show ?case using streaming.fresh_represents
    by (simp add: in_memory_represents_def base_represents_def InMemoryStatistic_init_def StatisticImpl_init_def
        StatisticImpl.defs)
next
  case (2 s xs v) then show ?case
    using streaming_add_represents [of "streaming_stats s" xs v]
    by (cases s) (simp add: in_memory_represents_def InMemoryStatistic_addValue_def Let_def base_represents_def
        StatisticImpl_addValue_def)
next
  case (3 a xs b ys) then show ?case
    using streaming_combine_represents [of "streaming_stats a" xs "streaming_stats b" ys]
    by (simp add: in_memory_represents_def InMemoryStatistic_combine_def base_represents_def
        InMemoryStatistic_init_def StatisticImpl.defs)
next
  case (9 s xs) then show ?case
    unfolding InMemoryStatistic_mean_def in_memory_represents_def by (blast intro: streaming.mean_represents)
next
  case (10 s xs) then show ?case
    unfolding InMemoryStatistic_pvariance_def in_memory_represents_def by (blast intro: streaming.pvariance_represents)
next
  case (7 i s xs) then show ?case by (cases s) (simp add: in_memory_represents_def base_represents_def setId_def)
qed (simp_all add: in_memory_represents_def base_represents_def setId_def)




subsection \<open>What every statistic reports\<close>

text \<open>
  The virtual getters of \<open>Statistic\<close>, as the routines written against the interface read them.
  A \<open>None\<close> is a NaN.
\<close>

record statistic_view =
  v_id :: string
  v_count :: nat
  v_min :: "64 word"
  v_max :: "64 word"
  v_mean :: "real option"
  v_pvariance :: "real option"
  v_pstdev :: "real option"

definition SimpleStatistic_view :: "SimpleStatistic \<Rightarrow> statistic_view" where
  "SimpleStatistic_view s = \<lparr>v_id = st_id s, v_count = st_count s, v_min = st_min s, v_max = st_max s,
     v_mean = SimpleStatistic_mean s, v_pvariance = SimpleStatistic_pvariance s, v_pstdev = SimpleStatistic_pstdev s\<rparr>"

definition StreamingStatistic_view :: "StreamingStatistic \<Rightarrow> statistic_view" where
  "StreamingStatistic_view s = \<lparr>v_id = st_id s, v_count = st_count s, v_min = st_min s, v_max = st_max s,
     v_mean = StreamingStatistic_mean s, v_pvariance = StreamingStatistic_pvariance s,
     v_pstdev = StreamingStatistic_pstdev s\<rparr>"

text \<open>
  \<open>summaryOf\<close> copies the mean of a non-empty statistic as it is; \<open>None\<close> stands for a summary whose
  mean would be a NaN.
\<close>

definition summaryOf :: "statistic_view \<Rightarrow> StreamingStatistic option" where
  "summaryOf v =
     (let summary = StreamingStatistic_init\<lparr>st_id := v_id v, st_count := v_count v\<rparr>
      in if st_count summary = 0 then Some summary
         else map_option (\<lambda>m. summary
           \<lparr>st_min := v_min v, st_max := v_max v, ss_mean := m,
            accumulated_variance :=
              (case v_pvariance v of None \<Rightarrow> 0 | Some pvariance \<Rightarrow> pvariance * real (st_count summary))\<rparr>)
           (v_mean v))"

text \<open>What a view of an exact statistic over \<open>xs\<close> shows.\<close>

definition view_represents :: "statistic_view \<Rightarrow> sample list \<Rightarrow> bool" where
  "view_represents v xs \<longleftrightarrow> v_count v = length xs \<and> v_min v = sample_min xs \<and> v_max v = sample_max xs \<and>
     v_mean v = (if xs = [] then None else Some (sample_mean xs)) \<and>
     v_pvariance v = (if xs = [] then None else Some (sample_pvariance xs))"

lemma simple_view_represents: "simple_represents s xs \<Longrightarrow> view_represents (SimpleStatistic_view s) xs"
  using simple.mean_represents [of s xs] simple.pvariance_represents [of s xs]
  by (simp add: view_represents_def SimpleStatistic_view_def simple_represents_def base_represents_def)

lemma streaming_view_represents: "streaming_represents s xs \<Longrightarrow> view_represents (StreamingStatistic_view s) xs"
  using streaming.mean_represents [of s xs] streaming.pvariance_represents [of s xs]
  by (simp add: view_represents_def StreamingStatistic_view_def streaming_represents_def base_represents_def)

lemma summaryOf_represents:
  assumes "view_represents v xs"
  shows "\<exists>s. summaryOf v = Some s \<and> streaming_represents s xs \<and> st_id s = v_id v"
proof (cases "xs = []")
  case True
  then show ?thesis using assms
    by (simp add: view_represents_def summaryOf_def StreamingStatistic_init_def StatisticImpl_init_def
        StatisticImpl.defs streaming_represents_def base_represents_def sample_mean_def)
next
  case False
  have "sample_pvariance xs * real (length xs) = squares xs - (total xs)\<^sup>2 / real (length xs)"
    unfolding sample_pvariance_def sum_squares_mean using False by simp
  then show ?thesis using assms False
    by (simp add: view_represents_def summaryOf_def streaming_represents_def base_represents_def)
qed



subsection \<open>Serialisation\<close>

definition setDurationFromNanos :: "64 word \<Rightarrow> Duration" where
  "setDurationFromNanos nanos =
     \<lparr>dur_seconds = int (unat nanos div 1000000000), dur_nanos = int (unat nanos mod 1000000000)\<rparr>"

datatype SerializationDomain = RAW | DURATION

text \<open>The oneofs of the message: a duration or a raw value.\<close>

datatype 'r stat_value = DurationValue Duration | RawValue 'r

record Percentile =
  pc_value :: "real stat_value"
  pc_percentile :: real
  pc_count :: nat

record StatisticProto =
  sp_id :: string
  sp_count :: nat
  sp_mean :: "real option stat_value"
  sp_pstdev :: "real option stat_value"
  sp_min :: "64 word stat_value"
  sp_max :: "64 word stat_value"
  sp_percentiles :: "Percentile list"

text \<open>\<open>static_cast<int64_t>(std::round(x))\<close>, then the conversion to \<open>uint64_t\<close> of the parameter.\<close>

definition round_to_nanos :: "real option \<Rightarrow> 64 word" where
  "round_to_nanos m = word_of_int (c_round (nan_to_zero m))"

definition toProto :: "SerializationDomain \<Rightarrow> statistic_view \<Rightarrow> StatisticProto" where
  "toProto domain v =
     (case domain of
        DURATION \<Rightarrow>
          \<lparr>sp_id = v_id v, sp_count = v_count v,
           sp_mean = DurationValue (setDurationFromNanos (if v_count v = 0 then 0 else round_to_nanos (v_mean v))),
           sp_pstdev = DurationValue (setDurationFromNanos (if v_count v = 0 then 0 else round_to_nanos (v_pstdev v))),
           sp_min = DurationValue (setDurationFromNanos (if v_min v = UINT64_MAX then 0 else v_min v)),
           sp_max = DurationValue (setDurationFromNanos (v_max v)),
           sp_percentiles = []\<rparr>
      | RAW \<Rightarrow>
          \<lparr>sp_id = v_id v, sp_count = v_count v, sp_mean = RawValue (v_mean v), sp_pstdev = RawValue (v_pstdev v),
           sp_min = RawValue (v_min v), sp_max = RawValue (v_max v), sp_percentiles = []\<rparr>)"

definition duration_nanos :: "'r stat_value \<Rightarrow> int option" where
  "duration_nanos v = (case v of DurationValue d \<Rightarrow> Some (dur_seconds d * 1000000000 + dur_nanos d) | RawValue _ \<Rightarrow> None)"

lemma int_div_mod: "int (a div k) * int k + int (a mod k) = int a"
  by (simp flip: of_nat_mult of_nat_add)

lemma setDurationFromNanos_nanos:
  "duration_nanos (DurationValue (setDurationFromNanos n)) = Some (int (unat n))"
  using int_div_mod [of "unat n" 1000000000]
  by (simp add: duration_nanos_def setDurationFromNanos_def del: of_nat_unat)

lemma setDurationFromNanos_range:
  "0 \<le> dur_nanos (setDurationFromNanos n)" "dur_nanos (setDurationFromNanos n) < 1000000000"
  "0 \<le> dur_seconds (setDurationFromNanos n)"
  by (simp_all add: setDurationFromNanos_def)

lemma total_bounds:
  "real (length xs) * real (unat (sample_min xs)) \<le> total xs"
  "total xs \<le> real (length xs) * real (unat (sample_max xs))"
proof -
  have "real (length xs) * real (unat l) \<le> total xs" if "\<forall>x\<in>set xs. l \<le> x" for l
    using that by (induction xs) (auto simp: word_le_nat_alt algebra_simps simp del: of_nat_unat)
  moreover have "\<forall>x\<in>set xs. sample_min xs \<le> x" by (cases "xs = []") (auto simp: sample_min_in)
  ultimately show "real (length xs) * real (unat (sample_min xs)) \<le> total xs" by blast
  have "total xs \<le> real (length xs) * real (unat u)" if "\<forall>x\<in>set xs. x \<le> u" for u
    using that by (induction xs) (auto simp: word_le_nat_alt algebra_simps simp del: of_nat_unat)
  moreover have "\<forall>x\<in>set xs. x \<le> sample_max xs" by (cases "xs = []") (auto simp: sample_max_in)
  ultimately show "total xs \<le> real (length xs) * real (unat (sample_max xs))" by blast
qed


lemma mean_within_extremes:
  "xs \<noteq> [] \<Longrightarrow> real (unat (sample_min xs)) \<le> sample_mean xs \<and> sample_mean xs \<le> real (unat (sample_max xs))"
  using total_bounds [of xs] by (simp add: sample_mean_def field_simps del: of_nat_unat)

lemma c_round_between: "real m \<le> x \<Longrightarrow> x \<le> real n \<Longrightarrow> int m \<le> c_round x \<and> c_round x \<le> int n"
  using c_round_mono [of "real m" x] c_round_mono [of x "real n"] c_round_of_int [of "int m"] c_round_of_int [of "int n"]
  by simp




text \<open>
  Native serialisation: the messages of \<^verbatim>\<open>internal_proto/statistic/statistic.proto\<close>. Writing a message
  to bytes and parsing it are protobuf's; what the code relies on is that parsing inverts writing.
\<close>

record SimpleStatisticProto =
  pb_id :: string
  pb_count :: nat
  pb_min :: "64 word"
  pb_max :: "64 word"
  pb_sum_x :: real
  pb_sum_x_2 :: real

record StreamingStatisticProto =
  pt_id :: string
  pt_count :: nat
  pt_min :: "64 word"
  pt_max :: "64 word"
  pt_mean :: real
  pt_accumulated_variance :: real

type_synonym 'm proto_codec = "('m \<Rightarrow> string) \<times> (string \<Rightarrow> 'm option)"

definition proto_documented :: "'m proto_codec \<Rightarrow> bool" where
  "proto_documented pc \<longleftrightarrow> (\<forall>m. snd pc (fst pc m) = Some m)"

datatype status_error = Unimplemented string | Internal string

definition StatisticImpl_serializeNative :: "status_error + string" where
  "StatisticImpl_serializeNative = Inl (Unimplemented ''serializeNative not implemented.'')"

definition StatisticImpl_deserializeNative :: "string \<Rightarrow> 's \<Rightarrow> status_error + 's" where
  "StatisticImpl_deserializeNative stream s = Inl (Unimplemented ''deserializeNative not implemented.'')"

definition SimpleStatistic_serializeNative :: "SimpleStatisticProto proto_codec \<Rightarrow> SimpleStatistic \<Rightarrow> status_error + string" where
  "SimpleStatistic_serializeNative pc s = Inr (fst pc
     \<lparr>pb_id = st_id s, pb_count = st_count s, pb_min = st_min s, pb_max = st_max s,
      pb_sum_x = sum_x s, pb_sum_x_2 = sum_x2 s\<rparr>)"

definition SimpleStatistic_deserializeNative ::
    "SimpleStatisticProto proto_codec \<Rightarrow> string \<Rightarrow> SimpleStatistic \<Rightarrow> status_error + SimpleStatistic" where
  "SimpleStatistic_deserializeNative pc stream s =
     (case snd pc stream of
        None \<Rightarrow> Inl (Internal ''Failed to read back SimpleStatistic data'')
      | Some m \<Rightarrow> Inr (s\<lparr>st_id := pb_id m, st_count := pb_count m, st_min := pb_min m, st_max := pb_max m,
           sum_x := pb_sum_x m, sum_x2 := pb_sum_x_2 m\<rparr>))"

definition StreamingStatistic_serializeNative ::
    "StreamingStatisticProto proto_codec \<Rightarrow> StreamingStatistic \<Rightarrow> status_error + string" where
  "StreamingStatistic_serializeNative pc s = Inr (fst pc
     \<lparr>pt_id = st_id s, pt_count = st_count s, pt_min = st_min s, pt_max = st_max s,
      pt_mean = ss_mean s, pt_accumulated_variance = accumulated_variance s\<rparr>)"

definition StreamingStatistic_deserializeNative ::
    "StreamingStatisticProto proto_codec \<Rightarrow> string \<Rightarrow> StreamingStatistic \<Rightarrow> status_error + StreamingStatistic" where
  "StreamingStatistic_deserializeNative pc stream s =
     (case snd pc stream of
        None \<Rightarrow> Inl (Internal ''Failed to read back StreamingStatistic data'')
      | Some m \<Rightarrow> Inr (s\<lparr>st_id := pt_id m, st_count := pt_count m, st_min := pt_min m, st_max := pt_max m,
           ss_mean := pt_mean m, accumulated_variance := pt_accumulated_variance m\<rparr>))"

lemma simple_native_roundtrip:
  "proto_documented pc \<Longrightarrow> SimpleStatistic_serializeNative pc s = Inr stream \<Longrightarrow>
     SimpleStatistic_deserializeNative pc stream s' = Inr s"
  by (cases s; cases s') (auto simp: proto_documented_def SimpleStatistic_serializeNative_def SimpleStatistic_deserializeNative_def)

lemma streaming_native_roundtrip:
  "proto_documented pc \<Longrightarrow> StreamingStatistic_serializeNative pc s = Inr stream \<Longrightarrow>
     StreamingStatistic_deserializeNative pc stream s' = Inr s"
  by (cases s; cases s') (auto simp: proto_documented_def StreamingStatistic_serializeNative_def StreamingStatistic_deserializeNative_def)

subsection \<open>Histograms\<close>

text \<open>
  HdrHistogram (\<open>hdr_histogram\<close>), initialised for values from 1 ns to 60 s with four significant
  digits. Its routines are parameters. What the code relies on, from \<^verbatim>\<open>hdr_histogram.h\<close>: recording
  fails and leaves the histogram alone exactly when the value is out of range, and counts the value
  otherwise; adding one histogram to another of the same configuration drops nothing.
\<close>

record 'h hdr_lib =
  hdr_init :: 'h
  hdr_record_value :: "'h \<Rightarrow> int \<Rightarrow> bool \<times> 'h"
  hdr_total_count :: "'h \<Rightarrow> nat"
  hdr_mean :: "'h \<Rightarrow> real"
  hdr_stddev :: "'h \<Rightarrow> real"
  hdr_value_at_percentile :: "'h \<Rightarrow> real \<Rightarrow> 64 word"
  hdr_add :: "'h \<Rightarrow> 'h \<Rightarrow> nat \<times> 'h"
  hdr_percentiles :: "nat \<Rightarrow> 'h \<Rightarrow> (64 word \<times> real \<times> nat) list"
  hdr_log_encode :: "'h \<Rightarrow> string option"
  hdr_log_decode :: "string \<Rightarrow> 'h option"

definition hdr_max_latency :: int where "hdr_max_latency = 1000 * 1000 * 1000 * 60"

definition trackable :: "sample \<Rightarrow> bool" where
  "trackable v \<longleftrightarrow> 0 \<le> sint v \<and> sint v \<le> hdr_max_latency"

definition hdr_documented :: "'h hdr_lib \<Rightarrow> bool" where
  "hdr_documented lib \<longleftrightarrow>
     hdr_total_count lib (hdr_init lib) = 0 \<and>
     (\<forall>h v. 0 \<le> v \<and> v \<le> hdr_max_latency \<longrightarrow>
        (\<exists>h'. hdr_record_value lib h v = (True, h') \<and> hdr_total_count lib h' = hdr_total_count lib h + 1)) \<and>
     (\<forall>h v. \<not> (0 \<le> v \<and> v \<le> hdr_max_latency) \<longrightarrow> hdr_record_value lib h v = (False, h)) \<and>
     (\<forall>h g. \<exists>h'. hdr_add lib h g = (0, h') \<and> hdr_total_count lib h' = hdr_total_count lib h + hdr_total_count lib g) \<and>
     (\<forall>h s. hdr_log_encode lib h = Some s \<longrightarrow> hdr_log_decode lib s = Some h)"

record 'h HdrStatistic = StatisticImpl +
  hdr_histogram :: 'h

definition HdrStatistic_init :: "'h hdr_lib \<Rightarrow> 'h HdrStatistic" where
  "HdrStatistic_init lib = StatisticImpl.extend StatisticImpl_init \<lparr>hdr_histogram = hdr_init lib\<rparr>"

definition HdrStatistic_addValue :: "'h hdr_lib \<Rightarrow> sample \<Rightarrow> 'h HdrStatistic \<Rightarrow> 'h HdrStatistic" where
  "HdrStatistic_addValue lib v s =
     (case hdr_record_value lib (hdr_histogram s) (sint v) of
        (False, h) \<Rightarrow> s\<lparr>hdr_histogram := h\<rparr>
      | (True, h) \<Rightarrow> StatisticImpl_addValue v (s\<lparr>hdr_histogram := h\<rparr>))"

definition HdrStatistic_count :: "'h hdr_lib \<Rightarrow> 'h HdrStatistic \<Rightarrow> nat" where
  "HdrStatistic_count lib s = hdr_total_count lib (hdr_histogram s)"

definition HdrStatistic_mean :: "'h hdr_lib \<Rightarrow> 'h HdrStatistic \<Rightarrow> real option" where
  "HdrStatistic_mean lib s = (if HdrStatistic_count lib s = 0 then None else Some (hdr_mean lib (hdr_histogram s)))"

definition HdrStatistic_pstdev :: "'h hdr_lib \<Rightarrow> 'h HdrStatistic \<Rightarrow> real option" where
  "HdrStatistic_pstdev lib s = (if HdrStatistic_count lib s = 0 then None else Some (hdr_stddev lib (hdr_histogram s)))"

definition HdrStatistic_pvariance :: "'h hdr_lib \<Rightarrow> 'h HdrStatistic \<Rightarrow> real option" where
  "HdrStatistic_pvariance lib s = map_option (\<lambda>d. d * d) (HdrStatistic_pstdev lib s)"

definition HdrStatistic_min :: "'h hdr_lib \<Rightarrow> 'h HdrStatistic \<Rightarrow> 64 word" where
  "HdrStatistic_min lib s =
     (if HdrStatistic_count lib s = 0 then UINT64_MAX else hdr_value_at_percentile lib (hdr_histogram s) 0)"

definition HdrStatistic_max :: "'h hdr_lib \<Rightarrow> 'h HdrStatistic \<Rightarrow> 64 word" where
  "HdrStatistic_max lib s = hdr_value_at_percentile lib (hdr_histogram s) 100"

definition HdrStatistic_combine :: "'h hdr_lib \<Rightarrow> 'h HdrStatistic \<Rightarrow> 'h HdrStatistic \<Rightarrow> 'h HdrStatistic" where
  "HdrStatistic_combine lib a b =
     (let combined = HdrStatistic_init lib;
          h = snd (hdr_add lib (hdr_histogram combined) (hdr_histogram a))
      in combined\<lparr>hdr_histogram := snd (hdr_add lib h (hdr_histogram b))\<rparr>)"

definition HdrStatistic_view :: "'h hdr_lib \<Rightarrow> 'h HdrStatistic \<Rightarrow> statistic_view" where
  "HdrStatistic_view lib s = \<lparr>v_id = st_id s, v_count = HdrStatistic_count lib s, v_min = HdrStatistic_min lib s,
     v_max = HdrStatistic_max lib s, v_mean = HdrStatistic_mean lib s, v_pvariance = HdrStatistic_pvariance lib s,
     v_pstdev = HdrStatistic_pstdev lib s\<rparr>"

definition HdrStatistic_toProto :: "'h hdr_lib \<Rightarrow> SerializationDomain \<Rightarrow> 'h HdrStatistic \<Rightarrow> StatisticProto" where
  "HdrStatistic_toProto lib domain s =
     (toProto domain (HdrStatistic_view lib s))\<lparr>sp_percentiles :=
        map (\<lambda>(highest, percentile, cumulative).
               \<lparr>pc_value = (case domain of DURATION \<Rightarrow> DurationValue (setDurationFromNanos highest)
                           | RAW \<Rightarrow> RawValue (real (unat highest))),
                pc_percentile = percentile / 100, pc_count = cumulative\<rparr>)
            (hdr_percentiles lib 5 (hdr_histogram s))\<rparr>"

definition HdrStatistic_serializeNative :: "'h hdr_lib \<Rightarrow> 'h HdrStatistic \<Rightarrow> status_error + string" where
  "HdrStatistic_serializeNative lib s =
     (case hdr_log_encode lib (hdr_histogram s) of
        Some d \<Rightarrow> Inr d | None \<Rightarrow> Inl (Internal ''Failed to write HdrHistogram data''))"

definition HdrStatistic_deserializeNative ::
    "'h hdr_lib \<Rightarrow> string \<Rightarrow> 'h HdrStatistic \<Rightarrow> status_error + 'h HdrStatistic" where
  "HdrStatistic_deserializeNative lib stream s =
     (case hdr_log_decode lib stream of
        Some h \<Rightarrow> Inr (s\<lparr>hdr_histogram := h\<rparr>)
      | None \<Rightarrow> Inl (Internal ''Failed to read back HdrHistogram data''))"


lemma hdr_add_count:
  assumes "hdr_documented lib"
  shows "HdrStatistic_count lib (HdrStatistic_addValue lib v s) = HdrStatistic_count lib s + of_bool (trackable v)"
proof (cases "trackable v")
  case True
  then obtain h where "hdr_record_value lib (hdr_histogram s) (sint v) = (True, h)"
      "hdr_total_count lib h = hdr_total_count lib (hdr_histogram s) + 1"
    using assms unfolding hdr_documented_def trackable_def by blast
  then show ?thesis using True
    by (simp add: HdrStatistic_addValue_def HdrStatistic_count_def StatisticImpl_addValue_def)
next
  case False
  then have "hdr_record_value lib (hdr_histogram s) (sint v) = (False, hdr_histogram s)"
    using assms unfolding hdr_documented_def trackable_def by blast
  then show ?thesis using False by (simp add: HdrStatistic_addValue_def HdrStatistic_count_def)
qed

lemma hdr_fold_count:
  "hdr_documented lib \<Longrightarrow>
     HdrStatistic_count lib (fold (HdrStatistic_addValue lib) xs s) = HdrStatistic_count lib s + length (filter trackable xs)"
  by (induction xs arbitrary: s) (simp_all add: hdr_add_count)

lemma hdr_combine_count:
  assumes "hdr_documented lib"
  shows "HdrStatistic_count lib (HdrStatistic_combine lib a b) = HdrStatistic_count lib a + HdrStatistic_count lib b"
proof -
  have "hdr_total_count lib (snd (hdr_add lib h g)) = hdr_total_count lib h + hdr_total_count lib g" for h g
    using assms unfolding hdr_documented_def by (metis snd_conv)
  moreover have "hdr_total_count lib (hdr_init lib) = 0" using assms unfolding hdr_documented_def by blast
  ultimately show ?thesis
    by (simp add: HdrStatistic_count_def HdrStatistic_combine_def Let_def HdrStatistic_init_def
        StatisticImpl.defs StatisticImpl_init_def)
qed


text \<open>A histogram that keeps its values, to show that the documented behaviour can hold.\<close>

definition sample_hdr :: "int list hdr_lib" where
  "sample_hdr = \<lparr>hdr_init = [],
     hdr_record_value = (\<lambda>h v. if 0 \<le> v \<and> v \<le> hdr_max_latency then (True, h @ [v]) else (False, h)),
     hdr_total_count = length, hdr_mean = (\<lambda>h. real_of_int (sum_list h) / real (length h)), hdr_stddev = (\<lambda>h. 0),
     hdr_value_at_percentile = (\<lambda>h p. 0), hdr_add = (\<lambda>h g. (0, h @ g)), hdr_percentiles = (\<lambda>n h. []),
     hdr_log_encode = (\<lambda>h. None), hdr_log_decode = (\<lambda>s. None)\<rparr>"


text \<open>circllhist: as a parameter, with the routines the code calls.\<close>

record 'h circll_lib =
  hist_alloc :: 'h
  hist_insert_intscale :: "'h \<Rightarrow> sample \<Rightarrow> int \<Rightarrow> nat \<Rightarrow> 'h"
  hist_approx_mean :: "'h \<Rightarrow> real option"
  hist_approx_stddev :: "'h \<Rightarrow> real"
  hist_accumulate :: "'h \<Rightarrow> 'h \<Rightarrow> 'h"
  hist_approx_quantile :: "'h \<Rightarrow> real list \<Rightarrow> real list"
  hist_approx_count_below :: "'h \<Rightarrow> real \<Rightarrow> nat"

record 'h CircllhistStatistic = StatisticImpl +
  circll_histogram :: 'h

definition CircllhistStatistic_init :: "'h circll_lib \<Rightarrow> 'h CircllhistStatistic" where
  "CircllhistStatistic_init lib = StatisticImpl.extend StatisticImpl_init \<lparr>circll_histogram = hist_alloc lib\<rparr>"

definition CircllhistStatistic_addValue ::
    "'h circll_lib \<Rightarrow> sample \<Rightarrow> 'h CircllhistStatistic \<Rightarrow> 'h CircllhistStatistic" where
  "CircllhistStatistic_addValue lib v s =
     StatisticImpl_addValue v (s\<lparr>circll_histogram := hist_insert_intscale lib (circll_histogram s) v 0 1\<rparr>)"

definition CircllhistStatistic_mean :: "'h circll_lib \<Rightarrow> 'h CircllhistStatistic \<Rightarrow> real option" where
  "CircllhistStatistic_mean lib s = hist_approx_mean lib (circll_histogram s)"

definition CircllhistStatistic_pstdev :: "'h circll_lib \<Rightarrow> 'h CircllhistStatistic \<Rightarrow> real option" where
  "CircllhistStatistic_pstdev lib s =
     (if st_count s = 0 then None else Some (hist_approx_stddev lib (circll_histogram s)))"

definition CircllhistStatistic_pvariance :: "'h circll_lib \<Rightarrow> 'h CircllhistStatistic \<Rightarrow> real option" where
  "CircllhistStatistic_pvariance lib s = map_option (\<lambda>d. d * d) (CircllhistStatistic_pstdev lib s)"

definition CircllhistStatistic_combine ::
    "'h circll_lib \<Rightarrow> 'h CircllhistStatistic \<Rightarrow> 'h CircllhistStatistic \<Rightarrow> 'h CircllhistStatistic" where
  "CircllhistStatistic_combine lib a b = (CircllhistStatistic_init lib)
     \<lparr>circll_histogram := hist_accumulate lib (hist_accumulate lib (hist_alloc lib) (circll_histogram a)) (circll_histogram b),
      st_min := min (st_min a) (st_min b), st_max := max (st_max a) (st_max b), st_count := st_count a + st_count b\<rparr>"

definition CircllhistStatistic_view :: "'h circll_lib \<Rightarrow> 'h CircllhistStatistic \<Rightarrow> statistic_view" where
  "CircllhistStatistic_view lib s = \<lparr>v_id = st_id s, v_count = st_count s, v_min = st_min s, v_max = st_max s,
     v_mean = CircllhistStatistic_mean lib s, v_pvariance = CircllhistStatistic_pvariance lib s,
     v_pstdev = CircllhistStatistic_pstdev lib s\<rparr>"

definition circll_quantiles :: "real list" where
  "circll_quantiles = [0, 0.1, 0.2, 0.3, 0.4, 0.5, 0.55, 0.6, 0.65, 0.7, 0.75, 0.775, 0.8, 0.825, 0.85, 0.875,
     0.90, 0.925, 0.95, 0.975, 0.99, 0.995, 0.999, 1]"

text \<open>\<open>static_cast<int64_t>\<close> of a double truncates towards zero.\<close>

definition c_trunc :: "real \<Rightarrow> int" where
  "c_trunc x = (if 0 \<le> x then \<lfloor>x\<rfloor> else \<lceil>x\<rceil>)"

definition CircllhistStatistic_toProto ::
    "'h circll_lib \<Rightarrow> SerializationDomain \<Rightarrow> 'h CircllhistStatistic \<Rightarrow> StatisticProto" where
  "CircllhistStatistic_toProto lib domain s =
     (let proto = toProto domain (CircllhistStatistic_view lib s);
          computed = hist_approx_quantile lib (circll_histogram s) circll_quantiles
      in if st_count s = 0 then proto
         else proto\<lparr>sp_percentiles :=
           map (\<lambda>(q, c). \<lparr>pc_value = (case domain of DURATION \<Rightarrow> DurationValue (setDurationFromNanos (word_of_int (c_trunc c)))
                                    | RAW \<Rightarrow> RawValue c),
                          pc_percentile = q, pc_count = hist_approx_count_below lib (circll_histogram s) c\<rparr>)
               (zip circll_quantiles computed)\<rparr>)"

interpretation circll: statistic_counting "CircllhistStatistic_init lib" "CircllhistStatistic_addValue lib"
  "CircllhistStatistic_combine lib" st_count "\<lambda>s. unat (st_min s)" "\<lambda>s. unat (st_max s)" base_represents
  for lib :: "'h circll_lib"
proof (unfold_locales, goal_cases)
  case (2 s xs v) then show ?case
    by (simp add: CircllhistStatistic_addValue_def base_represents_def StatisticImpl_addValue_def)
qed (simp_all add: base_represents_def CircllhistStatistic_init_def StatisticImpl_init_def StatisticImpl.defs
      CircllhistStatistic_combine_def)

subsection \<open>Statistics that also feed the stats sinks\<close>

text \<open>A sinkable statistic: its own samples, the worker it belongs to, and what it delivered to the sinks.\<close>

record 's SinkableStatistic =
  sk_stat :: 's
  sk_worker_id :: "int option"
  sk_delivered :: "sample list"

definition sinkable_recordValue :: "(sample \<Rightarrow> 's \<Rightarrow> 's) \<Rightarrow> sample \<Rightarrow> 's SinkableStatistic \<Rightarrow> 's SinkableStatistic" where
  "sinkable_recordValue addv v s = s\<lparr>sk_stat := addv v (sk_stat s), sk_delivered := sk_delivered s @ [v]\<rparr>"

definition SinkableHdrStatistic_recordValue ::
    "'h hdr_lib \<Rightarrow> sample \<Rightarrow> 'h HdrStatistic SinkableStatistic \<Rightarrow> 'h HdrStatistic SinkableStatistic" where
  "SinkableHdrStatistic_recordValue lib = sinkable_recordValue (HdrStatistic_addValue lib)"

definition SinkableCircllhistStatistic_recordValue ::
    "'h circll_lib \<Rightarrow> sample \<Rightarrow> 'h CircllhistStatistic SinkableStatistic \<Rightarrow> 'h CircllhistStatistic SinkableStatistic" where
  "SinkableCircllhistStatistic_recordValue lib = sinkable_recordValue (CircllhistStatistic_addValue lib)"

definition show_int :: "int \<Rightarrow> string" where
  "show_int i = (if i < 0 then CHR ''-'' # show_nat (nat (- i)) else show_nat (nat i))"

definition tagExtractedName :: "int option \<Rightarrow> string \<Rightarrow> string" where
  "tagExtractedName worker_id i =
     (case worker_id of Some w \<Rightarrow> show_int w @ ''.'' @ i | None \<Rightarrow> i)"

end
