(* ===== verification/Termination.thy ===== *)
theory Termination
  imports Options "HOL-Library.Char_ord" "HOL-Library.List_Lexorder"
begin

text \<open>
  Termination predicates (\<^verbatim>\<open>source/common/termination_predicate_impl\<close>) and the chain that
  \<^verbatim>\<open>TerminationPredicateFactoryImpl\<close> builds from the options. A chain is a predicate and the child
  linked to it; a child is evaluated before the predicate that owns it. Counter values are read from
  the scope the counters live in, given as a function from names to values.
\<close>

datatype Status = PROCEED | TERMINATE | FAIL

datatype termination_predicate =
    DurationTerminationPredicate nanos nanos \<comment> \<open>start and duration\<close>
  | StatsCounterAbsoluteThreshold string nat Status

datatype termination_chain = Chain termination_predicate "termination_chain option"

primrec evaluate :: "time_source \<Rightarrow> (string \<Rightarrow> nat) \<Rightarrow> termination_predicate \<Rightarrow> Status" where
  "evaluate ts counters (DurationTerminationPredicate start duration) =
     (if monotonicTime ts - start > duration then TERMINATE else PROCEED)"
| "evaluate ts counters (StatsCounterAbsoluteThreshold counter limit status) =
     (if counters counter > limit then status else PROCEED)"

fun evaluateChain :: "time_source \<Rightarrow> (string \<Rightarrow> nat) \<Rightarrow> termination_chain \<Rightarrow> Status" where
  "evaluateChain ts counters (Chain p None) = evaluate ts counters p"
| "evaluateChain ts counters (Chain p (Some child)) =
     (case evaluateChain ts counters child of
        PROCEED \<Rightarrow> evaluate ts counters p
      | status \<Rightarrow> status)"

text \<open>
  \<open>link\<close> on the predicate at depth \<open>n\<close> of a chain, whose pointer the factory holds. Linking a second
  child aborts.
\<close>

fun link_at :: "nat \<Rightarrow> termination_chain \<Rightarrow> termination_chain \<Rightarrow> termination_chain result" where
  "link_at 0 child (Chain p None) = Inr (Chain p (Some child))"
| "link_at 0 child (Chain p (Some c)) = Inl (ReleaseAssert ''Linked child already set'')"
| "link_at (Suc n) child (Chain p (Some c)) = result_bind (link_at n child c) (\<lambda>c'. Inr (Chain p (Some c')))"
| "link_at (Suc n) child (Chain p None) = Inl (Panic ''null predicate'')"

fun appendToChain :: "termination_chain \<Rightarrow> termination_chain \<Rightarrow> termination_chain" where
  "appendToChain child (Chain p (Some c)) = Chain p (Some (appendToChain child c))"
| "appendToChain child (Chain p None) = Chain p (Some child)"

fun chain_list :: "termination_chain \<Rightarrow> termination_predicate list" where
  "chain_list (Chain p None) = [p]"
| "chain_list (Chain p (Some c)) = p # chain_list c"

text \<open>A \<open>std::map\<close> is iterated in the order of its keys.\<close>

definition in_key_order :: "TerminationPredicateMap \<Rightarrow> (string \<times> nat) list" where
  "in_key_order m = map (\<lambda>k. (k, the (m k))) (sorted_list_of_set (dom m))"

text \<open>The loop of \<open>linkConfiguredPredicates\<close>: the chain, and the depth of the last predicate.\<close>

fun link_predicates :: "Status \<Rightarrow> (string \<times> nat) list \<Rightarrow> nat \<Rightarrow> termination_chain \<Rightarrow> (nat \<times> termination_chain) result" where
  "link_predicates status [] n chain = Inr (n, chain)"
| "link_predicates status ((name, limit) # ps) n chain =
     result_bind (link_at n (Chain (StatsCounterAbsoluteThreshold name limit status) None) chain)
       (link_predicates status ps (Suc n))"

definition linkConfiguredPredicates ::
    "nat \<Rightarrow> termination_chain \<Rightarrow> TerminationPredicateMap \<Rightarrow> Status \<Rightarrow> (nat \<times> termination_chain) result" where
  "linkConfiguredPredicates n chain predicates status =
     (if status = PROCEED then Inl (ReleaseAssert ''PROCEED was unexpected'')
      else link_predicates status (in_key_order predicates) n chain)"

definition create_termination_predicate :: "OptionsImpl \<Rightarrow> nanos \<Rightarrow> termination_chain result" where
  "create_termination_predicate opt start =
     (let root = Chain (StatsCounterAbsoluteThreshold ''graceful_stop_requested'' 0 TERMINATE) None
      in result_bind
           (if \<not> o_no_duration opt
            then result_bind (link_at 0 (Chain (DurationTerminationPredicate start (int (o_duration opt) * one_second)) None) root)
                   (\<lambda>chain. Inr (1, chain))
            else Inr (0, root))
           (\<lambda>(n, chain). result_bind (linkConfiguredPredicates n chain (o_failure_predicates opt) FAIL)
             (\<lambda>(n, chain). result_bind (linkConfiguredPredicates n chain (o_termination_predicates opt) TERMINATE)
               (\<lambda>(n, chain). Inr chain))))"

subsection \<open>Chains as lists\<close>

lemma link_last:
  "length (chain_list chain) = Suc n \<Longrightarrow> link_at n child chain = Inr (appendToChain child chain)"
  by (induction n child chain rule: link_at.induct) (auto elim: chain_list.elims)

lemma link_twice_aborts:
  "Suc n < length (chain_list chain) \<Longrightarrow> link_at n child chain = Inl (ReleaseAssert ''Linked child already set'')"
  by (induction n child chain rule: link_at.induct) (auto elim: chain_list.elims)

lemma chain_list_append [simp]: "chain_list (appendToChain child chain) = chain_list chain @ chain_list child"
  by (induction child chain rule: appendToChain.induct) simp_all

lemma chain_list_nonempty [simp]: "chain_list chain \<noteq> []"
  by (cases chain rule: chain_list.cases) simp_all

text \<open>The verdict of a chain is that of its last predicate that does not say \<open>PROCEED\<close>.\<close>

fun last_verdict :: "Status list \<Rightarrow> Status" where
  "last_verdict [] = PROCEED"
| "last_verdict (s # ss) = (case last_verdict ss of PROCEED \<Rightarrow> s | status \<Rightarrow> status)"

lemma evaluateChain_list: "evaluateChain ts counters chain = last_verdict (map (evaluate ts counters) (chain_list chain))"
  by (induction ts counters chain rule: evaluateChain.induct) (simp_all split: Status.split)

lemma last_verdict_append:
  "last_verdict (xs @ ys) = (if last_verdict ys = PROCEED then last_verdict xs else last_verdict ys)"
  by (induction xs) (auto split: Status.split)

lemma last_verdict_counters:
  "last_verdict (map (evaluate ts counters) (map (\<lambda>(k, v). StatsCounterAbsoluteThreshold k v status) ps)) =
     (if \<exists>(k, v) \<in> set ps. counters k > v then status else PROCEED)"
  by (induction ps) (auto split: Status.split)

lemma link_predicates_list:
  "length (chain_list chain) = Suc n \<Longrightarrow>
     \<exists>chain'. link_predicates status ps n chain = Inr (n + length ps, chain') \<and>
       chain_list chain' = chain_list chain @ map (\<lambda>(k, v). StatsCounterAbsoluteThreshold k v status) ps"
proof (induction status ps n chain rule: link_predicates.induct)
  case (2 status name limit ps n chain)
  show ?case
    using "2.IH" [of "appendToChain (Chain (StatsCounterAbsoluteThreshold name limit status) None) chain"] "2.prems"
    by (simp add: link_last)
qed simp

lemma in_key_order_set: "finite (dom m) \<Longrightarrow> set (in_key_order m) = {(k, v). m k = Some v}"
  by (auto simp: in_key_order_def)

lemma in_key_order_exceeded:
  "finite (dom m) \<Longrightarrow> (\<exists>(k, v) \<in> set (in_key_order m). counters k > v) \<longleftrightarrow> (\<exists>k v. m k = Some v \<and> counters k > v)"
  by (auto simp: in_key_order_set)

subsection \<open>The chain the factory builds\<close>

lemma create_chain_list:
  "\<exists>chain. create_termination_predicate opt start = Inr chain \<and>
     chain_list chain =
       [StatsCounterAbsoluteThreshold ''graceful_stop_requested'' 0 TERMINATE] @
       (if o_no_duration opt then [] else [DurationTerminationPredicate start (int (o_duration opt) * one_second)]) @
       map (\<lambda>(k, v). StatsCounterAbsoluteThreshold k v FAIL) (in_key_order (o_failure_predicates opt)) @
       map (\<lambda>(k, v). StatsCounterAbsoluteThreshold k v TERMINATE) (in_key_order (o_termination_predicates opt))"
proof -
  have link: "\<exists>chain'. linkConfiguredPredicates n chain m status = Inr (n + length (in_key_order m), chain') \<and>
      chain_list chain' = chain_list chain @ map (\<lambda>(k, v). StatsCounterAbsoluteThreshold k v status) (in_key_order m)"
    if "length (chain_list chain) = Suc n" "status \<noteq> PROCEED" for n chain m status
    using link_predicates_list [OF that(1)] that(2) by (simp add: linkConfiguredPredicates_def)
  define chain0 where "chain0 = (let root = Chain (StatsCounterAbsoluteThreshold ''graceful_stop_requested'' 0 TERMINATE) None
    in if o_no_duration opt then root
       else appendToChain (Chain (DurationTerminationPredicate start (int (o_duration opt) * one_second)) None) root)"
  define n0 :: nat where "n0 = (if o_no_duration opt then 0 else 1)"
  have n0: "length (chain_list chain0) = Suc n0" by (simp add: n0_def chain0_def)
  obtain c1 where c1: "linkConfiguredPredicates n0 chain0 (o_failure_predicates opt) FAIL =
        Inr (n0 + length (in_key_order (o_failure_predicates opt)), c1)"
      "chain_list c1 = chain_list chain0 @ map (\<lambda>(k, v). StatsCounterAbsoluteThreshold k v FAIL) (in_key_order (o_failure_predicates opt))"
    using link [OF n0, of FAIL] by auto
  then obtain c2 where "linkConfiguredPredicates (n0 + length (in_key_order (o_failure_predicates opt))) c1
        (o_termination_predicates opt) TERMINATE = Inr (n0 + length (in_key_order (o_failure_predicates opt)) +
          length (in_key_order (o_termination_predicates opt)), c2)"
      "chain_list c2 = chain_list c1 @ map (\<lambda>(k, v). StatsCounterAbsoluteThreshold k v TERMINATE) (in_key_order (o_termination_predicates opt))"
    using link [of c1 "n0 + length (in_key_order (o_failure_predicates opt))" TERMINATE] n0 by auto
  then show ?thesis using c1
    by (auto simp: create_termination_predicate_def Let_def n0_def chain0_def)
qed

text \<open>What the options ask for, in the order in which it takes precedence.\<close>

definition exceeded :: "(string \<Rightarrow> nat) \<Rightarrow> TerminationPredicateMap \<Rightarrow> bool" where
  "exceeded counters m \<longleftrightarrow> (\<exists>k v. m k = Some v \<and> counters k > v)"

definition termination_verdict :: "OptionsImpl \<Rightarrow> nanos \<Rightarrow> time_source \<Rightarrow> (string \<Rightarrow> nat) \<Rightarrow> Status" where
  "termination_verdict opt start ts counters =
     (if exceeded counters (o_termination_predicates opt) then TERMINATE
      else if exceeded counters (o_failure_predicates opt) then FAIL
      else if \<not> o_no_duration opt \<and> monotonicTime ts > start + int (o_duration opt) * one_second then TERMINATE
      else if counters ''graceful_stop_requested'' > 0 then TERMINATE
      else PROCEED)"

lemma termination_chain_verdict_of:
  assumes "finite (dom (o_termination_predicates opt))" "finite (dom (o_failure_predicates opt))"
    "create_termination_predicate opt start = Inr chain"
  shows "evaluateChain ts counters chain = termination_verdict opt start ts counters"
proof -
  have "chain_list chain =
      [StatsCounterAbsoluteThreshold ''graceful_stop_requested'' 0 TERMINATE] @
      (if o_no_duration opt then [] else [DurationTerminationPredicate start (int (o_duration opt) * one_second)]) @
      map (\<lambda>(k, v). StatsCounterAbsoluteThreshold k v FAIL) (in_key_order (o_failure_predicates opt)) @
      map (\<lambda>(k, v). StatsCounterAbsoluteThreshold k v TERMINATE) (in_key_order (o_termination_predicates opt))"
    using create_chain_list [of opt start] assms(3) by auto
  then show ?thesis
    using in_key_order_exceeded [OF assms(1), of counters] in_key_order_exceeded [OF assms(2), of counters]
    by (auto simp: evaluateChain_list last_verdict_append last_verdict_counters simp del: map_map
        simp: termination_verdict_def exceeded_def)
qed



end
