(* ===== verification/Sequencer.thy ===== *)
theory Sequencer
  imports LimiterStacks Statistics Termination
begin

text \<open>
  The sequencer (\<^verbatim>\<open>source/common/sequencer_impl.cc\<close>): the loop that asks the rate limiter, starts
  requests on the target, hands acquisitions back when the target has no capacity, re-arms its timers
  and evaluates the termination predicates. What the sequencer holds references to (rate limiter,
  target, statistics, predicates) is the record \<open>seq_env\<close>; the dispatcher is the step relation
  \<open>seq_step\<close>, which fires timers that are due and completions of outstanding requests in any order.
\<close>

subsection \<open>State\<close>

definition NighthawkTimerResolution :: nanos where "NighthawkTimerResolution = 25 * one_microsecond"
definition NighthawkMaxIdleWait :: nanos where "NighthawkMaxIdleWait = 5 * one_millisecond"

text \<open>
  A call of the target at a clock reading says whether the request was started and, when the
  completion callback ran before the call returned, the clock reading that callback obtained.
\<close>

record ('l, 'w, 'q) seq_env =
  rl_tryAcquireOne :: "time_source \<Rightarrow> 'l \<Rightarrow> bool \<times> 'l"
  rl_releaseOne :: "time_source \<Rightarrow> 'l \<Rightarrow> 'l result"
  rl_elapsed :: "time_source \<Rightarrow> 'l \<Rightarrow> nanos \<times> 'l"
  rl_timeUntilNextRelease :: "time_source \<Rightarrow> 'l \<Rightarrow> nanos option"
  target :: "time_source \<Rightarrow> 'w \<Rightarrow> bool \<times> time_source option \<times> 'w"
  stat_addValue :: "sample \<Rightarrow> 'q \<Rightarrow> 'q"
  predicates :: "time_source \<Rightarrow> 'w \<Rightarrow> Status"

text \<open>A timer is the time it is due, or \<open>None\<close> when it is disabled or reset.\<close>

record ('l, 'q) SequencerImpl =
  rate_limiter :: 'l
  latency_statistic :: 'q
  blocked_statistic :: 'q
  periodic_timer :: "nanos option"
  spin_timer :: "nanos option"
  targets_initiated :: nat
  targets_completed :: nat
  running :: bool
  stopped_after :: "nanos option"
  blocked :: bool
  blocked_start :: nanos
  idle_strategy :: SequencerIdleStrategyOptions
  last_termination_status :: Status
  failed_terminations :: nat

definition mk_SequencerImpl ::
    "(string \<Rightarrow> 'q \<Rightarrow> 'q) \<Rightarrow> 'l \<Rightarrow> 'q \<Rightarrow> 'q \<Rightarrow> SequencerIdleStrategyOptions \<Rightarrow> ('l, 'q) SequencerImpl" where
  "mk_SequencerImpl set_id l lat blk idle =
     \<lparr>rate_limiter = l, latency_statistic = set_id ''sequencer.callback'' lat,
      blocked_statistic = set_id ''sequencer.blocking'' blk, periodic_timer = None, spin_timer = None,
      targets_initiated = 0, targets_completed = 0, running = False, stopped_after = None, blocked = False,
      blocked_start = 0, idle_strategy = idle, last_termination_status = PROCEED, failed_terminations = 0\<rparr>"

text \<open>
  The sequencer, the clock its cached time source shows, the world behind the target, and for every
  request that has not completed the time its completion callback captured.
\<close>

record ('l, 'w, 'q) seq_state =
  clock :: time_source
  seq :: "('l, 'q) SequencerImpl"
  world :: 'w
  outstanding :: "nanos list"

subsection \<open>Operations\<close>

definition executionDuration ::
    "('l, 'w, 'q) seq_env \<Rightarrow> time_source \<Rightarrow> ('l, 'q) SequencerImpl \<Rightarrow> nanos \<times> ('l, 'q) SequencerImpl" where
  "executionDuration env ts s =
     (case stopped_after s of
        Some d \<Rightarrow> (d, s)
      | None \<Rightarrow> (let (d, l) = rl_elapsed env ts (rate_limiter s) in (d, s\<lparr>rate_limiter := l\<rparr>)))"

text \<open>\<open>duration_cast<microseconds>\<close> truncates towards zero.\<close>

definition to_usec :: "nanos \<Rightarrow> int" where
  "to_usec d = (if 0 \<le> d then d div one_microsecond else - (- d div one_microsecond))"

definition completionsPerSecond ::
    "('l, 'w, 'q) seq_env \<Rightarrow> time_source \<Rightarrow> ('l, 'q) SequencerImpl \<Rightarrow> real \<times> ('l, 'q) SequencerImpl" where
  "completionsPerSecond env ts s =
     (let (d, s) = executionDuration env ts s; usec = real_of_int (to_usec d)
      in (if usec = 0 then 0 else real (targets_completed s) / usec * 1000000, s))"

definition idleWait :: "('l, 'w, 'q) seq_env \<Rightarrow> time_source \<Rightarrow> ('l, 'q) SequencerImpl \<Rightarrow> nanos" where
  "idleWait env ts s =
     (case rl_timeUntilNextRelease env ts (rate_limiter s) of
        None \<Rightarrow> NighthawkTimerResolution
      | Some d \<Rightarrow>
          if d \<le> 0 then NighthawkTimerResolution
          else min NighthawkMaxIdleWait (- (- d div one_microsecond) * one_microsecond))"

definition scheduleRun :: "('l, 'w, 'q) seq_env \<Rightarrow> time_source \<Rightarrow> ('l, 'q) SequencerImpl \<Rightarrow> ('l, 'q) SequencerImpl" where
  "scheduleRun env ts s =
     s\<lparr>periodic_timer := Some (monotonicTime ts +
         (if idle_strategy s = WAIT then idleWait env ts s else NighthawkTimerResolution))\<rparr>"

definition unblockAndUpdateStatisticIfNeeded ::
    "('l, 'w, 'q) seq_env \<Rightarrow> nanos \<Rightarrow> ('l, 'q) SequencerImpl \<Rightarrow> ('l, 'q) SequencerImpl" where
  "unblockAndUpdateStatisticIfNeeded env now s =
     (if blocked s
      then s\<lparr>blocked := False,
             blocked_statistic := stat_addValue env (word_of_int (now - blocked_start s)) (blocked_statistic s)\<rparr>
      else s)"

definition updateStartBlockingTimeIfNeeded :: "time_source \<Rightarrow> ('l, 'q) SequencerImpl \<Rightarrow> ('l, 'q) SequencerImpl" where
  "updateStartBlockingTimeIfNeeded ts s =
     (if \<not> blocked s then s\<lparr>blocked := True, blocked_start := monotonicTime ts\<rparr> else s)"

definition SequencerImpl_stop :: "('l, 'w, 'q) seq_env \<Rightarrow> time_source \<Rightarrow> bool \<Rightarrow> ('l, 'q) SequencerImpl \<Rightarrow> ('l, 'q) SequencerImpl" where
  "SequencerImpl_stop env ts failed s =
     (let s = snd (completionsPerSecond env ts s);
          s = (if failed then s\<lparr>failed_terminations := failed_terminations s + 1\<rparr> else s);
          s = s\<lparr>running := False, periodic_timer := None, spin_timer := None\<rparr>;
          s = unblockAndUpdateStatisticIfNeeded env (monotonicTime ts) s;
          (d, l) = rl_elapsed env ts (rate_limiter s)
      in s\<lparr>rate_limiter := l, stopped_after := Some d\<rparr>)"

text \<open>The completion callback of a request started in a run at \<open>now\<close>, called at clock \<open>ts\<close>.\<close>

definition on_complete :: "('l, 'w, 'q) seq_env \<Rightarrow> nanos \<Rightarrow> time_source \<Rightarrow> ('l, 'q) SequencerImpl \<Rightarrow> ('l, 'q) SequencerImpl" where
  "on_complete env now ts s =
     (let s = s\<lparr>latency_statistic := stat_addValue env (word_of_int (monotonicTime ts - now)) (latency_statistic s),
                targets_completed := targets_completed s + 1\<rparr>
      in if running s then s\<lparr>spin_timer := Some (monotonicTime ts)\<rparr> else s)"

definition sequencer_statistics :: "('q \<Rightarrow> string) \<Rightarrow> ('l, 'q) SequencerImpl \<Rightarrow> (string \<rightharpoonup> 'q)" where
  "sequencer_statistics id_of s =
     [id_of (latency_statistic s) \<mapsto> latency_statistic s, id_of (blocked_statistic s) \<mapsto> blocked_statistic s]"

text \<open>The condition of the loop, and the call of the target in its body.\<close>

definition acquire_one :: "('l, 'w, 'q) seq_env \<Rightarrow> ('l, 'w, 'q) seq_state \<Rightarrow> bool \<times> ('l, 'w, 'q) seq_state" where
  "acquire_one env c =
     (let (ok, l) = rl_tryAcquireOne env (clock c) (rate_limiter (seq c))
      in (ok, c\<lparr>seq := (seq c)\<lparr>rate_limiter := l\<rparr>\<rparr>))"

definition call_target :: "('l, 'w, 'q) seq_env \<Rightarrow> nanos \<Rightarrow> ('l, 'w, 'q) seq_state \<Rightarrow> bool \<times> ('l, 'w, 'q) seq_state" where
  "call_target env now c =
     (let (could_start, called_back, w) = target env (clock c) (world c)
      in (could_start,
          case called_back of
            Some ts \<Rightarrow> c\<lparr>world := w, clock := ts, seq := on_complete env now ts (seq c)\<rparr>
          | None \<Rightarrow> c\<lparr>world := w, outstanding := (if could_start then outstanding c @ [now] else outstanding c)\<rparr>))"

definition target_started :: "('l, 'w, 'q) seq_env \<Rightarrow> nanos \<Rightarrow> ('l, 'w, 'q) seq_state \<Rightarrow> ('l, 'w, 'q) seq_state" where
  "target_started env now c =
     (let s = unblockAndUpdateStatisticIfNeeded env now (seq c)
      in c\<lparr>seq := s\<lparr>targets_initiated := targets_initiated s + 1\<rparr>\<rparr>)"

definition target_blocked :: "('l, 'w, 'q) seq_env \<Rightarrow> ('l, 'w, 'q) seq_state \<Rightarrow> ('l, 'w, 'q) seq_state result" where
  "target_blocked env c =
     (let s = updateStartBlockingTimeIfNeeded (clock c) (seq c)
      in result_bind (rl_releaseOne env (clock c) (rate_limiter s))
           (\<lambda>l. Inr (c\<lparr>seq := s\<lparr>rate_limiter := l\<rparr>\<rparr>)))"

text \<open>The loop of \<open>run\<close>. It may not return: \<open>None\<close>.\<close>

partial_function (option) run_loop ::
    "('l, 'w, 'q) seq_env \<Rightarrow> nanos \<Rightarrow> ('l, 'w, 'q) seq_state \<Rightarrow> ('l, 'w, 'q) seq_state result option" where
  "run_loop env now c =
     (if \<not> fst (acquire_one env c) then Some (Inr (snd (acquire_one env c)))
      else if fst (call_target env now (snd (acquire_one env c)))
      then run_loop env now (target_started env now (snd (call_target env now (snd (acquire_one env c)))))
      else Some (target_blocked env (snd (call_target env now (snd (acquire_one env c))))))"

text \<open>What follows the loop: re-arm the periodic timer, or keep spinning.\<close>

definition after_loop :: "('l, 'w, 'q) seq_env \<Rightarrow> bool \<Rightarrow> ('l, 'w, 'q) seq_state \<Rightarrow> ('l, 'w, 'q) seq_state" where
  "after_loop env from_periodic_timer c =
     (let s = seq c; ts = clock c
      in c\<lparr>seq :=
           (if idle_strategy s = WAIT then scheduleRun env ts s
            else if from_periodic_timer then scheduleRun env ts s
            else if idle_strategy s = SPIN \<and> targets_initiated s = targets_completed s
              then s\<lparr>spin_timer := Some (monotonicTime ts)\<rparr>
            else if idle_strategy s = SLEEP
              then s\<lparr>spin_timer := Some (monotonicTime ts + 50 * one_microsecond)\<rparr>
            else s)\<rparr>)"

definition SequencerImpl_run :: "('l, 'w, 'q) seq_env \<Rightarrow> bool \<Rightarrow> ('l, 'w, 'q) seq_state \<Rightarrow> ('l, 'w, 'q) seq_state result option" where
  "SequencerImpl_run env from_periodic_timer c =
     (let now = monotonicTime (clock c);
          status = (if last_termination_status (seq c) = PROCEED then predicates env (clock c) (world c)
                    else last_termination_status (seq c));
          c = c\<lparr>seq := (seq c)\<lparr>last_termination_status := status\<rparr>\<rparr>
      in if status \<noteq> PROCEED then Some (Inr (c\<lparr>seq := SequencerImpl_stop env (clock c) (status = FAIL) (seq c)\<rparr>))
         else map_option (\<lambda>r. result_bind r (\<lambda>c. Inr (after_loop env from_periodic_timer c))) (run_loop env now c))"

definition SequencerImpl_start :: "('l, 'w, 'q) seq_env \<Rightarrow> ('l, 'w, 'q) seq_state \<Rightarrow> ('l, 'w, 'q) seq_state result option" where
  "SequencerImpl_start env c = SequencerImpl_run env False (c\<lparr>seq := scheduleRun env (clock c) ((seq c)\<lparr>running := True\<rparr>)\<rparr>)"

definition complete_outstanding :: "('l, 'w, 'q) seq_env \<Rightarrow> nat \<Rightarrow> ('l, 'w, 'q) seq_state \<Rightarrow> ('l, 'w, 'q) seq_state" where
  "complete_outstanding env i c =
     c\<lparr>seq := on_complete env (outstanding c ! i) (clock c) (seq c),
       outstanding := take i (outstanding c) @ drop (Suc i) (outstanding c)\<rparr>"

text \<open>
  The dispatcher of \<open>start\<close> and \<open>waitForCompletion\<close>: it starts the sequencer, fires a timer that is due,
  lets a request complete, or lets time pass while the world behind the target changes. A timer that
  fires is no longer armed. The clock never runs backwards.
\<close>

inductive seq_step :: "('l, 'w, 'q) seq_env \<Rightarrow> ('l, 'w, 'q) seq_state \<Rightarrow> ('l, 'w, 'q) seq_state \<Rightarrow> bool" for env where
  seq_start: "\<not> running (seq c) \<Longrightarrow> stopped_after (seq c) = None \<Longrightarrow>
     SequencerImpl_start env c = Some (Inr c') \<Longrightarrow> seq_step env c c'"
| seq_periodic: "periodic_timer (seq c) = Some due \<Longrightarrow> due \<le> monotonicTime (clock c) \<Longrightarrow>
     SequencerImpl_run env True (c\<lparr>seq := (seq c)\<lparr>periodic_timer := None\<rparr>\<rparr>) = Some (Inr c') \<Longrightarrow> seq_step env c c'"
| seq_spin: "spin_timer (seq c) = Some due \<Longrightarrow> due \<le> monotonicTime (clock c) \<Longrightarrow>
     SequencerImpl_run env False (c\<lparr>seq := (seq c)\<lparr>spin_timer := None\<rparr>\<rparr>) = Some (Inr c') \<Longrightarrow> seq_step env c c'"
| seq_complete: "i < length (outstanding c) \<Longrightarrow> seq_step env c (complete_outstanding env i c)"
| seq_time: "monotonicTime (clock c) \<le> monotonicTime ts \<Longrightarrow> seq_step env c (c\<lparr>clock := ts, world := w\<rparr>)"

inductive seq_reachable :: "('l, 'w, 'q) seq_env \<Rightarrow> ('l, 'w, 'q) seq_state \<Rightarrow> ('l, 'w, 'q) seq_state \<Rightarrow> bool" for env c0 where
  seq_initially: "seq_reachable env c0 c0"
| seq_later: "seq_reachable env c0 c \<Longrightarrow> seq_step env c c' \<Longrightarrow> seq_reachable env c0 c'"


subsection \<open>The wait of the idle strategy\<close>

lemma ceil_micro_bounds:
  "d \<le> - (- d div one_microsecond) * one_microsecond" "- (- d div one_microsecond) * one_microsecond < d + one_microsecond"
proof -
  have "- d div 1000 * 1000 + - d mod 1000 = - d" by (rule div_mult_mod_eq)
  moreover have "0 \<le> - d mod 1000" "- d mod 1000 < 1000" by simp_all
  ultimately have "- (- d div 1000 * 1000) = d + - d mod 1000" "0 \<le> - d mod 1000" "- d mod 1000 < 1000" by linarith+
  then show "d \<le> - (- d div one_microsecond) * one_microsecond" "- (- d div one_microsecond) * one_microsecond < d + one_microsecond"
    unfolding one_microsecond_def by linarith+
qed

lemma idleWait_bounds: "0 < idleWait env ts s" "idleWait env ts s \<le> NighthawkMaxIdleWait"
proof -
  have "0 < - (- d div one_microsecond) * one_microsecond" if "\<not> d \<le> 0" for d
    using ceil_micro_bounds(1) [of d] that by linarith
  then show "0 < idleWait env ts s" "idleWait env ts s \<le> NighthawkMaxIdleWait"
    by (auto simp: idleWait_def NighthawkMaxIdleWait_def NighthawkTimerResolution_def one_millisecond_def
        one_microsecond_def split: option.split)
qed

text \<open>The wait sleeps through everything before the request is due, and no longer than to the next microsecond.\<close>

lemma idleWait_due:
  "rl_timeUntilNextRelease env ts (rate_limiter s) = Some d \<Longrightarrow> 0 < d \<Longrightarrow>
     min d NighthawkMaxIdleWait \<le> idleWait env ts s \<and> idleWait env ts s < d + one_microsecond"
  using ceil_micro_bounds [of d] by (auto simp: idleWait_def min_def)

subsection \<open>One run\<close>

definition target_ok :: "('l, 'w, 'q) seq_env \<Rightarrow> bool" where
  "target_ok env \<longleftrightarrow> (\<forall>ts w could ts' w'. target env ts w = (could, Some ts', w') \<longrightarrow>
     could \<and> monotonicTime ts \<le> monotonicTime ts')"

text \<open>
  A limiter the sequencer can drive: one with an account, an invariant \<open>lim_inv\<close> that acquiring and
  handing back keep, and a bound on what it grants under that invariant.
\<close>

locale sequencer_limiter =
  counted_limiter "rl_tryAcquireOne env" "rl_releaseOne env" "rl_elapsed env" "rl_timeUntilNextRelease env"
    valid budget taken allowance
  for env :: "('l, 'w, 'q) seq_env" and valid budget taken allowance +
  fixes lim_inv :: "'l \<Rightarrow> bool" and bound :: "nanos \<Rightarrow> int"
  assumes lim_inv_try: "lim_inv l \<Longrightarrow> lim_inv (snd (rl_tryAcquireOne env ts l))"
    and lim_inv_release: "lim_inv l \<Longrightarrow> rl_releaseOne env ts l = Inr l' \<Longrightarrow> lim_inv l'"
    and lim_bound: "valid t l \<Longrightarrow> lim_inv l \<Longrightarrow> taken l \<le> bound t"
    and bound_mono: "t \<le> t' \<Longrightarrow> bound t \<le> bound t'"

text \<open>
  The account of the sequencer: what it initiated is what it took from the limiter and is complete or
  outstanding.
\<close>

definition seq_account :: "(nanos \<Rightarrow> 'l \<Rightarrow> bool) \<Rightarrow> ('l \<Rightarrow> int) \<Rightarrow> ('l \<Rightarrow> bool) \<Rightarrow> (nanos \<Rightarrow> int) \<Rightarrow>
    ('l, 'w, 'q) seq_state \<Rightarrow> bool" where
  "seq_account valid taken lim_inv bound c \<longleftrightarrow>
     valid (monotonicTime (clock c)) (rate_limiter (seq c)) \<and>
     (stopped_after (seq c) = None \<longrightarrow> lim_inv (rate_limiter (seq c))) \<and>
     taken (rate_limiter (seq c)) \<le> bound (monotonicTime (clock c)) \<and>
     taken (rate_limiter (seq c)) = int (targets_initiated (seq c)) \<and>
     targets_initiated (seq c) = targets_completed (seq c) + length (outstanding c)"

text \<open>What a run leaves alone until it re-arms its timer.\<close>

definition same_phase :: "('l, 'w, 'q) seq_state \<Rightarrow> ('l, 'w, 'q) seq_state \<Rightarrow> bool" where
  "same_phase c c' \<longleftrightarrow> monotonicTime (clock c) \<le> monotonicTime (clock c') \<and>
     running (seq c') = running (seq c) \<and> periodic_timer (seq c') = periodic_timer (seq c) \<and>
     idle_strategy (seq c') = idle_strategy (seq c) \<and> stopped_after (seq c') = stopped_after (seq c) \<and>
     last_termination_status (seq c') = last_termination_status (seq c)"

lemma same_phase_trans: "same_phase a b \<Longrightarrow> same_phase b c \<Longrightarrow> same_phase a c"
  by (simp add: same_phase_def)

lemmas seq_op_defs = acquire_one_def call_target_def target_started_def target_blocked_def
  unblockAndUpdateStatisticIfNeeded_def updateStartBlockingTimeIfNeeded_def on_complete_def Let_def

context sequencer_limiter
begin

abbreviation account where "account \<equiv> seq_account valid taken lim_inv bound"

lemma refused_account:
  assumes "account c" "stopped_after (seq c) = None" "acquire_one env c = (False, c')"
  shows "account c' \<and> same_phase c c'"
proof -
  obtain l where l: "rl_tryAcquireOne env (clock c) (rate_limiter (seq c)) = (False, l)"
    using assms(3) by (auto simp: acquire_one_def split: prod.splits)
  show ?thesis
    using assms taken_try [OF _ order_refl l] valid_try [of _ "rate_limiter (seq c)" "clock c"]
      lim_inv_try [of "rate_limiter (seq c)" "clock c"] l
    by (auto simp: seq_account_def same_phase_def acquire_one_def)
qed

lemma acquired_cases:
  assumes "acquire_one env c = (True, c1)" "call_target env now c1 = (could, c2)"
  obtains l cb w where "rl_tryAcquireOne env (clock c) (rate_limiter (seq c)) = (True, l)"
    "target env (clock c) (world c) = (could, cb, w)"
    "c2 = (case cb of
             Some ts \<Rightarrow> c\<lparr>world := w, clock := ts, seq := on_complete env now ts ((seq c)\<lparr>rate_limiter := l\<rparr>)\<rparr>
           | None \<Rightarrow> c\<lparr>world := w, seq := (seq c)\<lparr>rate_limiter := l\<rparr>,
               outstanding := (if could then outstanding c @ [now] else outstanding c)\<rparr>)"
proof -
  obtain l where l: "rl_tryAcquireOne env (clock c) (rate_limiter (seq c)) = (True, l)" "c1 = c\<lparr>seq := (seq c)\<lparr>rate_limiter := l\<rparr>\<rparr>"
    using assms(1) by (auto simp: acquire_one_def split: prod.splits)
  obtain b cb w where t: "target env (clock c) (world c) = (b, cb, w)" by (cases "target env (clock c) (world c)")
  then have "b = could" using assms(2) l(2) by (simp add: call_target_def)
  then show ?thesis using that [OF l(1)] t assms(2) l(2) by (auto simp: call_target_def split: option.splits)
qed

lemma started_account:
  assumes "target_ok env" "account c" "stopped_after (seq c) = None"
    "acquire_one env c = (True, c1)" "call_target env now c1 = (True, c2)"
  shows "account (target_started env now c2) \<and> same_phase c (target_started env now c2)"
proof -
  from assms(4,5) obtain l cb w where l: "rl_tryAcquireOne env (clock c) (rate_limiter (seq c)) = (True, l)"
    and t: "target env (clock c) (world c) = (True, cb, w)"
    and c2: "c2 = (case cb of
             Some ts \<Rightarrow> c\<lparr>world := w, clock := ts, seq := on_complete env now ts ((seq c)\<lparr>rate_limiter := l\<rparr>)\<rparr>
           | None \<Rightarrow> c\<lparr>world := w, seq := (seq c)\<lparr>rate_limiter := l\<rparr>,
               outstanding := (if True then outstanding c @ [now] else outstanding c)\<rparr>)"
    by (rule acquired_cases)
  have v: "valid (monotonicTime (clock c)) (rate_limiter (seq c))" using assms(2) by (simp add: seq_account_def)
  have l_ok: "valid (monotonicTime (clock c)) l" "lim_inv l" "taken l = int (targets_initiated (seq c)) + 1"
    using assms(2,3) taken_try [OF v order_refl l] valid_try [OF v order_refl]
      lim_inv_try [of "rate_limiter (seq c)" "clock c"] l by (simp_all add: seq_account_def)
  have count: "targets_initiated (seq c) = targets_completed (seq c) + length (outstanding c)"
    using assms(2) by (simp add: seq_account_def)
  show ?thesis
  proof (cases cb)
    case None
    then show ?thesis using l_ok count lim_bound [OF l_ok(1,2)]
      by (simp add: c2 seq_account_def same_phase_def seq_op_defs)
  next
    case (Some ts)
    then have le: "monotonicTime (clock c) \<le> monotonicTime ts" using assms(1) t unfolding target_ok_def by blast
    have "valid (monotonicTime ts) l" by (rule valid_later [OF l_ok(1) le])
    then show ?thesis using Some le l_ok count lim_bound [of "monotonicTime ts" l]
      by (simp add: c2 seq_account_def same_phase_def seq_op_defs)
  qed
qed

lemma blocked_account:
  assumes "target_ok env" "account c" "stopped_after (seq c) = None"
    "acquire_one env c = (True, c1)" "call_target env now c1 = (False, c2)"
  shows "\<exists>c'. target_blocked env c2 = Inr c' \<and> account c' \<and> same_phase c c'"
proof -
  from assms(4,5) obtain l cb w where l: "rl_tryAcquireOne env (clock c) (rate_limiter (seq c)) = (True, l)"
    and t: "target env (clock c) (world c) = (False, cb, w)"
    and c2: "c2 = (case cb of
             Some ts \<Rightarrow> c\<lparr>world := w, clock := ts, seq := on_complete env now ts ((seq c)\<lparr>rate_limiter := l\<rparr>)\<rparr>
           | None \<Rightarrow> c\<lparr>world := w, seq := (seq c)\<lparr>rate_limiter := l\<rparr>,
               outstanding := (if False then outstanding c @ [now] else outstanding c)\<rparr>)"
    by (rule acquired_cases)
  have "cb = None" using assms(1) t unfolding target_ok_def by (cases cb) blast+
  have v: "valid (monotonicTime (clock c)) (rate_limiter (seq c))" using assms(2) by (simp add: seq_account_def)
  obtain l' where l': "rl_releaseOne env (clock c) l = Inr l'"
    using success_release_ok [OF v order_refl l] by (auto simp: is_ok_conv)
  have "valid (monotonicTime (clock c)) l'" using valid_release [OF v order_refl] l l' by simp
  moreover have "taken l' = int (targets_initiated (seq c))"
    using taken_try [OF v order_refl l] taken_release [OF l'] assms(2) by (simp add: seq_account_def)
  moreover have "lim_inv l'"
    using lim_inv_release [OF _ l'] lim_inv_try [of "rate_limiter (seq c)" "clock c"] assms(2,3) l by (simp add: seq_account_def)
  ultimately show ?thesis using assms(2,3) l' \<open>cb = None\<close> lim_bound [of "monotonicTime (clock c)" l']
    by (simp add: c2 seq_account_def same_phase_def seq_op_defs)
qed

lemma run_loop_account:
  assumes "run_loop env now c = Some r" "target_ok env" "account c" "stopped_after (seq c) = None"
  shows "\<exists>c'. r = Inr c' \<and> account c' \<and> same_phase c c'"
proof -
  have "env' = env \<longrightarrow> account c \<and> stopped_after (seq c) = None \<longrightarrow> (\<exists>c'. r = Inr c' \<and> account c' \<and> same_phase c c')"
    if "run_loop env' now c = Some r" for env'
  proof (rule run_loop.raw_induct [OF _ that, where P = "\<lambda>env' now c r. env' = env \<longrightarrow> account c \<and> stopped_after (seq c) = None \<longrightarrow>
      (\<exists>c'. r = Inr c' \<and> account c' \<and> same_phase c c')"], intro impI)
    fix f :: "('l, 'w, 'q) seq_env \<Rightarrow> nanos \<Rightarrow> ('l, 'w, 'q) seq_state \<Rightarrow> ('l, 'w, 'q) seq_state result option"
      and env' :: "('l, 'w, 'q) seq_env" and now c r
    assume IH: "\<And>env' now c r. f env' now c = Some r \<Longrightarrow> env' = env \<longrightarrow>
        account c \<and> stopped_after (seq c) = None \<longrightarrow>
        (\<exists>c'. r = Inr c' \<and> account c' \<and> same_phase c c')"
      and eq: "(if \<not> fst (acquire_one env' c) then Some (Inr (snd (acquire_one env' c)))
        else if fst (call_target env' now (snd (acquire_one env' c)))
        then f env' now (target_started env' now (snd (call_target env' now (snd (acquire_one env' c)))))
        else Some (target_blocked env' (snd (call_target env' now (snd (acquire_one env' c)))))) = Some r"
      and env': "env' = env" and "account c \<and> stopped_after (seq c) = None"
    then have acc: "account c" "stopped_after (seq c) = None" by simp_all
    obtain ok c1 where c1: "acquire_one env c = (ok, c1)" by fastforce
    obtain could c2 where c2: "call_target env now c1 = (could, c2)" by fastforce
    consider "\<not> ok" | "ok" "could" | "ok" "\<not> could" by blast
    then show "\<exists>c'. r = Inr c' \<and> account c' \<and> same_phase c c'"
    proof cases
      case 1
      then show ?thesis using refused_account [OF acc] c1 eq env' by auto
    next
      case 2
      let ?s = "target_started env now c2"
      have ok: "account ?s" "same_phase c ?s" using started_account [OF assms(2) acc, of c1 now c2] c1 c2 2 by simp_all
      moreover have "stopped_after (seq ?s) = None" using ok(2) acc(2) by (simp add: same_phase_def)
      ultimately obtain c' where "r = Inr c'" "account c'" "same_phase ?s c'"
        using IH [of env now ?s r] eq env' c1 c2 2 by auto
      then show ?thesis using same_phase_trans [OF ok(2)] by blast
    next
      case 3
      then show ?thesis using blocked_account [OF assms(2) acc] c1 c2 eq env' by auto
    qed
  qed
  then show ?thesis using assms by blast
qed

lemma stop_account:
  assumes "account c"
  shows "account (c\<lparr>seq := SequencerImpl_stop env (clock c) failed (seq c)\<rparr>)"
proof -
  let ?l = "rate_limiter (seq c)"
  let ?once = "snd (rl_elapsed env (clock c) ?l)"
  have v: "valid (monotonicTime (clock c)) ?l" using assms by (simp_all add: seq_account_def)
  have once: "valid (monotonicTime (clock c)) ?once" "taken ?once = taken ?l"
    using valid_elapsed [OF v] taken_elapsed by simp_all
  have twice: "valid (monotonicTime (clock c)) (snd (rl_elapsed env (clock c) ?once))"
    "taken (snd (rl_elapsed env (clock c) ?once)) = taken ?l"
    using valid_elapsed [OF once(1)] taken_elapsed once(2) by simp_all
  show ?thesis using assms once twice
    by (cases "stopped_after (seq c)")
       (auto simp: seq_account_def SequencerImpl_stop_def completionsPerSecond_def executionDuration_def
         unblockAndUpdateStatisticIfNeeded_def Let_def split: prod.splits)
qed

end

text \<open>
  The timers: a running sequencer has its periodic timer armed, at most one idle wait from now; one that
  is not running has none, and keeps the time it ran for once it stopped.
\<close>

definition max_wait :: "('l, 'q) SequencerImpl \<Rightarrow> nanos" where
  "max_wait s = (if idle_strategy s = WAIT then NighthawkMaxIdleWait else NighthawkTimerResolution)"

definition periodic_armed :: "('l, 'w, 'q) seq_state \<Rightarrow> bool" where
  "periodic_armed c \<longleftrightarrow> (\<exists>due. periodic_timer (seq c) = Some due \<and> due \<le> monotonicTime (clock c) + max_wait (seq c))"

definition timers_ok :: "('l, 'w, 'q) seq_state \<Rightarrow> bool" where
  "timers_ok c \<longleftrightarrow>
     (if running (seq c) then periodic_armed c \<and> stopped_after (seq c) = None \<and> last_termination_status (seq c) = PROCEED
      else periodic_timer (seq c) = None \<and> spin_timer (seq c) = None)"

lemma scheduleRun_armed: "periodic_armed (c\<lparr>seq := scheduleRun env (clock c) s\<rparr>)"
  using idleWait_bounds(2) [of env "clock c" s]
  by (simp add: periodic_armed_def scheduleRun_def max_wait_def)

lemma scheduleRun_simps [simp]:
  "rate_limiter (scheduleRun env ts s) = rate_limiter s" "targets_initiated (scheduleRun env ts s) = targets_initiated s"
  "targets_completed (scheduleRun env ts s) = targets_completed s" "running (scheduleRun env ts s) = running s"
  "stopped_after (scheduleRun env ts s) = stopped_after s" "idle_strategy (scheduleRun env ts s) = idle_strategy s"
  "last_termination_status (scheduleRun env ts s) = last_termination_status s" "spin_timer (scheduleRun env ts s) = spin_timer s"
  by (simp_all add: scheduleRun_def)

lemma stop_simps [simp]:
  "running (SequencerImpl_stop env ts failed s) = False" "periodic_timer (SequencerImpl_stop env ts failed s) = None"
  "spin_timer (SequencerImpl_stop env ts failed s) = None" "stopped_after (SequencerImpl_stop env ts failed s) \<noteq> None"
  "targets_initiated (SequencerImpl_stop env ts failed s) = targets_initiated s"
  "last_termination_status (SequencerImpl_stop env ts failed s) = last_termination_status s"
  by (cases "stopped_after s"; simp add: SequencerImpl_stop_def completionsPerSecond_def executionDuration_def
      unblockAndUpdateStatisticIfNeeded_def Let_def split: prod.splits)+

lemma after_loop_timers:
  assumes "running (seq c)" "stopped_after (seq c) = None" "last_termination_status (seq c) = PROCEED"
    "from_periodic \<or> periodic_armed c"
  shows "timers_ok (after_loop env from_periodic c)"
proof -
  have "periodic_armed (after_loop env from_periodic c)"
    using assms(4) scheduleRun_armed [of env c "seq c"]
    by (auto simp: after_loop_def Let_def periodic_armed_def max_wait_def)
  then show ?thesis using assms(1-3) by (auto simp: timers_ok_def after_loop_def Let_def)
qed

lemma after_loop_account [simp]:
  "seq_account valid taken lim_inv bound (after_loop env from_periodic c) \<longleftrightarrow> seq_account valid taken lim_inv bound c"
  by (auto simp: seq_account_def after_loop_def Let_def)

lemma after_loop_simps [simp]:
  "clock (after_loop env from_periodic c) = clock c"
  "running (seq (after_loop env from_periodic c)) = running (seq c)"
  by (simp_all add: after_loop_def Let_def)

context sequencer_limiter
begin

lemma run_account:
  assumes "SequencerImpl_run env from_periodic c = Some r" "target_ok env" "account c" "running (seq c)" "stopped_after (seq c) = None"
    "from_periodic \<or> periodic_armed c"
  shows "\<exists>c'. r = Inr c' \<and> account c' \<and> timers_ok c' \<and> monotonicTime (clock c) \<le> monotonicTime (clock c') \<and>
    (last_termination_status (seq c) = PROCEED \<and> predicates env (clock c) (world c) = PROCEED \<longrightarrow> running (seq c'))"
proof -
  define status where "status = (if last_termination_status (seq c) = PROCEED then predicates env (clock c) (world c)
      else last_termination_status (seq c))"
  let ?c = "c\<lparr>seq := (seq c)\<lparr>last_termination_status := status\<rparr>\<rparr>"
  have acc: "account ?c" using assms(3) by (simp add: seq_account_def)
  show ?thesis
  proof (cases "status = PROCEED")
    case False
    then have "r = Inr (?c\<lparr>seq := SequencerImpl_stop env (clock ?c) (status = FAIL) (seq ?c)\<rparr>)"
      using assms(1) by (simp add: SequencerImpl_run_def status_def Let_def)
    then show ?thesis using stop_account [OF acc, of "status = FAIL"] False by (auto simp: timers_ok_def status_def)
  next
    case True
    then obtain r' where r': "run_loop env (monotonicTime (clock c)) ?c = Some r'"
        "r = result_bind r' (\<lambda>c. Inr (after_loop env from_periodic c))"
      using assms(1) by (auto simp: SequencerImpl_run_def status_def Let_def)
    then obtain c' where c': "r' = Inr c'" "account c'" "same_phase ?c c'"
      using run_loop_account [OF r'(1) assms(2) acc] assms(5) by auto
    have phase: "running (seq c')" "stopped_after (seq c') = None" "last_termination_status (seq c') = PROCEED"
      "monotonicTime (clock c) \<le> monotonicTime (clock c')"
      using c'(3) assms(4,5) True by (simp_all add: same_phase_def)
    have "from_periodic \<or> periodic_armed c'"
      using assms(6) c'(3) by (auto simp: same_phase_def periodic_armed_def max_wait_def)
    then have "timers_ok (after_loop env from_periodic c')" using after_loop_timers phase by blast
    then show ?thesis using r'(2) c' phase(1,4) by simp
  qed
qed

lemma start_account:
  assumes "SequencerImpl_start env c = Some r" "target_ok env" "account c" "stopped_after (seq c) = None"
  shows "\<exists>c'. r = Inr c' \<and> account c' \<and> timers_ok c' \<and> monotonicTime (clock c) \<le> monotonicTime (clock c') \<and>
    (last_termination_status (seq c) = PROCEED \<and> predicates env (clock c) (world c) = PROCEED \<longrightarrow> running (seq c'))"
  using run_account [of False "c\<lparr>seq := scheduleRun env (clock c) ((seq c)\<lparr>running := True\<rparr>)\<rparr>" r] assms
    scheduleRun_armed [of env c "(seq c)\<lparr>running := True\<rparr>"]
  by (simp add: SequencerImpl_start_def seq_account_def)

lemma complete_account:
  "account c \<Longrightarrow> timers_ok c \<Longrightarrow> i < length (outstanding c) \<Longrightarrow>
     account (complete_outstanding env i c) \<and> timers_ok (complete_outstanding env i c)"
  by (auto simp: seq_account_def timers_ok_def complete_outstanding_def on_complete_def Let_def periodic_armed_def max_wait_def)

lemma step_account:
  assumes "seq_step env c c'" "target_ok env" "account c" "timers_ok c"
  shows "account c' \<and> timers_ok c'"
  using assms(1)
proof cases
  case seq_start
  then show ?thesis using start_account [OF _ assms(2,3)] by blast
next
  case (seq_periodic due)
  have run: "running (seq c)" using seq_periodic(1) assms(4) by (auto simp: timers_ok_def split: if_splits)
  have "account (c\<lparr>seq := (seq c)\<lparr>periodic_timer := None\<rparr>\<rparr>)" using assms(3) by (simp add: seq_account_def)
  from run_account [OF seq_periodic(3) assms(2) this] show ?thesis using run assms(4) by (simp add: timers_ok_def)
next
  case (seq_spin due)
  have run: "running (seq c)" using seq_spin(1) assms(4) by (auto simp: timers_ok_def split: if_splits)
  have "account (c\<lparr>seq := (seq c)\<lparr>spin_timer := None\<rparr>\<rparr>)" using assms(3) by (simp add: seq_account_def)
  moreover have "periodic_armed (c\<lparr>seq := (seq c)\<lparr>spin_timer := None\<rparr>\<rparr>)" "stopped_after (seq c) = None"
    using run assms(4) by (simp_all add: timers_ok_def periodic_armed_def max_wait_def)
  ultimately show ?thesis using run_account [OF seq_spin(3) assms(2)] run by simp
next
  case (seq_complete i)
  then show ?thesis using complete_account [OF assms(3,4)] by blast
next
  case (seq_time ts w)
  then show ?thesis using assms(3,4) valid_later bound_mono [of "monotonicTime (clock c)" "monotonicTime ts"]
    by (fastforce simp: seq_account_def timers_ok_def periodic_armed_def max_wait_def)
qed

lemma reachable_account:
  assumes "seq_reachable env c0 c" "target_ok env" "account c0" "timers_ok c0"
  shows "account c \<and> timers_ok c"
  using assms(1)
proof (induction rule: seq_reachable.induct)
  case (seq_later c c') then show ?case using step_account [OF _ assms(2)] by blast
qed (use assms in simp)

end

subsection \<open>The loop returns\<close>

text \<open>
  A target that calls back before it returns advances the clock, and the limiter may then have more to
  give. The loop ends when that happens only finitely often: \<open>left\<close> bounds how often it still can.
\<close>

definition callbacks_bounded :: "('l, 'w, 'q) seq_env \<Rightarrow> ('w \<Rightarrow> nat) \<Rightarrow> bool" where
  "callbacks_bounded env left \<longleftrightarrow> (\<forall>ts w could cb w'. target env ts w = (could, cb, w') \<longrightarrow>
     (if cb = None then left w' \<le> left w else left w' < left w))"

context sequencer_limiter
begin

lemma run_loop_returns:
  assumes "target_ok env" "callbacks_bounded env left" "account c" "stopped_after (seq c) = None"
  shows "\<exists>r. run_loop env now c = Some r"
  using assms(3,4)
proof (induction c rule: wf_induct_rule [OF wf_inv_image [OF wf_lex_prod [OF wf_less_than wf_less_than],
    of "\<lambda>c. (left (world c), budget (clock c) (rate_limiter (seq c)))"]])
  case (1 c)
  obtain ok c1 where c1: "acquire_one env c = (ok, c1)" by fastforce
  obtain could c2 where c2: "call_target env now c1 = (could, c2)" by fastforce
  show ?case
  proof (cases "ok \<and> could")
    case False
    then show ?thesis using c1 c2 by (subst run_loop.simps) auto
  next
    case True
    let ?s = "target_started env now c2"
    have ok: "account ?s" "same_phase c ?s"
      using started_account [OF assms(1) 1(2,3), of c1 now c2] c1 c2 True by simp_all
    from c1 c2 True have "acquire_one env c = (True, c1)" "call_target env now c1 = (True, c2)" by simp_all
    then obtain l cb w where l: "rl_tryAcquireOne env (clock c) (rate_limiter (seq c)) = (True, l)"
      and t: "target env (clock c) (world c) = (True, cb, w)"
      and c2': "c2 = (case cb of
             Some ts \<Rightarrow> c\<lparr>world := w, clock := ts, seq := on_complete env now ts ((seq c)\<lparr>rate_limiter := l\<rparr>)\<rparr>
           | None \<Rightarrow> c\<lparr>world := w, seq := (seq c)\<lparr>rate_limiter := l\<rparr>,
               outstanding := (if True then outstanding c @ [now] else outstanding c)\<rparr>)"
      by (rule acquired_cases)
    have v: "valid (monotonicTime (clock c)) (rate_limiter (seq c))" using 1(2) by (simp add: seq_account_def)
    have "(if cb = None then left w \<le> left (world c) else left w < left (world c))"
      using assms(2) t unfolding callbacks_bounded_def by blast
    moreover have "world ?s = w" "cb = None \<Longrightarrow> clock ?s = clock c \<and> rate_limiter (seq ?s) = l"
      by (cases cb; simp add: c2' seq_op_defs)+
    ultimately have "(?s, c) \<in> inv_image (less_than <*lex*> less_than)
        (\<lambda>c. (left (world c), budget (clock c) (rate_limiter (seq c))))"
      using budget_success [OF v order_refl l] by (auto split: if_splits)
    from "1.IH" [OF this ok(1)] ok(2) 1(3) obtain r where "run_loop env now ?s = Some r"
      by (auto simp: same_phase_def)
    then show ?thesis using c1 c2 True by (subst run_loop.simps) simp
  qed
qed

lemma run_returns:
  assumes "target_ok env" "callbacks_bounded env left" "account c" "stopped_after (seq c) = None"
  shows "\<exists>r. SequencerImpl_run env from_periodic c = Some r"
proof -
  define status where "status = (if last_termination_status (seq c) = PROCEED then predicates env (clock c) (world c)
      else last_termination_status (seq c))"
  have "account (c\<lparr>seq := (seq c)\<lparr>last_termination_status := status\<rparr>\<rparr>)" using assms(3) by (simp add: seq_account_def)
  from run_loop_returns [OF assms(1,2) this] assms(4) show ?thesis
    by (fastforce simp: SequencerImpl_run_def Let_def status_def)
qed

end

subsection \<open>Stopping\<close>

text \<open>A predicate that does not say \<open>PROCEED\<close> ends the run before anything is started.\<close>

lemma run_stops:
  assumes "last_termination_status (seq c) = PROCEED" "predicates env (clock c) (world c) = status" "status \<noteq> PROCEED"
  shows "\<exists>c'. SequencerImpl_run env from_periodic c = Some (Inr c') \<and> \<not> running (seq c') \<and> stopped_after (seq c') \<noteq> None \<and>
           targets_initiated (seq c') = targets_initiated (seq c) \<and> outstanding c' = outstanding c \<and> world c' = world c \<and>
           failed_terminations (seq c') = failed_terminations (seq c) + of_bool (status = FAIL) \<and>
           periodic_timer (seq c') = None \<and> spin_timer (seq c') = None"
  using assms by (simp add: SequencerImpl_run_def Let_def SequencerImpl_stop_def completionsPerSecond_def executionDuration_def
      unblockAndUpdateStatisticIfNeeded_def split: option.split prod.splits)

definition has_stopped :: "('l, 'w, 'q) seq_state \<Rightarrow> bool" where
  "has_stopped c \<longleftrightarrow> \<not> running (seq c) \<and> stopped_after (seq c) \<noteq> None \<and> periodic_timer (seq c) = None \<and> spin_timer (seq c) = None"

lemma stopped_step:
  assumes "seq_step env c c'" "has_stopped c"
  shows "has_stopped c' \<and> targets_initiated (seq c') = targets_initiated (seq c) \<and>
    stopped_after (seq c') = stopped_after (seq c) \<and> failed_terminations (seq c') = failed_terminations (seq c)"
  using assms by (cases rule: seq_step.cases) (auto simp: has_stopped_def complete_outstanding_def on_complete_def Let_def)

lemma stopped_forever:
  assumes "seq_reachable env c c'" "has_stopped c"
  shows "has_stopped c' \<and> targets_initiated (seq c') = targets_initiated (seq c) \<and>
    stopped_after (seq c') = stopped_after (seq c) \<and> failed_terminations (seq c') = failed_terminations (seq c)"
  using assms by (induction rule: seq_reachable.induct) (auto dest: stopped_step)

subsection \<open>The sequencer of a worker\<close>

text \<open>
  What \<^verbatim>\<open>SequencerFactoryImpl::create\<close> builds: the limiter stack the options ask for and two latency
  histograms; and the environment of a worker, whose predicates are a termination chain over the
  counters of the world.
\<close>

definition create_sequencer ::
    "'h hdr_lib \<Rightarrow> (message \<Rightarrow> string \<times> (int \<times> int) option) \<Rightarrow> (nat \<Rightarrow> 'g) \<Rightarrow> nanos \<Rightarrow> OptionsImpl \<Rightarrow>
       ('g limiter_stack, 'h HdrStatistic) SequencerImpl result" where
  "create_sequencer lib decode sampler start opt =
     result_bind (create_rate_limiter decode sampler start opt) (\<lambda>limiter.
       Inr (mk_SequencerImpl setId limiter (HdrStatistic_init lib) (HdrStatistic_init lib) (o_sequencer_idle_strategy opt)))"

definition worker_env ::
    "'h hdr_lib \<Rightarrow> ('g \<Rightarrow> nat \<times> 'g) \<Rightarrow> (time_source \<Rightarrow> 'w \<Rightarrow> bool \<times> time_source option \<times> 'w) \<Rightarrow>
       ('w \<Rightarrow> string \<Rightarrow> nat) \<Rightarrow> termination_chain \<Rightarrow> ('g limiter_stack, 'w, 'h HdrStatistic) seq_env" where
  "worker_env lib gen tgt counters chain =
     \<lparr>rl_tryAcquireOne = stack_tryAcquireOne gen, rl_releaseOne = stack_releaseOne, rl_elapsed = stack_elapsed,
      rl_timeUntilNextRelease = stack_timeUntilNextRelease, target = tgt, stat_addValue = HdrStatistic_addValue lib,
      predicates = (\<lambda>ts w. evaluateChain ts (counters w) chain)\<rparr>"

definition initial_state :: "time_source \<Rightarrow> 'w \<Rightarrow> ('l, 'q) SequencerImpl \<Rightarrow> ('l, 'w, 'q) seq_state" where
  "initial_state ts w s = \<lparr>clock = ts, seq = s, world = w, outstanding = []\<rparr>"

text \<open>What one worker may have started by time \<open>t\<close>.\<close>

definition worker_bound :: "nat \<Rightarrow> nanos \<Rightarrow> nanos \<Rightarrow> int" where
  "worker_bound rps start t = (if t < start then 0 else linear_due rps (t - start))"

interpretation worker: sequencer_limiter "worker_env lib gen tgt counters chain" stack_ok stack_budget stack_taken
  stack_allowance "stack_late rps start" "worker_bound rps start"
  for lib :: "'h hdr_lib" and gen :: "'g \<Rightarrow> nat \<times> 'g" and tgt :: "time_source \<Rightarrow> 'w \<Rightarrow> bool \<times> time_source option \<times> 'w"
    and counters chain rps start
proof (intro sequencer_limiter.intro sequencer_limiter_axioms.intro, goal_cases)
  case 1 show ?case using stack.counted_limiter_axioms by (simp add: worker_env_def)
next
  case (2 l ts) then show ?case by (simp add: worker_env_def stack_try_late)
next
  case (3 l ts l') then show ?case by (auto simp: worker_env_def intro: stack_release_late)
next
  case (4 t l) then show ?case
    using stack.taken_bound [of t l] stack_late_allowance [of rps start l t] by (simp add: worker_bound_def)
next
  case (5 t t') then show ?case
    by (auto simp: worker_bound_def intro: linear_due_mono linear_due_nonneg)
qed

lemma create_sequencer_initial:
  assumes "create_sequencer lib decode sampler start opt = Inr s0" "o_rate_limiter_plugin_config opt = None"
    "perWorkerRequestsPerSecond opt = Inr rps"
  shows "seq_account stack_ok stack_taken (stack_late rps start) (worker_bound rps start) (initial_state ts w s0)"
    "timers_ok (initial_state ts w s0)"
proof -
  obtain limiter where l: "create_rate_limiter decode sampler start opt = Inr limiter" "rate_limiter s0 = limiter"
      "targets_initiated s0 = 0" "targets_completed s0 = 0" "running s0 = False" "periodic_timer s0 = None" "spin_timer s0 = None"
    using assms(1) by (auto simp: create_sequencer_def mk_SequencerImpl_def result_bind_def split: sum.splits)
  note fresh = create_rate_limiter_fresh [OF l(1) assms(2,3)]
  show "seq_account stack_ok stack_taken (stack_late rps start) (worker_bound rps start) (initial_state ts w s0)"
    using l fresh by (auto simp: seq_account_def initial_state_def worker_bound_def linear_due_nonneg)
  show "timers_ok (initial_state ts w s0)" using l by (simp add: timers_ok_def initial_state_def)
qed

lemma create_sequencer_fields:
  "create_sequencer lib decode sampler start opt = Inr s0 \<Longrightarrow>
     \<not> running s0 \<and> stopped_after s0 = None \<and> last_termination_status s0 = PROCEED \<and> targets_initiated s0 = 0"
  by (auto simp: create_sequencer_def mk_SequencerImpl_def result_bind_def split: sum.splits)

text \<open>
  C1: in every state a worker's sequencer can reach, whatever order timers, completions and the clock
  come in, it has started nothing before its scheduled start and no more requests than its share of the
  rate allows by now, and every request it started is either complete or outstanding, once.
\<close>

theorem sequencer_rate_bounded:
  assumes "create_sequencer lib decode sampler start opt = Inr s0" "o_rate_limiter_plugin_config opt = None"
    and "perWorkerRequestsPerSecond opt = Inr rps" "target_ok (worker_env lib gen tgt counters chain)"
    and "seq_reachable (worker_env lib gen tgt counters chain) (initial_state ts w s0) c"
  shows "int (targets_initiated (seq c)) \<le>
           (if monotonicTime (clock c) < start then 0 else linear_due rps (monotonicTime (clock c) - start)) \<and>
         targets_initiated (seq c) = targets_completed (seq c) + length (outstanding c)"
  using worker.reachable_account [OF assms(5,4) create_sequencer_initial [OF assms(1-3)]]
  by (simp add: seq_account_def worker_bound_def)


text \<open>
  C30: the predicates are evaluated first: a run at which the options' verdict is to end (duration over,
  a threshold exceeded, a stop requested) starts nothing, stops the sequencer, counts a failed
  termination exactly for a failure predicate, and from then on nothing is started and the reported
  execution duration no longer changes, however long outstanding requests take to drain.
\<close>

theorem sequencer_stops_for_good:
  assumes "create_termination_predicate opt start = Inr chain"
    and "finite (dom (o_termination_predicates opt))" "finite (dom (o_failure_predicates opt))"
    and "last_termination_status (seq c) = PROCEED"
    and "termination_verdict opt start (clock c) (counters (world c)) \<noteq> PROCEED"
  shows "\<exists>c'. SequencerImpl_run (worker_env lib gen tgt counters chain) from_periodic c = Some (Inr c') \<and>
           targets_initiated (seq c') = targets_initiated (seq c) \<and> outstanding c' = outstanding c \<and>
           failed_terminations (seq c') = failed_terminations (seq c) +
             of_bool (termination_verdict opt start (clock c) (counters (world c)) = FAIL) \<and>
           (\<forall>c''. seq_reachable (worker_env lib gen tgt counters chain) c' c'' \<longrightarrow>
              \<not> running (seq c'') \<and> targets_initiated (seq c'') = targets_initiated (seq c) \<and>
              fst (executionDuration (worker_env lib gen tgt counters chain) (clock c'') (seq c'')) =
                fst (executionDuration (worker_env lib gen tgt counters chain) (clock c') (seq c')))"
proof -
  let ?env = "worker_env lib gen tgt counters chain"
  have "predicates ?env (clock c) (world c) = termination_verdict opt start (clock c) (counters (world c))"
    using termination_chain_verdict_of [OF assms(2,3,1)] by (simp add: worker_env_def)
  from run_stops [OF assms(4) this assms(5), of from_periodic] obtain c' where
    c': "SequencerImpl_run ?env from_periodic c = Some (Inr c')" "\<not> running (seq c')" "stopped_after (seq c') \<noteq> None"
      "targets_initiated (seq c') = targets_initiated (seq c)" "outstanding c' = outstanding c"
      "failed_terminations (seq c') = failed_terminations (seq c) +
             of_bool (termination_verdict opt start (clock c) (counters (world c)) = FAIL)"
      "periodic_timer (seq c') = None" "spin_timer (seq c') = None" by blast
  then have "has_stopped c'" by (simp add: has_stopped_def)
  then have "\<forall>c''. seq_reachable ?env c' c'' \<longrightarrow> \<not> running (seq c'') \<and> targets_initiated (seq c'') = targets_initiated (seq c) \<and>
      fst (executionDuration ?env (clock c'') (seq c'')) = fst (executionDuration ?env (clock c') (seq c'))"
    using stopped_forever [of ?env c'] c'(3,4) by (auto simp: has_stopped_def executionDuration_def)
  then show ?thesis using c' by blast
qed

text \<open>
  C31: the WAIT strategy is never late: when it arms its timer, the wake-up is at most 25 microseconds
  after the earliest moment at which the limiter would grant a request, and never more than 5
  milliseconds away.
\<close>

theorem wait_strategy_never_late:
  assumes "stack_ok (monotonicTime ts) (rate_limiter s)" "idle_strategy s = WAIT"
    and "monotonicTime ts \<le> monotonicTime ts'" "fst (stack_tryAcquireOne gen ts' (rate_limiter s))"
  shows "\<exists>due. periodic_timer (scheduleRun (worker_env lib gen tgt counters chain) ts s) = Some due \<and>
           monotonicTime ts < due \<and> due \<le> monotonicTime ts' + 25 * one_microsecond \<and> due \<le> monotonicTime ts + 5 * one_millisecond"
proof -
  let ?env = "worker_env lib gen tgt counters chain" and ?wait = "stack_timeUntilNextRelease ts (rate_limiter s)"
  have late: "idleWait ?env ts s \<le> monotonicTime ts' - monotonicTime ts + 25 * one_microsecond"
  proof (cases "\<exists>d. ?wait = Some d \<and> 0 < d")
    case True
    then obtain d where d: "?wait = Some d" "0 < d" by blast
    have "monotonicTime ts + d \<le> monotonicTime ts'"
      using stack.wait_lower_bound [OF assms(1) d(1) assms(3), of gen] assms(4) by force
    moreover have "idleWait ?env ts s < d + one_microsecond"
      using idleWait_due [of ?env ts s d] d by (simp add: worker_env_def)
    ultimately show ?thesis by (simp add: one_microsecond_def)
  next
    case False
    then have "idleWait ?env ts s = NighthawkTimerResolution"
      by (auto simp: idleWait_def worker_env_def split: option.splits)
    then show ?thesis using assms(3) by (simp add: NighthawkTimerResolution_def)
  qed
  show ?thesis using late idleWait_bounds [of ?env ts s] assms(2)
    by (simp add: scheduleRun_def NighthawkMaxIdleWait_def)
qed

subsection \<open>A worker at five requests per second\<close>

text \<open>
  The default options, a target that accepts every request and leaves it outstanding, and counters that
  stay at zero.
\<close>

definition sample_target :: "time_source \<Rightarrow> unit \<Rightarrow> bool \<times> time_source option \<times> unit" where
  "sample_target ts w = (True, None, w)"

definition sample_chain :: termination_chain where
  "sample_chain = (case create_termination_predicate default_options 0 of Inr chain \<Rightarrow> chain
     | Inl _ \<Rightarrow> Chain (DurationTerminationPredicate 0 0) None)"

definition sample_env :: "(unit limiter_stack, unit, int list HdrStatistic) seq_env" where
  "sample_env = worker_env sample_hdr (\<lambda>g. (0, g)) sample_target (\<lambda>_ _. 0) sample_chain"

definition sample_time :: "nanos \<Rightarrow> time_source" where
  "sample_time t = \<lparr>monotonicTime = t, systemTime = t\<rparr>"

definition sample_sequencer :: "(unit limiter_stack, int list HdrStatistic) SequencerImpl" where
  "sample_sequencer = (case create_sequencer sample_hdr (\<lambda>_. ([], None)) (\<lambda>_. ()) 0 default_options of Inr s \<Rightarrow> s
     | Inl _ \<Rightarrow> undefined)"

lemma sample_options_facts:
  "o_rate_limiter_plugin_config default_options = None" "perWorkerRequestsPerSecond default_options = Inr 5"
  "finite (dom (o_termination_predicates default_options))" "finite (dom (o_failure_predicates default_options))"
  "\<not> o_no_duration default_options" "o_duration default_options = 5"
  "o_termination_predicates default_options = Map.empty"
  by (simp_all add: perWorkerRequestsPerSecond_def default_options_eq OptionsImpl_members_def default_failure_predicates_def)

lemma sample_chain_created: "create_termination_predicate default_options 0 = Inr sample_chain"
  using create_chain_list [of default_options 0] by (auto simp: sample_chain_def)

lemma sample_sequencer_created:
  "create_sequencer sample_hdr (\<lambda>_. ([], None)) (\<lambda>_. ()) 0 default_options = Inr sample_sequencer"
  using sample_options_facts(1,2)
  by (simp add: sample_sequencer_def create_sequencer_def create_rate_limiter_def mk_LinearRateLimiter_def default_options_eq
      OptionsImpl_members_def Let_def)

lemma sample_target_ok: "target_ok sample_env" "callbacks_bounded sample_env (\<lambda>_. 0)"
  by (simp_all add: target_ok_def callbacks_bounded_def sample_env_def worker_env_def sample_target_def)

lemma sample_verdict:
  "predicates sample_env (sample_time t) () = (if 5 * one_second < t then TERMINATE else PROCEED)"
proof -
  have "evaluateChain (sample_time t) (\<lambda>_. 0) sample_chain = termination_verdict default_options 0 (sample_time t) (\<lambda>_. 0)"
    by (rule termination_chain_verdict_of [OF sample_options_facts(3,4) sample_chain_created])
  then show ?thesis
    by (simp add: sample_env_def worker_env_def termination_verdict_def exceeded_def sample_options_facts sample_time_def)
qed

lemma sample_reaches_running:
  "\<exists>c. seq_reachable sample_env (initial_state (sample_time 0) () sample_sequencer) c \<and> running (seq c)"
proof -
  let ?c = "initial_state (sample_time 0) () sample_sequencer"
  have s: "\<not> running sample_sequencer" "stopped_after sample_sequencer = None" "last_termination_status sample_sequencer = PROCEED"
    using create_sequencer_fields [OF sample_sequencer_created] by simp_all
  note init = create_sequencer_initial [OF sample_sequencer_created sample_options_facts(1,2), of "sample_time 0" "()"]
  have acc: "seq_account stack_ok stack_taken (stack_late 5 0) (worker_bound 5 0)
      (?c\<lparr>seq := scheduleRun sample_env (clock ?c) ((seq ?c)\<lparr>running := True\<rparr>)\<rparr>)"
    using init(1) by (simp add: seq_account_def)
  obtain r where r: "SequencerImpl_start sample_env ?c = Some r"
    using worker.run_returns [OF sample_target_ok [unfolded sample_env_def] acc [unfolded sample_env_def], of False] s(2)
    unfolding SequencerImpl_start_def sample_env_def by (auto simp: initial_state_def)
  obtain c' where "r = Inr c'" "running (seq c')"
    using worker.start_account [OF r [unfolded sample_env_def] sample_target_ok(1) [unfolded sample_env_def] init(1)] s(2,3)
      sample_verdict [of 0, unfolded sample_env_def] by (auto simp: initial_state_def one_second_def)
  then have "seq_step sample_env ?c c'" using r s(1,2) by (auto simp: initial_state_def intro: seq_start)
  then show ?thesis using seq_later [OF seq_initially] \<open>running (seq c')\<close> by blast
qed

theorem sequencer_rate_bounded_witness:
  "\<exists>c. seq_reachable sample_env (initial_state (sample_time 0) () sample_sequencer) c \<and> running (seq c) \<and>
     targets_initiated (seq c) = targets_completed (seq c) + length (outstanding c)"
  using sample_reaches_running
    sequencer_rate_bounded [OF sample_sequencer_created sample_options_facts(1,2) sample_target_ok(1) [unfolded sample_env_def]]
  unfolding sample_env_def by blast


theorem sequencer_stops_for_good_witness:
  "\<exists>c'. SequencerImpl_run sample_env True (initial_state (sample_time 6000000000) () sample_sequencer) = Some (Inr c') \<and>
     targets_initiated (seq c') = 0"
proof -
  let ?c = "initial_state (sample_time 6000000000) () sample_sequencer"
  have s: "last_termination_status (seq ?c) = PROCEED" "targets_initiated (seq ?c) = 0"
    using create_sequencer_fields [OF sample_sequencer_created] by (simp_all add: initial_state_def)
  have "termination_verdict default_options 0 (clock ?c) (\<lambda>_. 0) \<noteq> PROCEED"
    by (simp add: termination_verdict_def exceeded_def sample_options_facts sample_time_def initial_state_def one_second_def)
  from sequencer_stops_for_good [where counters = "\<lambda>_ _. 0", OF sample_chain_created sample_options_facts(3,4) s(1) this] s(2)
  show ?thesis unfolding sample_env_def by fastforce
qed

theorem wait_strategy_never_late_witness:
  "\<exists>due. periodic_timer (scheduleRun sample_env (sample_time 0) (sample_sequencer
      \<lparr>idle_strategy := WAIT, rate_limiter := LinearStack (mk_ScheduledStartingRateLimiter
        \<lparr>lin_base = \<lparr>start_time = Some 0, first_acquisition_time = Some 0\<rparr>, acquireable_count = 0, acquired_count = 0,
         frequency = mk_Frequency 1\<rparr> 0)\<rparr>)) = Some due \<and> due \<le> 5000000"
proof -
  let ?l = "\<lparr>lin_base = \<lparr>start_time = Some 0, first_acquisition_time = Some 0\<rparr>, acquireable_count = 0, acquired_count = 0,
         frequency = mk_Frequency 1\<rparr>"
  let ?st = "LinearStack (mk_ScheduledStartingRateLimiter ?l 0) :: unit limiter_stack"
  let ?s = "sample_sequencer\<lparr>idle_strategy := WAIT, rate_limiter := ?st\<rparr>"
  have "linear_ok 0 ?l" unfolding linear_ok_def by (rule exI [of _ 1]) (simp add: since_def)
  then have ok: "stack_ok (monotonicTime (sample_time 0)) (rate_limiter ?s)"
    by (simp add: sample_time_def mk_ScheduledStartingRateLimiter_def scheduled_ok_def)
  have "fst (linear_tryAcquireOne (sample_time 1000000000) ?l)"
    by (subst linear_tryAcquireOne.simps, simp add: linear_elapsed_def base_elapsed_def sample_time_def Let_def)
       (subst linear_tryAcquireOne.simps, simp)
  then have granted: "fst (stack_tryAcquireOne (\<lambda>g. (0, g)) (sample_time 1000000000) (rate_limiter ?s))"
    by (auto simp: scheduled_tryAcquireOne_def mk_ScheduledStartingRateLimiter_def sample_time_def split: prod.split)
  have "idle_strategy ?s = WAIT" "monotonicTime (sample_time 0) \<le> monotonicTime (sample_time 1000000000)"
    by (simp_all add: sample_time_def)
  from wait_strategy_never_late [OF ok this granted] show ?thesis
    unfolding sample_env_def by (fastforce simp: sample_time_def one_millisecond_def)
qed

end
