(* ===== verification/WebSocket.thy ===== *)
theory WebSocket
  imports UriUtil
begin

unbundle bit_operations_syntax

text \<open>
  WebSocket framing (\<^verbatim>\<open>source/common/websocket.cc\<close>): the frame encoder, the incremental decoder and the
  handshake keys. The random masking key is an argument of the encoder; SHA-1 and base64 are parameters
  of the accept key. The lemmas show that decoding does not depend on how the bytes were cut into
  buffers, and that it inverts encoding.
\<close>

subsection \<open>Frames\<close>

datatype Opcode = Continuation | Text | Binary | Close | Ping | Pong

primrec opcode_byte :: "Opcode \<Rightarrow> byte" where
  "opcode_byte Continuation = 0x0"
| "opcode_byte Text = 0x1"
| "opcode_byte Binary = 0x2"
| "opcode_byte Close = 0x8"
| "opcode_byte Ping = 0x9"
| "opcode_byte Pong = 0xA"

record Frame =
  fin :: bool
  opcode :: Opcode
  payload :: "byte list"

definition kMaxPayloadLength :: nat where "kMaxPayloadLength = 64 * 1024 * 1024"

definition isControl :: "Opcode \<Rightarrow> bool" where
  "isControl oc \<longleftrightarrow> 8 \<le> opcode_byte oc"

text \<open>\<open>isKnown\<close> and the cast of a known byte to its opcode.\<close>

definition known_opcode :: "byte \<Rightarrow> Opcode option" where
  "known_opcode b =
     (if b = 0x0 then Some Continuation else if b = 0x1 then Some Text else if b = 0x2 then Some Binary
      else if b = 0x8 then Some Close else if b = 0x9 then Some Ping else if b = 0xA then Some Pong else None)"

definition applyMask :: "byte list \<Rightarrow> byte list \<Rightarrow> byte list" where
  "applyMask key bytes = map (\<lambda>(i, b). b XOR key ! (i mod 4)) (enumerate 0 bytes)"

text \<open>Big-endian bytes of a length, and the value the decoder accumulates from them.\<close>

primrec be_bytes :: "nat \<Rightarrow> nat \<Rightarrow> byte list" where
  "be_bytes 0 n = []"
| "be_bytes (Suc k) n = word_of_nat (n div 256 ^ k) # be_bytes k n"

definition be_value :: "byte list \<Rightarrow> nat" where
  "be_value bytes = fold (\<lambda>b acc. acc * 256 + unat b) bytes 0"

subsection \<open>Encoding\<close>

definition length_header :: "bool \<Rightarrow> nat \<Rightarrow> byte list" where
  "length_header masked len =
     (let mask_bit = (if masked then 0x80 else 0x00)
      in if len < 126 then [mask_bit OR word_of_nat len]
         else if len \<le> 0xFFFF then (mask_bit OR 126) # be_bytes 2 len
         else (mask_bit OR 127) # be_bytes 8 len)"

text \<open>\<open>key\<close> is the masking key drawn from the random generator, when the frame is masked.\<close>

definition encodeFrame :: "byte list option \<Rightarrow> Frame \<Rightarrow> byte list" where
  "encodeFrame key frame =
     ((if fin frame then 0x80 else 0x00) OR opcode_byte (opcode frame)) #
     length_header (key \<noteq> None) (length (payload frame)) @
     (case key of None \<Rightarrow> payload frame | Some k \<Rightarrow> k @ applyMask k (payload frame))"

definition closeFrame :: "16 word \<Rightarrow> Frame" where
  "closeFrame code =
     \<lparr>fin = True, opcode = Close, payload = [ucast (drop_bit 8 code), ucast (code AND 0xFF)]\<rparr>"

definition acceptKey :: "(string \<Rightarrow> byte list) \<Rightarrow> (byte list \<Rightarrow> string) \<Rightarrow> string \<Rightarrow> string" where
  "acceptKey sha1 base64 key = base64 (sha1 (key @ ''258EAFA5-E914-47DA-95CA-C5AB0DC85B11''))"

text \<open>The two random words in memory order (little-endian).\<close>

definition newKey :: "(byte list \<Rightarrow> string) \<Rightarrow> 64 word \<Rightarrow> 64 word \<Rightarrow> string" where
  "newKey base64 r1 r2 = base64 (rev (be_bytes 8 (unat r1)) @ rev (be_bytes 8 (unat r2)))"

subsection \<open>Decoding\<close>

text \<open>The body of the decoder's loop on at least two bytes: wait for more, refuse, or take one frame off.\<close>

datatype decoded = Incomplete | Malformed | Decoded Frame "byte list"

definition header_length :: "nat \<Rightarrow> bool \<Rightarrow> nat" where
  "header_length len masked = 2 + (if len = 126 then 2 else if len = 127 then 8 else 0) + (if masked then 4 else 0)"

definition payload_length :: "byte list \<Rightarrow> nat" where
  "payload_length data =
     (let len = unat (data ! 1 AND 0x7F)
      in if len = 126 then be_value (take 2 (drop 2 data))
         else if len = 127 then be_value (take 8 (drop 2 data)) else len)"

definition decode_frame :: "byte list \<Rightarrow> decoded" where
  "decode_frame data =
     (let is_fin = (data ! 0 AND 0x80 \<noteq> 0);
          masked = (data ! 1 AND 0x80 \<noteq> 0);
          short_length = unat (data ! 1 AND 0x7F);
          hdr = header_length short_length masked
      in case (if data ! 0 AND 0x70 \<noteq> 0 then None else known_opcode (data ! 0 AND 0x0F)) of
           None \<Rightarrow> Malformed
         | Some oc \<Rightarrow>
             if length data < hdr then Incomplete
             else
               let len = payload_length data
               in if short_length = 127 \<and> len > kMaxPayloadLength then Malformed
                  else if isControl oc \<and> (\<not> is_fin \<or> len > 125) then Malformed
                  else if length data < hdr + len then Incomplete
                  else
                    let body = take len (drop hdr data)
                    in Decoded
                         \<lparr>fin = is_fin, opcode = oc,
                          payload = (if masked then applyMask (take 4 (drop (hdr - 4) data)) body else body)\<rparr>
                         (drop (hdr + len) data))"

lemma decoded_shorter: "decode_frame data = Decoded f rest \<Longrightarrow> length data \<ge> 2 \<Longrightarrow> length rest < length data"
  by (auto simp: decode_frame_def Let_def header_length_def split: option.splits if_splits)

function feed :: "byte list \<Rightarrow> Frame list \<Rightarrow> bool \<times> byte list \<times> Frame list" where
  "feed data frames =
     (if length data < 2 then (True, data, frames)
      else case decode_frame data of
             Incomplete \<Rightarrow> (True, data, frames)
           | Malformed \<Rightarrow> (False, [], frames)
           | Decoded frame rest \<Rightarrow> feed rest (frames @ [frame]))"
  by pat_completeness auto
termination
  by (relation "measure (\<lambda>(data, frames). length data)") (auto dest: decoded_shorter)

declare feed.simps [simp del]


subsection \<open>Bytes\<close>

lemma length_be_bytes [simp]: "length (be_bytes k n) = k"
  by (induction k) simp_all

lemma fold_be_value: "fold (\<lambda>b acc. acc * 256 + unat b) bytes acc = acc * 256 ^ length bytes + be_value bytes"
proof (induction bytes arbitrary: acc)
  case (Cons b bytes)
  show ?case using Cons [of "acc * 256 + unat b"] Cons [of "unat b"]
    by (simp add: be_value_def algebra_simps)
qed (simp add: be_value_def)

lemma be_value_Cons [simp]: "be_value (b # bytes) = unat b * 256 ^ length bytes + be_value bytes"
  using fold_be_value [of bytes "unat b"] by (simp add: be_value_def)

lemma be_value_Nil [simp]: "be_value [] = 0"
  by (simp add: be_value_def)

lemma be_roundtrip: "n < 256 ^ k \<Longrightarrow> be_value (be_bytes k n) = n"
proof -
  have "be_value (be_bytes k n) = n mod 256 ^ k" for n
  proof (induction k arbitrary: n)
    case (Suc k)
    have "unat (word_of_nat (n div 256 ^ k) :: byte) = n div 256 ^ k mod 256"
      by (simp add: unat_of_nat)
    then show ?case using Suc mod_mult2_eq [of n "256 ^ k" 256] by (simp add: mult.commute)
  qed simp
  then show "n < 256 ^ k \<Longrightarrow> be_value (be_bytes k n) = n" by simp
qed

lemma applyMask_length [simp]: "length (applyMask key bytes) = length bytes"
  by (simp add: applyMask_def)

lemma applyMask_involution [simp]: "applyMask key (applyMask key bytes) = bytes"
  by (rule nth_equalityI) (simp_all add: applyMask_def nth_enumerate_eq xor.assoc)

lemma header_byte:
  "((if f then 0x80 else 0x00) OR opcode_byte oc) AND 0x80 \<noteq> 0 \<longleftrightarrow> f"
  "((if f then 0x80 else 0x00) OR opcode_byte oc) AND 0x70 = 0"
  "known_opcode (((if f then 0x80 else 0x00) OR opcode_byte oc) AND 0x0F) = Some oc"
  by (cases oc; cases f; simp add: known_opcode_def)+

lemma length_byte:
  assumes "n < 128"
  shows "unat (((if m then 0x80 else 0x00) OR (word_of_nat n :: byte)) AND 0x7F) = n"
    "((if m then 0x80 else 0x00) OR (word_of_nat n :: byte)) AND 0x80 \<noteq> 0 \<longleftrightarrow> m"
proof -
  have n: "take_bit 7 (word_of_nat n :: byte) = word_of_nat n"
    using assms by (simp add: take_bit_of_nat take_bit_nat_eq_self)
  have mask: "(0x7F :: byte) = mask 7" by (simp add: mask_eq_exp_minus_1)
  have "((if m then 0x80 else 0x00) OR (word_of_nat n :: byte)) AND 0x7F = word_of_nat n"
    unfolding mask take_bit_eq_mask [symmetric] take_bit_or n by simp
  then show "unat (((if m then 0x80 else 0x00) OR (word_of_nat n :: byte)) AND 0x7F) = n"
    using assms by (simp add: unat_of_nat)
  have "\<not> bit (word_of_nat n :: byte) 7"
    using n by (metis bit_take_bit_iff less_irrefl)
  then show "((if m then 0x80 else 0x00) OR (word_of_nat n :: byte)) AND 0x80 \<noteq> 0 \<longleftrightarrow> m"
    using and_exp_eq_0_iff_not_bit [of "(if m then 0x80 else 0x00) OR (word_of_nat n :: byte)" 7]
    by (cases m) (simp_all add: bit_or_iff bit_simps)
qed


subsection \<open>Decoding does not depend on how the bytes were cut\<close>

lemma payload_length_append:
  assumes "2 \<le> length data" "header_length (unat (data ! 1 AND 0x7F)) masked \<le> length data"
  shows "payload_length (data @ extra) = payload_length data"
  using assms by (auto simp: payload_length_def header_length_def Let_def nth_append split: if_splits)

lemma decode_frame_append_cases:
  assumes "2 \<le> length data"
  shows "decode_frame data = Incomplete \<or> (decode_frame data = Malformed \<and> decode_frame (data @ extra) = Malformed) \<or>
    (\<exists>f rest. decode_frame data = Decoded f rest \<and> decode_frame (data @ extra) = Decoded f (rest @ extra))"
proof -
  define m where "m = (data ! 1 AND 0x80 \<noteq> 0)"
  define n where "n = unat (data ! 1 AND 0x7F)"
  define is_fin where "is_fin = (data ! 0 AND 0x80 \<noteq> 0)"
  define oc where "oc = (if data ! 0 AND 0x70 \<noteq> 0 then None else known_opcode (data ! 0 AND 0x0F))"
  have nth: "(data @ extra) ! 0 = data ! 0" "(data @ extra) ! 1 = data ! 1" using assms by (auto simp: nth_append)
  note defs = decode_frame_def Let_def nth m_def [symmetric] n_def [symmetric] is_fin_def [symmetric] oc_def [symmetric]
  show ?thesis
  proof (cases oc)
    case None
    then show ?thesis unfolding defs by simp
  next
    case (Some op)
    show ?thesis
    proof (cases "length data < header_length n m")
      case True
      then show ?thesis unfolding defs Some by simp
    next
      case False
      then have len: "payload_length (data @ extra) = payload_length data"
        using payload_length_append [OF assms, of m extra] by (simp add: n_def)
      have key: "4 + (header_length n True - 4) - length data = 0" if m
        using False that by (simp add: header_length_def)
      show ?thesis
        using False len key unfolding defs Some by (cases m) auto
    qed
  qed
qed

lemma decode_frame_append:
  assumes "2 \<le> length data"
  shows "decode_frame data = Decoded f rest \<Longrightarrow> decode_frame (data @ extra) = Decoded f (rest @ extra)"
    "decode_frame data = Malformed \<Longrightarrow> decode_frame (data @ extra) = Malformed"
  using decode_frame_append_cases [OF assms, of extra] by auto

text \<open>Feeding what was left together with more bytes is feeding it all at once.\<close>

lemma feed_append:
  "feed (data @ extra) frames =
     (case feed data frames of
        (True, rest, frames') \<Rightarrow> feed (rest @ extra) frames'
      | (False, rest, frames') \<Rightarrow> (False, rest, frames'))"
proof (induction data frames rule: feed.induct)
  case (1 data frames)
  show ?case
  proof (cases "length data < 2")
    case True
    then show ?thesis by (subst (2) feed.simps) simp
  next
    case False
    then have two: "2 \<le> length data" by simp
    show ?thesis
    proof (cases "decode_frame data")
      case Incomplete
      then show ?thesis using False by (subst (2) feed.simps) simp
    next
      case Malformed
      then show ?thesis using False decode_frame_append(2) [OF two Malformed, of extra]
        by (subst feed.simps, subst (2) feed.simps) simp
    next
      case (Decoded f rest)
      then show ?thesis using False decode_frame_append(1) [OF two Decoded, of extra] "1.IH" [OF False Decoded]
        by (subst feed.simps, subst (2) feed.simps) simp
    qed
  qed
qed

text \<open>A connection that receives its bytes in chunks, each appended to what the decoder left.\<close>

fun feed_chunks :: "byte list list \<Rightarrow> byte list \<Rightarrow> Frame list \<Rightarrow> bool \<times> byte list \<times> Frame list" where
  "feed_chunks [] data frames = (True, data, frames)"
| "feed_chunks (chunk # chunks) data frames =
     (case feed (data @ chunk) frames of
        (True, rest, frames') \<Rightarrow> feed_chunks chunks rest frames'
      | (False, rest, frames') \<Rightarrow> (False, rest, frames'))"

lemma feed_idle: "feed data frames = (True, rest, frames') \<Longrightarrow> feed rest frames' = (True, rest, frames')"
  using feed_append [of data "[]" frames] by simp

lemma feed_chunks_concat:
  "feed data frames = (True, data, frames) \<Longrightarrow> feed_chunks chunks data frames = feed (data @ concat chunks) frames"
proof (induction chunks arbitrary: data frames)
  case (Cons chunk chunks)
  obtain good rest frames' where f: "feed (data @ chunk) frames = (good, rest, frames')" by (cases "feed (data @ chunk) frames")
  show ?case
  proof (cases good)
    case True
    then show ?thesis using f Cons.IH [OF feed_idle] feed_append [of "data @ chunk" "concat chunks" frames] by simp
  next
    case False
    then show ?thesis using f feed_append [of "data @ chunk" "concat chunks" frames] by simp
  qed
qed simp

subsection \<open>Decoding inverts encoding\<close>

definition well_formed :: "Frame \<Rightarrow> bool" where
  "well_formed f \<longleftrightarrow> length (payload f) \<le> kMaxPayloadLength \<and>
     (isControl (opcode f) \<longrightarrow> fin f \<and> length (payload f) \<le> 125)"

definition key_ok :: "byte list option \<Rightarrow> bool" where
  "key_ok key \<longleftrightarrow> (case key of None \<Rightarrow> True | Some k \<Rightarrow> length k = 4)"

lemma length_header_decodes:
  assumes "len \<le> kMaxPayloadLength" and data: "data = b # length_header m len @ tail"
  shows "(data ! 1 AND 0x80 \<noteq> 0) = m"
    "header_length (unat (data ! 1 AND 0x7F)) m = 1 + length (length_header m len) + (if m then 4 else 0)"
    "payload_length data = len"
proof -
  note big = be_roundtrip [of len 2] be_roundtrip [of len 8]
  consider "len < 126" | "126 \<le> len" "len \<le> 0xFFFF" | "0xFFFF < len" by linarith
  then have "(data ! 1 AND 0x80 \<noteq> 0) = m \<and>
     header_length (unat (data ! 1 AND 0x7F)) m = 1 + length (length_header m len) + (if m then 4 else 0) \<and>
     payload_length data = len"
  proof cases
    case 1
    then show ?thesis using length_byte [of len m]
      by (simp add: data length_header_def header_length_def payload_length_def Let_def)
  next
    case 2
    then show ?thesis using length_byte [of 126 m] big(1)
      by (simp add: data length_header_def header_length_def payload_length_def Let_def)
  next
    case 3
    then show ?thesis using length_byte [of 127 m] big(2) assms(1)
      by (simp add: data length_header_def header_length_def payload_length_def Let_def kMaxPayloadLength_def)
  qed
  then show "(data ! 1 AND 0x80 \<noteq> 0) = m"
    "header_length (unat (data ! 1 AND 0x7F)) m = 1 + length (length_header m len) + (if m then 4 else 0)"
    "payload_length data = len" by simp_all
qed

lemma decode_encode:
  assumes "well_formed f" "key_ok key"
  shows "decode_frame (encodeFrame key f @ rest) = Decoded f rest"
proof -
  let ?m = "key \<noteq> None" and ?n = "length (payload f)"
  let ?body = "case key of None \<Rightarrow> payload f | Some k \<Rightarrow> k @ applyMask k (payload f)"
  let ?h = "length_header ?m ?n" and ?b = "(if fin f then 0x80 else 0x00) OR opcode_byte (opcode f)"
  define d where "d = ?b # ?h @ ?body @ rest"
  have d: "encodeFrame key f @ rest = d" by (simp add: encodeFrame_def d_def)
  have n: "?n \<le> kMaxPayloadLength" using assms(1) by (simp add: well_formed_def)
  note header = length_header_decodes [OF n d_def]
  have first: "d ! 0 = ?b" by (simp add: d_def)
  show ?thesis
  proof (cases key)
    case None
    have "\<not> length d < 1 + length ?h + ?n" "take ?n (drop (1 + length ?h) d) = payload f" "drop (1 + length ?h + ?n) d = rest"
      by (simp_all add: d_def None)
    then show ?thesis using assms(1) n None unfolding d decode_frame_def Let_def first header_byte header
      by (auto simp: well_formed_def)
  next
    case (Some k)
    then have k: "length k = 4" using assms(2) by (simp add: key_ok_def)
    define p where "p = ?b # ?h @ k"
    have p: "1 + length ?h + 4 = length p" "d = p @ applyMask k (payload f) @ rest" by (simp_all add: p_def d_def Some k)
    have "\<not> length d < 1 + length ?h + 4 + ?n" "take ?n (drop (1 + length ?h + 4) d) = applyMask k (payload f)"
      "drop (1 + length ?h + 4 + ?n) d = rest" unfolding p by simp_all
    moreover have "take 4 (drop (1 + length ?h) d) = k" by (simp add: d_def Some k)
    ultimately show ?thesis using assms(1) n Some unfolding d decode_frame_def Let_def first header_byte header
      by (auto simp: well_formed_def)
  qed
qed

lemma feed_encoded:
  assumes "\<forall>(key, f) \<in> set kfs. well_formed f \<and> key_ok key"
  shows "feed (concat (map (\<lambda>(key, f). encodeFrame key f) kfs) @ rest) frames = feed rest (frames @ map snd kfs)"
  using assms
proof (induction kfs arbitrary: frames)
  case (Cons kf kfs)
  obtain key f where kf: "kf = (key, f)" by fastforce
  let ?tail = "concat (map (\<lambda>(key, f). encodeFrame key f) kfs) @ rest"
  have dec: "decode_frame (encodeFrame key f @ ?tail) = Decoded f ?tail"
    using decode_encode [of f key ?tail] Cons.prems kf by simp
  have two: "\<not> length (encodeFrame key f @ ?tail) < 2"
    by (simp add: encodeFrame_def length_header_def Let_def)
  have "feed (encodeFrame key f @ ?tail) frames = feed ?tail (frames @ [f])"
    using dec two by (subst feed.simps) simp
  then show ?case using Cons.IH [of "frames @ [f]"] Cons.prems kf by simp
qed simp

text \<open>
  C12: frames survive the wire. Whatever frames are sent, masked or not and back to back, and however the
  bytes are cut into chunks on the way, the receiver decodes exactly those frames, in order, with nothing
  left over and no protocol error, provided each payload is at most 64 MiB and control frames are
  unfragmented and at most 125 bytes.
\<close>

theorem websocket_roundtrip:
  assumes "\<forall>(key, f) \<in> set kfs. well_formed f \<and> key_ok key"
    and "concat chunks = concat (map (\<lambda>(key, f). encodeFrame key f) kfs)"
  shows "feed_chunks chunks [] [] = (True, [], map snd kfs)"
proof -
  have "feed [] frames = (True, [], frames)" for frames by (subst feed.simps) simp
  then show ?thesis using feed_chunks_concat [of "[]" "[]" chunks] feed_encoded [OF assms(1), of "[]" "[]"] assms(2) by simp
qed

theorem websocket_roundtrip_witness:
  "feed_chunks [[0x81], [0x82, 1, 2], [3, 4, 0x49], [0x6B, 0x8A, 0]] [] [] =
     (True, [], [\<lparr>fin = True, opcode = Text, payload = [0x48, 0x69]\<rparr>, \<lparr>fin = True, opcode = Pong, payload = []\<rparr>])"
  using websocket_roundtrip [of "[(Some [1, 2, 3, 4], \<lparr>fin = True, opcode = Text, payload = [0x48, 0x69]\<rparr>),
      (None, \<lparr>fin = True, opcode = Pong, payload = []\<rparr>)]" "[[0x81], [0x82, 1, 2], [3, 4, 0x49], [0x6B, 0x8A, 0]]"]
  by (simp add: well_formed_def key_ok_def kMaxPayloadLength_def isControl_def encodeFrame_def length_header_def Let_def
      applyMask_def)

text \<open>
  C36: a protocol error is final and does not depend on the cut either: once the bytes received so far are
  refused, everything buffered is dropped, the frames decoded before are kept, and however the same bytes
  are delivered, alone or followed by more, the decoder refuses at the same frame.
\<close>

theorem websocket_refusal_final:
  assumes "feed (concat chunks) [] = (False, rest, frames)"
  shows "rest = [] \<and> feed (concat chunks @ extra) [] = (False, [], frames) \<and> feed_chunks chunks [] [] = (False, [], frames)"
proof -
  have drained: "rest = []" if "feed data fs = (False, rest, frames)" for data fs
    using that by (induction data fs rule: feed.induct) (subst (asm) (2) feed.simps, auto split: if_splits decoded.splits)
  have "feed [] [] = (True, [], [])" by (subst feed.simps) simp
  then show ?thesis using assms drained [OF assms] feed_append [of "concat chunks" extra "[]"]
      feed_chunks_concat [of "[]" "[]" chunks] by simp
qed

theorem websocket_refusal_final_witness:
  "feed_chunks [[0x8A], [0, 0xC1], [0]] [] [] = (False, [], [\<lparr>fin = True, opcode = Pong, payload = []\<rparr>])"
proof -
  have "feed (concat [[0x8A], [0, 0xC1], [0]]) [] = (False, [], [\<lparr>fin = True, opcode = Pong, payload = []\<rparr>])"
    by (simp add: feed.simps decode_frame_def Let_def known_opcode_def header_length_def payload_length_def isControl_def)
  then show ?thesis using websocket_refusal_final by blast
qed

end
