(* ===== verification/HttpClient.thy ===== *)
theory HttpClient
  imports Statistics Options
begin

text \<open>
  The HTTP load client: \<^verbatim>\<open>BenchmarkClientHttpImpl\<close> (\<^verbatim>\<open>source/client/benchmark_client_impl.cc\<close>) and the
  \<^verbatim>\<open>StreamDecoder\<close> each of its requests owns (\<^verbatim>\<open>source/client/stream_decoder.cc\<close>). Envoy's connection
  pool and codecs are the environment: they decide when a stream gets a connection, what it receives
  and how it ends. The step relation \<open>http_step\<close> lets them do so in any order, with the one guarantee the
  decoder relies on: a stream that has ended is not called again.

  A statistic is the list of samples added to it (\<open>represents\<close> in theory Statistics).
\<close>

subsection \<open>Counters and statistics\<close>

datatype StreamResetReason =
    LocalReset | LocalRefusedStreamReset | RemoteReset | RemoteRefusedStreamReset | LocalConnectionFailure
  | RemoteConnectionFailure | ConnectionTimeout | ConnectionTermination | Overflow | ConnectError | ProtocolError
  | OverloadManager | Http1PrematureUpstreamHalfClose | RemoteResetNoError

datatype PoolFailureReason = PoolOverflow | PoolLocalConnectionFailure | PoolRemoteConnectionFailure | PoolTimeout

datatype StreamResetPhase = BeforeHeaders | IncompleteBody

type_synonym GrpcStatusOpt = "int option"

datatype benchmark_counter =
    stream_resets | stream_resets_before_headers | stream_resets_incomplete_body
  | http_1xx | http_2xx | http_3xx | http_4xx | http_5xx | http_xxx | http_inflight_lost
  | pool_overflow | grpc_error | pool_connection_failure | pool_failure_local_connection_failure
  | pool_failure_remote_connection_failure | pool_failure_timeout
  | user_defined_plugin_handle_headers_failure | user_defined_plugin_handle_data_failure
  | grpcStatusCounter GrpcStatusOpt
  | streamResetReasonCounter StreamResetReason

primrec streamResetReasonToString :: "StreamResetReason \<Rightarrow> string" where
  "streamResetReasonToString LocalReset = ''local_reset''"
| "streamResetReasonToString LocalRefusedStreamReset = ''local_refused_stream_reset''"
| "streamResetReasonToString RemoteReset = ''remote_reset''"
| "streamResetReasonToString RemoteRefusedStreamReset = ''remote_refused_stream_reset''"
| "streamResetReasonToString LocalConnectionFailure = ''local_connection_failure''"
| "streamResetReasonToString RemoteConnectionFailure = ''remote_connection_failure''"
| "streamResetReasonToString ConnectionTimeout = ''connection_timeout''"
| "streamResetReasonToString ConnectionTermination = ''connection_termination''"
| "streamResetReasonToString Overflow = ''overflow''"
| "streamResetReasonToString ConnectError = ''connect_error''"
| "streamResetReasonToString ProtocolError = ''protocol_error''"
| "streamResetReasonToString OverloadManager = ''overload_manager''"
| "streamResetReasonToString Http1PrematureUpstreamHalfClose = ''http1_premature_upstream_half_close''"
| "streamResetReasonToString RemoteResetNoError = ''remote_reset_no_error''"

datatype CoreResponseFlag =
    UpstreamConnectionFailure | UpstreamConnectionTermination | FlagLocalReset | UpstreamOverflow
  | UpstreamRemoteReset | UpstreamProtocolError | FlagOverloadManager

primrec streamResetReasonToResponseFlag :: "StreamResetReason \<Rightarrow> CoreResponseFlag" where
  "streamResetReasonToResponseFlag LocalConnectionFailure = UpstreamConnectionFailure"
| "streamResetReasonToResponseFlag RemoteConnectionFailure = UpstreamConnectionFailure"
| "streamResetReasonToResponseFlag ConnectionTimeout = UpstreamConnectionFailure"
| "streamResetReasonToResponseFlag ConnectionTermination = UpstreamConnectionTermination"
| "streamResetReasonToResponseFlag LocalReset = FlagLocalReset"
| "streamResetReasonToResponseFlag LocalRefusedStreamReset = FlagLocalReset"
| "streamResetReasonToResponseFlag Http1PrematureUpstreamHalfClose = FlagLocalReset"
| "streamResetReasonToResponseFlag Overflow = UpstreamOverflow"
| "streamResetReasonToResponseFlag ConnectError = UpstreamRemoteReset"
| "streamResetReasonToResponseFlag RemoteReset = UpstreamRemoteReset"
| "streamResetReasonToResponseFlag RemoteRefusedStreamReset = UpstreamRemoteReset"
| "streamResetReasonToResponseFlag RemoteResetNoError = UpstreamRemoteReset"
| "streamResetReasonToResponseFlag ProtocolError = UpstreamProtocolError"
| "streamResetReasonToResponseFlag OverloadManager = FlagOverloadManager"

text \<open>The name of a counter in the scope \<open>benchmark.\<close>\<close>

primrec counter_name :: "benchmark_counter \<Rightarrow> string" where
  "counter_name stream_resets = ''benchmark.stream_resets''"
| "counter_name stream_resets_before_headers = ''benchmark.stream_resets_before_headers''"
| "counter_name stream_resets_incomplete_body = ''benchmark.stream_resets_incomplete_body''"
| "counter_name http_1xx = ''benchmark.http_1xx''"
| "counter_name http_2xx = ''benchmark.http_2xx''"
| "counter_name http_3xx = ''benchmark.http_3xx''"
| "counter_name http_4xx = ''benchmark.http_4xx''"
| "counter_name http_5xx = ''benchmark.http_5xx''"
| "counter_name http_xxx = ''benchmark.http_xxx''"
| "counter_name http_inflight_lost = ''benchmark.http_inflight_lost''"
| "counter_name pool_overflow = ''benchmark.pool_overflow''"
| "counter_name grpc_error = ''benchmark.grpc_error''"
| "counter_name pool_connection_failure = ''benchmark.pool_connection_failure''"
| "counter_name pool_failure_local_connection_failure = ''benchmark.pool_failure_local_connection_failure''"
| "counter_name pool_failure_remote_connection_failure = ''benchmark.pool_failure_remote_connection_failure''"
| "counter_name pool_failure_timeout = ''benchmark.pool_failure_timeout''"
| "counter_name user_defined_plugin_handle_headers_failure = ''benchmark.user_defined_plugin_handle_headers_failure''"
| "counter_name user_defined_plugin_handle_data_failure = ''benchmark.user_defined_plugin_handle_data_failure''"
| "counter_name (grpcStatusCounter s) =
     (case s of Some code \<Rightarrow> ''benchmark.grpc_status.'' @ show_int code | None \<Rightarrow> ''benchmark.grpc_status.missing'')"
| "counter_name (streamResetReasonCounter r) = ''benchmark.stream_resets_'' @ streamResetReasonToString r"

datatype http_statistic =
    connect_statistic | response_statistic | response_header_size_statistic | response_body_size_statistic
  | latency_1xx_statistic | latency_2xx_statistic | latency_3xx_statistic | latency_4xx_statistic
  | latency_5xx_statistic | latency_xxx_statistic | origin_latency_statistic | latency_grpc_ok_statistic

primrec http_statistic_id :: "http_statistic \<Rightarrow> string" where
  "http_statistic_id connect_statistic = ''benchmark_http_client.queue_to_connect''"
| "http_statistic_id response_statistic = ''benchmark_http_client.request_to_response''"
| "http_statistic_id response_header_size_statistic = ''benchmark_http_client.response_header_size''"
| "http_statistic_id response_body_size_statistic = ''benchmark_http_client.response_body_size''"
| "http_statistic_id latency_1xx_statistic = ''benchmark_http_client.latency_1xx''"
| "http_statistic_id latency_2xx_statistic = ''benchmark_http_client.latency_2xx''"
| "http_statistic_id latency_3xx_statistic = ''benchmark_http_client.latency_3xx''"
| "http_statistic_id latency_4xx_statistic = ''benchmark_http_client.latency_4xx''"
| "http_statistic_id latency_5xx_statistic = ''benchmark_http_client.latency_5xx''"
| "http_statistic_id latency_xxx_statistic = ''benchmark_http_client.latency_xxx''"
| "http_statistic_id origin_latency_statistic = ''benchmark_http_client.origin_latency_statistic''"
| "http_statistic_id latency_grpc_ok_statistic = ''benchmark_http_client.latency_grpc_ok''"

subsection \<open>The client\<close>

record BenchmarkClientHttp =
  counters :: "benchmark_counter \<Rightarrow> nat"
  hc_samples :: "http_statistic \<Rightarrow> sample list"
  hc_protocol :: EnvoyProtocol
  timeout_s :: nat
  connection_limit :: nat
  max_pending_requests :: nat
  max_active_requests :: nat
  requests_completed :: nat
  requests_initiated :: nat
  requests_outstanding :: nat
  finished :: bool
  waiting_in_finish :: bool
  finish_timed_out :: bool
  abandon_outstanding :: bool
  finish_waited_ms :: int
  measure_latencies :: bool
  provide_resource_backpressure :: bool
  latency_response_header_name :: string
  grpc :: bool

definition inc :: "benchmark_counter \<Rightarrow> BenchmarkClientHttp \<Rightarrow> BenchmarkClientHttp" where
  "inc n c = c\<lparr>counters := (counters c)(n := counters c n + 1)\<rparr>"

definition add_sample :: "http_statistic \<Rightarrow> sample \<Rightarrow> BenchmarkClientHttp \<Rightarrow> BenchmarkClientHttp" where
  "add_sample st v c = c\<lparr>hc_samples := (hc_samples c)(st := hc_samples c st @ [v])\<rparr>"

text \<open>What \<^verbatim>\<open>BenchmarkClientFactoryImpl::create\<close> makes of the options for HTTP.\<close>

definition create_http_client :: "OptionsImpl \<Rightarrow> BenchmarkClientHttp" where
  "create_http_client opt =
     \<lparr>counters = (\<lambda>_. 0), hc_samples = (\<lambda>_. []), hc_protocol = OptionsImpl_protocol opt, timeout_s = o_timeout opt,
      connection_limit = o_connections opt, max_pending_requests = o_max_pending_requests opt,
      max_active_requests = o_max_active_requests opt, requests_completed = 0, requests_initiated = 0,
      requests_outstanding = 0, finished = False, waiting_in_finish = False, finish_timed_out = False,
      abandon_outstanding = False, finish_waited_ms = 0, measure_latencies = False,
      provide_resource_backpressure = (\<not> o_open_loop opt),
      latency_response_header_name = o_latency_response_header_name opt, grpc = grpcEnabled opt\<rparr>"

definition onRequestDone :: "BenchmarkClientHttp \<Rightarrow> BenchmarkClientHttp" where
  "onRequestDone c =
     (if requests_outstanding c > 0 then c\<lparr>requests_outstanding := requests_outstanding c - 1\<rparr> else c)"

definition trackGrpcStatus :: "GrpcStatusOpt \<Rightarrow> BenchmarkClientHttp \<Rightarrow> bool \<times> BenchmarkClientHttp" where
  "trackGrpcStatus grpc_status c =
     (let c = inc (grpcStatusCounter grpc_status) c; ok = (grpc_status = Some 0)
      in (ok, if ok then c else inc grpc_error c))"

text \<open>The status class of a response code, as the counters and the latency statistics have it.\<close>

definition status_counter :: "int \<Rightarrow> benchmark_counter" where
  "status_counter status =
     (if status > 199 \<and> status \<le> 299 then http_2xx
      else if status > 99 \<and> status \<le> 199 then http_1xx
      else if status > 299 \<and> status \<le> 399 then http_3xx
      else if status > 399 \<and> status \<le> 499 then http_4xx
      else if status > 499 \<and> status \<le> 599 then http_5xx
      else http_xxx)"

definition latency_class :: "int \<Rightarrow> http_statistic" where
  "latency_class code =
     (if code > 99 \<and> code \<le> 199 then latency_1xx_statistic
      else if code > 199 \<and> code \<le> 299 then latency_2xx_statistic
      else if code > 299 \<and> code \<le> 399 then latency_3xx_statistic
      else if code > 399 \<and> code \<le> 499 then latency_4xx_statistic
      else if code > 499 \<and> code \<le> 599 then latency_5xx_statistic
      else latency_xxx_statistic)"

text \<open>
  \<open>status\<close> is \<^verbatim>\<open>getResponseStatus\<close> of the headers; \<open>plugins\<close> says for each user defined output plugin
  whether it handled them.
\<close>

definition score_response :: "int \<Rightarrow> GrpcStatusOpt \<Rightarrow> BenchmarkClientHttp \<Rightarrow> BenchmarkClientHttp" where
  "score_response status grpc_status c =
     (let (grpc_ok, c) = (if grpc c then trackGrpcStatus grpc_status c else (False, c))
      in if status_counter status = http_2xx
         then (if \<not> grpc c \<or> grpc_ok then inc http_2xx c else c)
         else inc (status_counter status) c)"

definition client_onComplete ::
    "bool \<Rightarrow> int \<Rightarrow> GrpcStatusOpt \<Rightarrow> bool list \<Rightarrow> BenchmarkClientHttp \<Rightarrow> BenchmarkClientHttp" where
  "client_onComplete success status grpc_status plugins c =
     (let c = onRequestDone (c\<lparr>requests_completed := requests_completed c + 1\<rparr>);
          c = (if \<not> success
               then let c = inc stream_resets c in (if grpc c then snd (trackGrpcStatus grpc_status c) else c)
               else score_response status grpc_status c)
      in fold (\<lambda>handled c. if handled then c else inc user_defined_plugin_handle_headers_failure c) plugins c)"

definition client_onStreamReset :: "StreamResetPhase \<Rightarrow> StreamResetReason \<Rightarrow> BenchmarkClientHttp \<Rightarrow> BenchmarkClientHttp" where
  "client_onStreamReset phase reason c =
     inc (streamResetReasonCounter reason)
       (case phase of BeforeHeaders \<Rightarrow> inc stream_resets_before_headers c
        | IncompleteBody \<Rightarrow> inc stream_resets_incomplete_body c)"

definition client_onPoolFailure :: "PoolFailureReason \<Rightarrow> BenchmarkClientHttp \<Rightarrow> BenchmarkClientHttp" where
  "client_onPoolFailure reason c =
     onRequestDone
       (case reason of
          PoolOverflow \<Rightarrow> inc pool_overflow c
        | PoolLocalConnectionFailure \<Rightarrow> inc pool_failure_local_connection_failure (inc pool_connection_failure c)
        | PoolRemoteConnectionFailure \<Rightarrow> inc pool_failure_remote_connection_failure (inc pool_connection_failure c)
        | PoolTimeout \<Rightarrow> inc pool_failure_timeout c)"

definition exportLatency :: "int \<Rightarrow> sample \<Rightarrow> GrpcStatusOpt \<Rightarrow> BenchmarkClientHttp \<Rightarrow> BenchmarkClientHttp" where
  "exportLatency response_code latency_ns grpc_status c =
     (let c = (if grpc c \<and> grpc_status = Some 0 then add_sample latency_grpc_ok_statistic latency_ns c else c)
      in add_sample (latency_class response_code) latency_ns c)"

definition handleResponseData :: "bool list \<Rightarrow> BenchmarkClientHttp \<Rightarrow> BenchmarkClientHttp" where
  "handleResponseData plugins c =
     fold (\<lambda>handled c. if handled then c else inc user_defined_plugin_handle_data_failure c) plugins c"

definition max_in_flight :: "BenchmarkClientHttp \<Rightarrow> nat" where
  "max_in_flight c = max_pending_requests c +
     (if hc_protocol c = Http2 \<or> hc_protocol c = Http3 then max_active_requests c else connection_limit c)"

text \<open>
  A request of the generator: its \<open>content-length\<close> header, if any, and its body.
\<close>

record http_request =
  rq_content_length :: "string option"
  rq_body :: string

definition content_length :: "third_party \<Rightarrow> http_request \<Rightarrow> nat" where
  "content_length lib rq =
     (case rq_content_length rq of
        None \<Rightarrow> 0
      | Some s \<Rightarrow> (case SimpleAtoi_uint64 lib s of Some n \<Rightarrow> n | None \<Rightarrow> 0))"

text \<open>
  \<open>finish\<close> up to the point where it runs the dispatcher, and after it returned for good. The wait ends
  when nothing is outstanding, the timer fired or the work was abandoned.
\<close>

definition finish_begin :: "BenchmarkClientHttp \<Rightarrow> BenchmarkClientHttp" where
  "finish_begin c =
     (if finished c then c
      else c\<lparr>finished := True,
             waiting_in_finish := (requests_outstanding c > 0 \<and> \<not> abandon_outstanding c \<and> timeout_s c > 0)\<rparr>)"

definition finish_wait_over :: "BenchmarkClientHttp \<Rightarrow> bool" where
  "finish_wait_over c \<longleftrightarrow> \<not> (requests_outstanding c > 0 \<and> \<not> finish_timed_out c \<and> \<not> abandon_outstanding c)"

definition finish_end :: "int \<Rightarrow> BenchmarkClientHttp \<Rightarrow> BenchmarkClientHttp" where
  "finish_end waited_ms c =
     (let c = (if waiting_in_finish c then c\<lparr>waiting_in_finish := False, finish_waited_ms := waited_ms\<rparr> else c)
      in if requests_outstanding c > 0
         then c\<lparr>counters := (counters c)(http_inflight_lost := counters c http_inflight_lost + requests_outstanding c)\<rparr>
         else c)"

definition abandonOutstandingWork :: "BenchmarkClientHttp \<Rightarrow> BenchmarkClientHttp" where
  "abandonOutstandingWork c = c\<lparr>abandon_outstanding := True\<rparr>"

text \<open>\<open>terminate\<close> stops measuring and caps its wait for the pool to drain with what \<open>finish\<close> left.\<close>

definition terminate_drain_ms :: "BenchmarkClientHttp \<Rightarrow> int" where
  "terminate_drain_ms c = max 0 (int (timeout_s c) * 1000 - finish_waited_ms c)"

definition terminate_begin :: "bool \<Rightarrow> BenchmarkClientHttp \<Rightarrow> BenchmarkClientHttp \<times> int option" where
  "terminate_begin active_connections c =
     (if active_connections then (c\<lparr>measure_latencies := False\<rparr>, Some (terminate_drain_ms c)) else (c, None))"

subsection \<open>The decoder of one request\<close>

text \<open>
  Response headers as the decoder reads them: the status code, the size in bytes, the \<open>grpc-status\<close> when
  there is one, and the values of the header that carries the origin's latency.
\<close>

record response_headers =
  rh_status :: int
  rh_byteSize :: sample
  rh_grpc_status :: GrpcStatusOpt
  rh_timing :: "string list"

record StreamDecoder =
  sd_complete :: bool
  sd_response_headers :: "response_headers option"
  sd_grpc_status :: GrpcStatusOpt
  sd_connect_start :: nanos
  sd_request_start :: nanos
  sd_measure_latencies :: bool
  sd_request_body :: string
  sd_request_body_size :: "32 word"
  sd_response_code :: "32 word option"
  sd_bytes_sent :: nat
  sd_bytes_received :: nat
  sd_response_flag :: "CoreResponseFlag option"

definition mk_StreamDecoder :: "time_source \<Rightarrow> bool \<Rightarrow> string \<Rightarrow> nat \<Rightarrow> StreamDecoder" where
  "mk_StreamDecoder ts measuring body len =
     \<lparr>sd_complete = False, sd_response_headers = None, sd_grpc_status = None, sd_connect_start = monotonicTime ts,
      sd_request_start = 0, sd_measure_latencies = measuring, sd_request_body = body,
      sd_request_body_size = word_of_nat len, sd_response_code = None, sd_bytes_sent = 0, sd_bytes_received = 0,
      sd_response_flag = None\<rparr>"

text \<open>The bytes all generated bodies are taken from.\<close>

definition staticUploadContent_size :: nat where "staticUploadContent_size = 4194304"

text \<open>
  \<open>onPoolReady\<close>: what is sent is the headers, then a body when there is one. A generated body is a
  fragment over the static upload content: reading past its end is undefined.
\<close>

datatype sent_body = NoBody | GeneratedBody nat | GivenBody string

definition decoder_onPoolReady ::
    "time_source \<Rightarrow> StreamDecoder \<Rightarrow> BenchmarkClientHttp \<Rightarrow> (sent_body \<times> StreamDecoder \<times> BenchmarkClientHttp) result" where
  "decoder_onPoolReady ts d c =
     (let body = (if sd_request_body d \<noteq> [] then GivenBody (sd_request_body d)
                  else if unat (sd_request_body_size d) > 0 then GeneratedBody (unat (sd_request_body_size d)) else NoBody);
          received = (case body of NoBody \<Rightarrow> 0 | GeneratedBody n \<Rightarrow> n | GivenBody b \<Rightarrow> length b);
          d = d\<lparr>sd_bytes_received := sd_bytes_received d + received, sd_request_start := monotonicTime ts\<rparr>;
          c = (if sd_measure_latencies d
               then add_sample connect_statistic (word_of_int (sd_request_start d - sd_connect_start d)) c else c)
      in case body of
           GeneratedBody n \<Rightarrow>
             if n > staticUploadContent_size then Inl (Panic ''read past the upload content'') else Inr (body, d, c)
         | _ \<Rightarrow> Inr (body, d, c))"

text \<open>
  \<open>onComplete\<close> of the decoder: latency, body size, the client's accounting, and the caller's callback with
  \<open>(complete, success)\<close>. The status of an empty header map reads as 0.
\<close>

definition decoder_onComplete ::
    "time_source \<Rightarrow> bool \<Rightarrow> bool list \<Rightarrow> StreamDecoder \<Rightarrow> BenchmarkClientHttp \<Rightarrow> (bool \<times> bool) \<times> BenchmarkClientHttp" where
  "decoder_onComplete ts success plugins d c =
     (let latency = word_of_int (monotonicTime ts - sd_request_start d);
          c = (if success \<and> sd_measure_latencies d
               then let c = add_sample response_statistic latency c
                    in case sd_response_code d of
                         Some code \<Rightarrow> exportLatency (int (unat code)) latency (sd_grpc_status d) c
                       | None \<Rightarrow> c
               else c);
          c = add_sample response_body_size_statistic (word_of_nat (sd_bytes_sent d)) c;
          status = (case sd_response_headers d of Some h \<Rightarrow> rh_status h | None \<Rightarrow> 0);
          c = client_onComplete success status (sd_grpc_status d) plugins c
      in ((sd_complete d, success), c))"

definition origin_latency :: "(string \<Rightarrow> int option) \<Rightarrow> string list \<Rightarrow> sample option" where
  "origin_latency SimpleAtoi_int64 timing =
     (if timing = [] then None
      else let timing_value = (if length timing = 1 then hd timing else ''multiple values'')
           in case SimpleAtoi_int64 timing_value of
                Some delta \<Rightarrow> if delta \<ge> 0 then Some (word_of_int delta) else None
              | None \<Rightarrow> None)"

text \<open>
  What one event of the codec does to the decoder and the client: the decoder goes on, or it is done and
  the caller was called back.
\<close>

datatype outcome = Goes_on StreamDecoder | Done "bool \<times> bool"

definition decodeHeaders ::
    "(string \<Rightarrow> int option) \<Rightarrow> time_source \<Rightarrow> response_headers \<Rightarrow> bool \<Rightarrow> bool list \<Rightarrow> StreamDecoder \<Rightarrow> BenchmarkClientHttp \<Rightarrow>
       outcome \<times> BenchmarkClientHttp" where
  "decodeHeaders SimpleAtoi_int64 ts headers end_stream plugins d c =
     (let d = d\<lparr>sd_complete := end_stream, sd_response_headers := Some headers,
                sd_response_code := Some (word_of_int (rh_status headers)), sd_grpc_status := rh_grpc_status headers\<rparr>;
          c = add_sample response_header_size_statistic (rh_byteSize headers) c;
          c = (if latency_response_header_name c \<noteq> []
               then case origin_latency SimpleAtoi_int64 (rh_timing headers) of
                      Some v \<Rightarrow> add_sample origin_latency_statistic v c | None \<Rightarrow> c
               else c)
      in if sd_complete d then map_prod Done id (decoder_onComplete ts True plugins d c) else (Goes_on d, c))"

definition decodeData ::
    "time_source \<Rightarrow> nat \<Rightarrow> bool \<Rightarrow> bool list \<Rightarrow> bool list \<Rightarrow> StreamDecoder \<Rightarrow> BenchmarkClientHttp \<Rightarrow>
       outcome \<times> BenchmarkClientHttp" where
  "decodeData ts data_length end_stream plugins data_plugins d c =
     (let d = d\<lparr>sd_complete := end_stream, sd_bytes_sent := sd_bytes_sent d + data_length\<rparr>;
          (r, c) = (if sd_complete d then map_prod Done id (decoder_onComplete ts True plugins d c) else (Goes_on d, c))
      in (r, handleResponseData data_plugins c))"

definition decodeTrailers ::
    "time_source \<Rightarrow> GrpcStatusOpt \<Rightarrow> bool list \<Rightarrow> StreamDecoder \<Rightarrow> BenchmarkClientHttp \<Rightarrow> outcome \<times> BenchmarkClientHttp" where
  "decodeTrailers ts trailer_status plugins d c =
     (let d = d\<lparr>sd_complete := True,
                sd_grpc_status := (if trailer_status \<noteq> None then trailer_status else sd_grpc_status d)\<rparr>
      in map_prod Done id (decoder_onComplete ts True plugins d c))"

definition decoder_onResetStream ::
    "time_source \<Rightarrow> StreamResetReason \<Rightarrow> bool list \<Rightarrow> StreamDecoder \<Rightarrow> BenchmarkClientHttp \<Rightarrow> outcome \<times> BenchmarkClientHttp" where
  "decoder_onResetStream ts reason plugins d c =
     (let phase = (if sd_response_headers d = None then BeforeHeaders else IncompleteBody);
          c = client_onStreamReset phase reason c;
          d = d\<lparr>sd_response_flag := Some (streamResetReasonToResponseFlag reason)\<rparr>
      in map_prod Done id (decoder_onComplete ts False plugins d c))"

definition decoder_onPoolFailure :: "PoolFailureReason \<Rightarrow> StreamDecoder \<Rightarrow> BenchmarkClientHttp \<Rightarrow> outcome \<times> BenchmarkClientHttp" where
  "decoder_onPoolFailure reason d c = (Done (False, False), client_onPoolFailure reason c)"

text \<open>
  \<open>tryStartRequest\<close> up to the call of the pool: whether a request was issued, and its decoder. \<open>pool\<close> says
  whether a pool could be had, \<open>generated\<close> is what the request generator yields.
\<close>

definition tryStartRequest ::
    "third_party \<Rightarrow> bool \<Rightarrow> http_request option \<Rightarrow> time_source \<Rightarrow> BenchmarkClientHttp \<Rightarrow> BenchmarkClientHttp \<times> StreamDecoder option" where
  "tryStartRequest lib pool generated ts c =
     (if \<not> pool then (c, None)
      else if provide_resource_backpressure c \<and> requests_initiated c - requests_completed c \<ge> max_in_flight c then (c, None)
      else case generated of
             None \<Rightarrow> (c, None)
           | Some rq \<Rightarrow>
               (c\<lparr>requests_initiated := requests_initiated c + 1, requests_outstanding := requests_outstanding c + 1\<rparr>,
                Some (mk_StreamDecoder ts (measure_latencies c) (rq_body rq) (content_length lib rq))))"

subsection \<open>The client among its streams\<close>

datatype codec_event =
    Headers response_headers bool "bool list"
  | Data nat bool "bool list" "bool list"
  | Trailers GrpcStatusOpt "bool list"
  | Reset StreamResetReason "bool list"
  | PoolFailed PoolFailureReason

fun handle_event ::
    "(string \<Rightarrow> int option) \<Rightarrow> time_source \<Rightarrow> codec_event \<Rightarrow> StreamDecoder \<Rightarrow> BenchmarkClientHttp \<Rightarrow> outcome \<times> BenchmarkClientHttp" where
  "handle_event atoi ts (Headers h e ps) d c = decodeHeaders atoi ts h e ps d c"
| "handle_event atoi ts (Data n e ps dps) d c = decodeData ts n e ps dps d c"
| "handle_event atoi ts (Trailers g ps) d c = decodeTrailers ts g ps d c"
| "handle_event atoi ts (Reset r ps) d c = decoder_onResetStream ts r ps d c"
| "handle_event atoi ts (PoolFailed r) d c = decoder_onPoolFailure r d c"

text \<open>The live decoders by number; \<open>hs_accounted\<close> once \<open>finish\<close> has returned.\<close>

record http_state =
  hs_client :: BenchmarkClientHttp
  hs_streams :: "nat \<rightharpoonup> StreamDecoder"
  hs_next :: nat
  hs_accounted :: bool

inductive http_step :: "third_party \<Rightarrow> (string \<Rightarrow> int option) \<Rightarrow> http_state \<Rightarrow> http_state \<Rightarrow> bool" for lib atoi where
  http_request: "tryStartRequest lib pool generated ts (hs_client s) = (c, Some d) \<Longrightarrow>
     http_step lib atoi s (s\<lparr>hs_client := c, hs_streams := (hs_streams s)(hs_next s \<mapsto> d), hs_next := hs_next s + 1\<rparr>)"
| http_ready: "hs_streams s i = Some d \<Longrightarrow> decoder_onPoolReady ts d (hs_client s) = Inr (body, d', c) \<Longrightarrow>
     http_step lib atoi s (s\<lparr>hs_client := c, hs_streams := (hs_streams s)(i \<mapsto> d')\<rparr>)"
| http_going_on: "hs_streams s i = Some d \<Longrightarrow> handle_event atoi ts ev d (hs_client s) = (Goes_on d', c) \<Longrightarrow>
     http_step lib atoi s (s\<lparr>hs_client := c, hs_streams := (hs_streams s)(i \<mapsto> d')\<rparr>)"
| http_done: "hs_streams s i = Some d \<Longrightarrow> handle_event atoi ts ev d (hs_client s) = (Done cb, c) \<Longrightarrow>
     http_step lib atoi s (s\<lparr>hs_client := c, hs_streams := (hs_streams s)(i := None)\<rparr>)"
| http_measure: "http_step lib atoi s (s\<lparr>hs_client := (hs_client s)\<lparr>measure_latencies := b\<rparr>\<rparr>)"
| http_abandon: "http_step lib atoi s (s\<lparr>hs_client := abandonOutstandingWork (hs_client s)\<rparr>)"
| http_finish_begin: "\<not> finished (hs_client s) \<Longrightarrow> http_step lib atoi s (s\<lparr>hs_client := finish_begin (hs_client s)\<rparr>)"
| http_finish_timeout: "waiting_in_finish (hs_client s) \<Longrightarrow>
     http_step lib atoi s (s\<lparr>hs_client := (hs_client s)\<lparr>finish_timed_out := True\<rparr>\<rparr>)"
| http_finish_end: "finished (hs_client s) \<Longrightarrow> \<not> hs_accounted s \<Longrightarrow>
     waiting_in_finish (hs_client s) \<longrightarrow> finish_wait_over (hs_client s) \<Longrightarrow>
     http_step lib atoi s (s\<lparr>hs_client := finish_end waited (hs_client s), hs_accounted := True\<rparr>)"

definition http_initial :: "OptionsImpl \<Rightarrow> http_state" where
  "http_initial opt = \<lparr>hs_client = create_http_client opt, hs_streams = Map.empty, hs_next = 0, hs_accounted = False\<rparr>"

inductive http_reachable :: "third_party \<Rightarrow> (string \<Rightarrow> int option) \<Rightarrow> OptionsImpl \<Rightarrow> http_state \<Rightarrow> bool" for lib atoi opt where
  http_start: "http_reachable lib atoi opt (http_initial opt)"
| http_next: "http_reachable lib atoi opt s \<Longrightarrow> http_step lib atoi s s' \<Longrightarrow> http_reachable lib atoi opt s'"

subsection \<open>Every request is accounted for\<close>

definition http_total :: "BenchmarkClientHttp \<Rightarrow> nat" where
  "http_total c = counters c http_1xx + counters c http_2xx + counters c http_3xx + counters c http_4xx +
     counters c http_5xx + counters c http_xxx"

definition pool_failures :: "BenchmarkClientHttp \<Rightarrow> nat" where
  "pool_failures c = counters c pool_overflow + counters c pool_failure_local_connection_failure +
     counters c pool_failure_remote_connection_failure + counters c pool_failure_timeout"

text \<open>The account of a client with \<open>n\<close> requests outstanding.\<close>

definition http_account :: "nat \<Rightarrow> BenchmarkClientHttp \<Rightarrow> bool" where
  "http_account n c \<longleftrightarrow>
     requests_outstanding c = n \<and>
     requests_initiated c = requests_completed c + n + pool_failures c \<and>
     counters c stream_resets = counters c stream_resets_before_headers + counters c stream_resets_incomplete_body \<and>
     counters c pool_connection_failure =
       counters c pool_failure_local_connection_failure + counters c pool_failure_remote_connection_failure \<and>
     (if grpc c then requests_completed c = counters c grpc_error + counters c (grpcStatusCounter (Some 0))
      else requests_completed c = http_total c + counters c stream_resets)"

lemmas account_defs = http_account_def http_total_def pool_failures_def inc_def

lemma account_neutral [simp]:
  "http_account n (add_sample st v c) = http_account n c"
  "http_account n (inc user_defined_plugin_handle_headers_failure c) = http_account n c"
  "http_account n (inc user_defined_plugin_handle_data_failure c) = http_account n c"
  "http_account n (inc (streamResetReasonCounter r) c) = http_account n c"
  "http_account n (c\<lparr>measure_latencies := b\<rparr>) = http_account n c"
  by (simp_all add: account_defs add_sample_def)

lemma account_export [simp]: "http_account n (exportLatency code v g c) = http_account n c"
  by (simp add: exportLatency_def Let_def)

lemma account_plugins [simp]:
  "http_account n (fold (\<lambda>handled c. if handled then c else inc user_defined_plugin_handle_headers_failure c) ps c) = http_account n c"
  "http_account n (handleResponseData ps c) = http_account n c"
proof -
  show "http_account n (fold (\<lambda>handled c. if handled then c else inc user_defined_plugin_handle_headers_failure c) ps c) = http_account n c"
    by (induction ps arbitrary: c) simp_all
  show "http_account n (handleResponseData ps c) = http_account n c"
    unfolding handleResponseData_def by (induction ps arbitrary: c) simp_all
qed

text \<open>Between counting a completion and scoring it, one outcome is owed.\<close>

definition http_owed :: "nat \<Rightarrow> nat \<Rightarrow> BenchmarkClientHttp \<Rightarrow> bool" where
  "http_owed k n c \<longleftrightarrow>
     requests_outstanding c = n \<and>
     requests_initiated c = requests_completed c + n + pool_failures c \<and>
     counters c stream_resets + k = counters c stream_resets_before_headers + counters c stream_resets_incomplete_body \<and>
     counters c pool_connection_failure =
       counters c pool_failure_local_connection_failure + counters c pool_failure_remote_connection_failure \<and>
     (if grpc c then requests_completed c = counters c grpc_error + counters c (grpcStatusCounter (Some 0)) + 1
      else requests_completed c = http_total c + counters c stream_resets + 1)"

lemma owed_completion:
  "http_account (Suc n) c \<Longrightarrow> http_owed 0 n (onRequestDone (c\<lparr>requests_completed := requests_completed c + 1\<rparr>))"
  by (simp add: http_owed_def onRequestDone_def account_defs)

lemma status_counter_cases:
  "status_counter status \<in> {http_1xx, http_2xx, http_3xx, http_4xx, http_5xx, http_xxx}"
  by (simp add: status_counter_def)

lemma owed_status:
  assumes "http_owed 0 n c" "\<not> grpc c" "k \<in> {http_1xx, http_2xx, http_3xx, http_4xx, http_5xx, http_xxx}"
  shows "http_account n (inc k c)"
  using assms by (auto simp: http_owed_def account_defs)

lemma track_grpc:
  "snd (trackGrpcStatus g c) = (if g = Some 0 then inc (grpcStatusCounter g) c else inc grpc_error (inc (grpcStatusCounter g) c))"
  by (simp add: trackGrpcStatus_def Let_def)

lemma owed_grpc:
  assumes "http_owed 0 n c" "grpc c"
  shows "http_account n (snd (trackGrpcStatus g c))"
  using assms by (cases "g = Some 0") (simp_all add: track_grpc http_owed_def account_defs)

lemma account_status_grpc:
  assumes "http_account n c" "grpc c" "k \<in> {http_1xx, http_2xx, http_3xx, http_4xx, http_5xx, http_xxx}"
  shows "http_account n (inc k c)"
  using assms by (auto simp: account_defs)

lemma grpc_track [simp]: "grpc (snd (trackGrpcStatus g c)) = grpc c" "fst (trackGrpcStatus g c) = (g = Some 0)"
  by (simp_all add: trackGrpcStatus_def Let_def inc_def)

lemma score_response_eq:
  "score_response status g c =
     (let c' = (if grpc c then snd (trackGrpcStatus g c) else c)
      in if status_counter status \<noteq> http_2xx then inc (status_counter status) c'
         else if \<not> grpc c \<or> g = Some 0 then inc http_2xx c' else c')"
  by (cases "grpc c") (simp_all add: score_response_def Let_def case_prod_beta)

lemma account_score:
  assumes "http_owed 0 n c"
  shows "http_account n (score_response status g c)"
proof (cases "grpc c")
  case True
  let ?c = "snd (trackGrpcStatus g c)"
  have acc: "http_account n ?c" by (rule owed_grpc [OF assms True])
  have g: "grpc ?c" using True by simp
  have "http_account n (inc (status_counter status) ?c)" "http_account n (inc http_2xx ?c)"
    by (rule account_status_grpc [OF acc g]; use status_counter_cases in simp)+
  then show ?thesis using True acc unfolding score_response_eq Let_def by (cases "g = Some 0") auto
next
  case False
  have "http_account n (inc (status_counter status) c)" "http_account n (inc http_2xx c)"
    by (rule owed_status [OF assms False]; use status_counter_cases in simp)+
  then show ?thesis using False unfolding score_response_eq Let_def by simp
qed

lemma account_completed:
  "http_account (Suc n) c \<Longrightarrow> http_account n (client_onComplete True status g ps c)"
  using account_score [OF owed_completion, of n c status g] by (simp add: client_onComplete_def Let_def)

lemma account_reset:
  assumes "http_account (Suc n) c"
  shows "http_account n (client_onComplete False status g ps (client_onStreamReset phase reason c))"
proof -
  let ?c = "client_onStreamReset phase reason c"
  let ?d = "inc stream_resets (onRequestDone (?c\<lparr>requests_completed := requests_completed ?c + 1\<rparr>))"
  have "if grpc ?d then http_owed 0 n ?d else http_account n ?d"
    using assms by (cases phase; cases "grpc c") (simp_all add: client_onStreamReset_def http_owed_def onRequestDone_def account_defs)
  then have "http_account n (if grpc ?d then snd (trackGrpcStatus g ?d) else ?d)" using owed_grpc by (simp split: if_splits)
  then show ?thesis by (simp add: client_onComplete_def Let_def del: if_split cong: if_cong)
qed

lemma account_pool_failure:
  "http_account (Suc n) c \<Longrightarrow> http_account n (client_onPoolFailure reason c)"
  by (cases reason) (simp_all add: client_onPoolFailure_def onRequestDone_def account_defs)

lemma done_simps [simp]:
  "map_prod Done id p = (Goes_on d, c) \<longleftrightarrow> False" "map_prod Done id p = (Done cb, c) \<longleftrightarrow> p = (cb, c)"
  by (cases p; simp)+

lemma account_decoder_complete:
  "decoder_onComplete ts True ps d c = (cb, c') \<Longrightarrow> http_account (Suc n) c \<Longrightarrow> http_account n c'"
  using account_completed by (auto simp: decoder_onComplete_def Let_def split: option.splits if_splits)

lemma add_sample_reset: "add_sample st v (client_onStreamReset p r c) = client_onStreamReset p r (add_sample st v c)"
  by (simp add: add_sample_def client_onStreamReset_def inc_def split: StreamResetPhase.split)

lemma account_handle_event:
  assumes "http_account (Suc n) c"
  shows "handle_event atoi ts ev d c = (Goes_on d', c') \<Longrightarrow> http_account (Suc n) c'"
    "handle_event atoi ts ev d c = (Done cb, c') \<Longrightarrow> http_account n c'"
proof -
  show "http_account (Suc n) c'" if "handle_event atoi ts ev d c = (Goes_on d', c')"
    using that assms
    by (cases ev) (auto simp: decodeHeaders_def decodeData_def decodeTrailers_def decoder_onResetStream_def
        decoder_onPoolFailure_def Let_def split: if_splits option.splits prod.splits)
  show "http_account n c'" if "handle_event atoi ts ev d c = (Done cb, c')"
  proof (cases ev)
    case (Headers h e ps)
    then show ?thesis using that assms
      by (auto simp: decodeHeaders_def Let_def split: if_splits option.splits elim: account_decoder_complete)
  next
    case (Data k e ps dps)
    then show ?thesis using that assms
      by (auto simp: decodeData_def Let_def split: if_splits prod.splits elim: account_decoder_complete)
  next
    case (Trailers g ps)
    then show ?thesis using that assms
      by (auto simp: decodeTrailers_def Let_def elim: account_decoder_complete)
  next
    case (Reset r ps)
    have "http_account (Suc n) (add_sample st v c)" for st v using assms by simp
    then show ?thesis using that Reset account_reset
      by (auto simp: decoder_onResetStream_def decoder_onComplete_def Let_def add_sample_reset)
  next
    case (PoolFailed r)
    then show ?thesis using that account_pool_failure [OF assms] by (auto simp: decoder_onPoolFailure_def)
  qed
qed

text \<open>The streams that are live are the requests that are outstanding.\<close>

definition http_ok :: "http_state \<Rightarrow> bool" where
  "http_ok s \<longleftrightarrow> finite (dom (hs_streams s)) \<and> (\<forall>i \<in> dom (hs_streams s). i < hs_next s) \<and>
     http_account (card (dom (hs_streams s))) (hs_client s)"

lemma card_update: "hs_streams s i = Some d \<Longrightarrow> dom ((hs_streams s)(i \<mapsto> d')) = dom (hs_streams s)"
  by auto

lemma account_start:
  "tryStartRequest lib pool generated ts c = (c', Some d) \<Longrightarrow> http_account n c \<Longrightarrow> http_account (Suc n) c'"
  by (auto simp: tryStartRequest_def account_defs split: if_splits option.splits)

lemma account_ready: "decoder_onPoolReady ts d c = Inr (body, d', c') \<Longrightarrow> http_account n c' = http_account n c"
  by (auto simp: decoder_onPoolReady_def Let_def split: if_splits sent_body.splits)

lemma account_finish [simp]:
  "http_account n (finish_begin c) = http_account n c" "http_account n (finish_end w c) = http_account n c"
  "http_account n (abandonOutstandingWork c) = http_account n c" "http_account n (c\<lparr>finish_timed_out := True\<rparr>) = http_account n c"
  by (simp_all add: account_defs finish_begin_def finish_end_def Let_def abandonOutstandingWork_def)

lemma http_ok_simps:
  "http_ok s \<longleftrightarrow> finite (dom (hs_streams s)) \<and> dom (hs_streams s) \<subseteq> {..<hs_next s} \<and>
     http_account (card (dom (hs_streams s))) (hs_client s)"
  by (auto simp: http_ok_def)

lemma http_step_ok:
  assumes "http_step lib atoi s s'" "http_ok s"
  shows "http_ok s'"
proof -
  let ?n = "card (dom (hs_streams s))"
  have ok: "finite (dom (hs_streams s))" "dom (hs_streams s) \<subseteq> {..<hs_next s}" "http_account ?n (hs_client s)"
    using assms(2) by (simp_all add: http_ok_simps)
  have live: "?n = Suc (card (dom (hs_streams s) - {i}))" if "hs_streams s i = Some d" for i d
    by (rule card_Suc_Diff1 [OF ok(1), symmetric]) (use that in blast)
  show ?thesis using assms(1)
  proof cases
    case (http_request pool generated ts c d)
    have "hs_next s \<notin> dom (hs_streams s)" using ok(2) by blast
    then have "card (dom ((hs_streams s)(hs_next s \<mapsto> d))) = Suc ?n" using ok(1) by simp
    then show ?thesis using http_request(1) ok account_start [OF http_request(2) ok(3)]
      by (simp add: http_ok_simps lessThan_Suc subset_insertI2)
  next
    case (http_ready i d ts body d' c)
    then show ?thesis using ok account_ready [OF http_ready(3)] card_update [OF http_ready(2)] by (simp add: http_ok_simps)
  next
    case (http_going_on i d ts ev d' c)
    have "http_account ?n c"
      using account_handle_event(1) [OF _ http_going_on(3)] ok(3) unfolding live [OF http_going_on(2)] by blast
    then show ?thesis using http_going_on(1) ok card_update [OF http_going_on(2)] by (simp add: http_ok_simps)
  next
    case (http_done i d ts ev cb c)
    have "http_account (card (dom (hs_streams s) - {i})) c"
      using account_handle_event(2) [OF _ http_done(3)] ok(3) unfolding live [OF http_done(2)] by blast
    then show ?thesis using http_done(1) ok by (simp add: http_ok_simps) blast
  qed (use ok in \<open>simp_all add: http_ok_simps\<close>)
qed

lemma http_initial_ok: "http_ok (http_initial opt)"
  by (simp add: http_ok_def http_initial_def create_http_client_def account_defs)

lemma http_reachable_ok: "http_reachable lib atoi opt s \<Longrightarrow> http_ok s"
  by (induction rule: http_reachable.induct) (auto intro: http_initial_ok http_step_ok)

text \<open>Nothing is counted as lost before \<open>finish\<close> has returned.\<close>

lemma lost_simps [simp]:
  "k \<noteq> http_inflight_lost \<Longrightarrow> counters (inc k c) http_inflight_lost = counters c http_inflight_lost"
  "counters (add_sample st v c) = counters c" "counters (exportLatency code v g c) = counters c"
  "counters (onRequestDone c) = counters c"
  by (simp_all add: inc_def add_sample_def exportLatency_def onRequestDone_def Let_def)

lemma lost_plugins [simp]:
  "counters (fold (\<lambda>handled c. if handled then c else inc user_defined_plugin_handle_headers_failure c) ps c) http_inflight_lost =
     counters c http_inflight_lost"
  "counters (handleResponseData ps c) http_inflight_lost = counters c http_inflight_lost"
proof -
  show "counters (fold (\<lambda>handled c. if handled then c else inc user_defined_plugin_handle_headers_failure c) ps c) http_inflight_lost =
     counters c http_inflight_lost"
    by (induction ps arbitrary: c) simp_all
  show "counters (handleResponseData ps c) http_inflight_lost = counters c http_inflight_lost"
    unfolding handleResponseData_def by (induction ps arbitrary: c) simp_all
qed

lemma lost_client [simp]:
  "counters (client_onComplete success status g ps c) http_inflight_lost = counters c http_inflight_lost"
  "counters (client_onStreamReset phase reason c) http_inflight_lost = counters c http_inflight_lost"
  "counters (client_onPoolFailure pf c) http_inflight_lost = counters c http_inflight_lost"
proof -
  have "status_counter status \<noteq> http_inflight_lost" using status_counter_cases [of status] by auto
  then have score: "counters (score_response status g c) http_inflight_lost = counters c http_inflight_lost" for c
    by (simp add: score_response_eq track_grpc Let_def)
  show "counters (client_onComplete success status g ps c) http_inflight_lost = counters c http_inflight_lost"
    by (simp add: client_onComplete_def Let_def score track_grpc)
  show "counters (client_onStreamReset phase reason c) http_inflight_lost = counters c http_inflight_lost"
    by (simp add: client_onStreamReset_def split: StreamResetPhase.split)
  show "counters (client_onPoolFailure pf c) http_inflight_lost = counters c http_inflight_lost"
    by (simp add: client_onPoolFailure_def split: PoolFailureReason.split)
qed

lemma lost_decoder: "counters (snd (decoder_onComplete ts ok ps d c)) http_inflight_lost = counters c http_inflight_lost"
  by (simp add: decoder_onComplete_def Let_def split: option.split)

lemma lost_event: "counters (snd (handle_event atoi ts ev d c)) http_inflight_lost = counters c http_inflight_lost"
  by (cases ev) (simp_all add: decodeHeaders_def decodeData_def decodeTrailers_def decoder_onResetStream_def
      decoder_onPoolFailure_def Let_def lost_decoder case_prod_beta split: option.split)

lemma lost_step:
  assumes "http_step lib atoi s s'" "\<not> hs_accounted s \<longrightarrow> counters (hs_client s) http_inflight_lost = 0"
  shows "\<not> hs_accounted s' \<longrightarrow> counters (hs_client s') http_inflight_lost = 0"
  using assms(1)
proof cases
  case (http_request pool generated ts c d)
  then show ?thesis using assms(2) by (auto simp: tryStartRequest_def split: if_splits option.splits)
next
  case (http_ready i d ts body d' c)
  then show ?thesis using assms(2) by (auto simp: decoder_onPoolReady_def Let_def split: if_splits sent_body.splits)
next
  case (http_going_on i d ts ev d' c)
  then show ?thesis using assms(2) lost_event [of atoi ts ev d "hs_client s"] by simp
next
  case (http_done i d ts ev cb c)
  then show ?thesis using assms(2) lost_event [of atoi ts ev d "hs_client s"] by simp
qed (use assms(2) in \<open>simp_all add: abandonOutstandingWork_def finish_begin_def\<close>)

lemma http_reachable_lost:
  "http_reachable lib atoi opt s \<Longrightarrow> \<not> hs_accounted s \<longrightarrow> counters (hs_client s) http_inflight_lost = 0"
proof (induction rule: http_reachable.induct)
  case (http_next s s') then show ?case using lost_step by blast
qed (simp add: http_initial_def create_http_client_def)


text \<open>
  C37: in closed-loop mode a request goes out exactly when there is a pool, the generator has one, and the
  requests outstanding plus all pool failures so far are below the in-flight limit. A request that failed in
  the pool therefore never gives its place back: after as many pool failures as the limit, nothing is sent
  any more.
\<close>

theorem http_closed_loop_capacity:
  assumes "http_reachable lib atoi opt s" "provide_resource_backpressure (hs_client s)"
  shows "(\<exists>c d. tryStartRequest lib pool generated ts (hs_client s) = (c, Some d)) \<longleftrightarrow>
           pool \<and> generated \<noteq> None \<and>
           requests_outstanding (hs_client s) + pool_failures (hs_client s) < max_in_flight (hs_client s)"
proof -
  have "http_account (card (dom (hs_streams s))) (hs_client s)" using http_reachable_ok [OF assms(1)] by (simp add: http_ok_def)
  then have "requests_initiated (hs_client s) - requests_completed (hs_client s) =
      requests_outstanding (hs_client s) + pool_failures (hs_client s)"
    by (simp add: http_account_def)
  then show ?thesis using assms(2) by (auto simp: tryStartRequest_def split: option.splits)
qed

text \<open>
  C38: a generated body larger than the static upload content is read past its end: a request whose
  \<open>content-length\<close> header announces between 4 MiB + 1 and \<open>2^32 - 1\<close> bytes and that has no body of its own
  makes the decoder hand out a fragment that is longer than the content.
\<close>

theorem oversized_upload_out_of_bounds:
  assumes "content_length lib rq = n" "rq_body rq = []" "staticUploadContent_size < n" "n < 2 ^ 32"
    and "tryStartRequest lib pool (Some rq) ts c = (c', Some d)"
  shows "decoder_onPoolReady ts' d c' = Inl (Panic ''read past the upload content'')"
proof -
  have "unat (word_of_nat n :: 32 word) = n" using assms(4) by (simp add: unat_of_nat)
  then show ?thesis using assms
    by (auto simp: tryStartRequest_def decoder_onPoolReady_def mk_StreamDecoder_def Let_def staticUploadContent_size_def
        split: if_splits)
qed

subsection \<open>A client with one request\<close>

definition sample_request :: http_request where
  "sample_request = \<lparr>rq_content_length = Some ''5000000'', rq_body = []\<rparr>"

lemma sample_starts:
  "tryStartRequest sample_lib True (Some sample_request) ts (hs_client (http_initial OptionsImpl_members)) =
     ((create_http_client OptionsImpl_members)\<lparr>requests_initiated := 1, requests_outstanding := 1\<rparr>,
      Some (mk_StreamDecoder ts False [] (content_length sample_lib sample_request)))"
  by (simp add: tryStartRequest_def http_initial_def create_http_client_def OptionsImpl_members_def max_in_flight_def
      OptionsImpl_protocol_def sample_request_def)

definition sample_http_state :: http_state where
  "sample_http_state =
     \<lparr>hs_client = (create_http_client OptionsImpl_members)\<lparr>requests_initiated := 1, requests_outstanding := 1\<rparr>,
      hs_streams = [0 \<mapsto> mk_StreamDecoder \<lparr>monotonicTime = 0, systemTime = 0\<rparr> False [] (content_length sample_lib sample_request)],
      hs_next = 1, hs_accounted = False\<rparr>"

lemma sample_http_reachable: "http_reachable sample_lib (\<lambda>_. None) OptionsImpl_members sample_http_state"
  using http_next [OF http_start http_request [OF sample_starts, where ts = "\<lparr>monotonicTime = 0, systemTime = 0\<rparr>"],
      of "\<lambda>_. None"]
  by (simp add: sample_http_state_def http_initial_def)


theorem http_closed_loop_capacity_witness:
  "\<exists>c d. tryStartRequest sample_lib True (Some sample_request) \<lparr>monotonicTime = 0, systemTime = 0\<rparr>
     (hs_client (http_initial OptionsImpl_members)) = (c, Some d)"
proof -
  have "provide_resource_backpressure (hs_client (http_initial OptionsImpl_members))"
    by (simp add: http_initial_def create_http_client_def OptionsImpl_members_def)
  from http_closed_loop_capacity [OF http_start [of sample_lib "\<lambda>_. None"] this, of True "Some sample_request"
      "\<lparr>monotonicTime = 0, systemTime = 0\<rparr>"]
  show ?thesis
    by (simp add: http_initial_def create_http_client_def OptionsImpl_members_def pool_failures_def max_in_flight_def
        OptionsImpl_protocol_def)
qed

theorem oversized_upload_out_of_bounds_witness:
  "decoder_onPoolReady \<lparr>monotonicTime = 9, systemTime = 0\<rparr>
     (mk_StreamDecoder \<lparr>monotonicTime = 0, systemTime = 0\<rparr> False [] (content_length sample_lib sample_request))
     ((create_http_client OptionsImpl_members)\<lparr>requests_initiated := 1, requests_outstanding := 1\<rparr>) =
   Inl (Panic ''read past the upload content'')"
proof -
  have "content_length sample_lib sample_request = 5000000"
    by (simp add: content_length_def sample_request_def sample_lib_def read_number_def digit_value_def)
  from oversized_upload_out_of_bounds [OF this _ _ _ sample_starts] show ?thesis
    by (simp add: sample_request_def staticUploadContent_size_def)
qed

end
