(* ===== verification/TcpClient.thy ===== *)
theory TcpClient
  imports Statistics Options
begin

text \<open>
  The raw TCP benchmark client (\<^verbatim>\<open>client/tcp_benchmark_client_impl.cc\<close>): a pool of connection slots
  that reconnect with a backoff and rotate, messages matched to their echoes, and the drain at the end.
  Links are objects that slots point to: the model keeps them in an append-only list, and a pointer is an
  index into it. Time is in nanoseconds; a timer is the time it is due, or \<open>None\<close> when it is disabled.
\<close>

subsection \<open>State\<close>

datatype tcp_counter =
    tcp_connections_opened | tcp_connect_failures | tcp_reconnects | tcp_connections_rotated | tcp_messages_sent
  | tcp_messages_received | tcp_deferred | tcp_unavailable | tcp_connection_closed | tcp_echo_mismatch
  | tcp_inflight_lost | tcp_drain_incomplete | tcp_write_blocked

datatype TcpState = Connecting | Open | Retiring | Closed

datatype Role = RoleActive | RoleStandby | RoleRetiring | RoleNone

datatype WaitingFor = WaitNothing | WaitOpens | WaitEchoes

datatype CloseType = NoFlush | FlushWrite

text \<open>A message in flight carries the number of the request whose completion callback it holds.\<close>

record InflightMessage =
  sent_at :: nanos
  callback_of :: nat

record Link =
  lk_slot :: nat
  lk_state :: TcpState
  lk_initial :: bool
  lk_initial_pending :: bool
  lk_inflight :: "InflightMessage list"
  lk_received :: string
  lk_write_blocked :: bool
  lk_sent :: nat
  lk_connect_started :: nanos
  lk_timer :: "nanos option"
  lk_deleted :: bool

record Slot =
  sl_active :: "nat option"
  sl_standby :: "nat option"
  sl_retiring :: "nat list"
  sl_retry_timer :: "nanos option"
  sl_backoff :: nanos
  sl_last_retry :: "nanos option"

text \<open>
  The members of the client, the clock of its time source, and what it has handed to the dispatcher: the
  posted callbacks that have not run, those that have, as \<open>(request, complete, success)\<close>, and whether the
  running loop was asked to exit. \<open>tc_started\<close> numbers the requests, \<open>tc_prepared\<close> the slots \<open>prepare\<close> has
  opened.
\<close>

record TcpBenchmarkClient =
  tc_counters :: "tcp_counter \<Rightarrow> nat"
  message_latency :: "sample list"
  connect_latency :: "sample list"
  connection_count :: nat
  max_inflight_per_connection :: nat
  expect_echo :: bool
  drain_duration :: nanos
  tc_timeout :: nanos
  max_messages_per_connection :: nat
  tc_slots :: "Slot list"
  tc_links :: "Link list"
  tc_message :: string
  next_slot :: nat
  pending_opens :: nat
  tc_measure_latencies :: bool
  waiting_for :: WaitingFor
  drain_timer :: "nanos option"
  tc_finished :: bool
  tc_now :: nanos
  tc_started :: nat
  tc_prepared :: nat
  tc_posted :: "(nat \<times> bool) list"
  tc_callbacks :: "(nat \<times> bool \<times> bool) list"
  tc_exit :: bool

definition InitialBackoff :: nanos where "InitialBackoff = 10 * one_millisecond"
definition MaxBackoff :: nanos where "MaxBackoff = 1000 * one_millisecond"
definition BackoffStartsOverAfter :: nanos where "BackoffStartsOverAfter = 2 * MaxBackoff"

definition mk_TcpBenchmarkClient ::
    "nat \<Rightarrow> nat \<Rightarrow> bool \<Rightarrow> nanos \<Rightarrow> nanos \<Rightarrow> nat \<Rightarrow> nanos \<Rightarrow> TcpBenchmarkClient result" where
  "mk_TcpBenchmarkClient connections inflight_limit echo drain time_out max_messages now =
     (if connections = 0 then Inl (Panic ''at least one connection is required'')
      else if inflight_limit = 0 then Inl (Panic ''max_inflight_per_connection must be positive'')
      else Inr
        \<lparr>tc_counters = (\<lambda>_. 0), message_latency = [], connect_latency = [], connection_count = connections,
         max_inflight_per_connection = inflight_limit, expect_echo = echo, drain_duration = drain, tc_timeout = time_out,
         max_messages_per_connection = max_messages,
         tc_slots = replicate connections
           \<lparr>sl_active = None, sl_standby = None, sl_retiring = [], sl_retry_timer = None, sl_backoff = InitialBackoff,
            sl_last_retry = None\<rparr>,
         tc_links = [], tc_message = [], next_slot = 0, pending_opens = 0, tc_measure_latencies = False,
         waiting_for = WaitNothing, drain_timer = None, tc_finished = False, tc_now = now, tc_started = 0, tc_prepared = 0,
         tc_posted = [], tc_callbacks = [], tc_exit = False\<rparr>)"

text \<open>What \<^verbatim>\<open>BenchmarkClientFactoryImpl::create\<close> passes on from the options.\<close>

definition create_tcp_client :: "OptionsImpl \<Rightarrow> nanos \<Rightarrow> TcpBenchmarkClient result" where
  "create_tcp_client opt now =
     mk_TcpBenchmarkClient (o_tcp_connections opt) (o_tcp_max_inflight opt) (o_tcp_expect_echo opt)
       (o_stream_drain_duration opt) (int (o_timeout opt) * one_second) (o_tcp_max_messages opt) now"

definition tcp_inc :: "tcp_counter \<Rightarrow> TcpBenchmarkClient \<Rightarrow> TcpBenchmarkClient" where
  "tcp_inc k c = c\<lparr>tc_counters := (tc_counters c)(k := tc_counters c k + 1)\<rparr>"

definition upd_link :: "nat \<Rightarrow> (Link \<Rightarrow> Link) \<Rightarrow> TcpBenchmarkClient \<Rightarrow> TcpBenchmarkClient" where
  "upd_link i f c = c\<lparr>tc_links := (tc_links c)[i := f (tc_links c ! i)]\<rparr>"

definition upd_slot :: "nat \<Rightarrow> (Slot \<Rightarrow> Slot) \<Rightarrow> TcpBenchmarkClient \<Rightarrow> TcpBenchmarkClient" where
  "upd_slot s f c = c\<lparr>tc_slots := (tc_slots c)[s := f (tc_slots c ! s)]\<rparr>"

abbreviation link_of :: "TcpBenchmarkClient \<Rightarrow> nat \<Rightarrow> Link" where "link_of c i \<equiv> tc_links c ! i"
abbreviation slot_of :: "TcpBenchmarkClient \<Rightarrow> nat \<Rightarrow> Slot" where "slot_of c s \<equiv> tc_slots c ! s"

subsection \<open>Operations\<close>

definition rotationDue :: "TcpBenchmarkClient \<Rightarrow> Link \<Rightarrow> bool" where
  "rotationDue c l \<longleftrightarrow> max_messages_per_connection c > 0 \<and> lk_sent l \<ge> max_messages_per_connection c"

definition slot_links :: "Slot \<Rightarrow> nat list" where
  "slot_links sl = (case sl_active sl of Some i \<Rightarrow> [i] | None \<Rightarrow> []) @
     (case sl_standby sl of Some i \<Rightarrow> [i] | None \<Rightarrow> []) @ sl_retiring sl"

definition links :: "TcpBenchmarkClient \<Rightarrow> nat list" where
  "links c = concat (map slot_links (tc_slots c))"

definition anyInflight :: "TcpBenchmarkClient \<Rightarrow> bool" where
  "anyInflight c \<longleftrightarrow> (\<exists>i \<in> set (links c). lk_inflight (link_of c i) \<noteq> [])"

definition maybeExitWaitLoop :: "TcpBenchmarkClient \<Rightarrow> TcpBenchmarkClient" where
  "maybeExitWaitLoop c =
     (case waiting_for c of
        WaitOpens \<Rightarrow> if pending_opens c = 0 then c\<lparr>tc_exit := True\<rparr> else c
      | WaitEchoes \<Rightarrow> if \<not> anyInflight c then c\<lparr>tc_exit := True\<rparr> else c
      | WaitNothing \<Rightarrow> c)"

definition openConnections :: "TcpBenchmarkClient \<Rightarrow> nat" where
  "openConnections c =
     length (filter (\<lambda>sl. case sl_active sl of Some i \<Rightarrow> lk_state (link_of c i) = Open | None \<Rightarrow> False) (tc_slots c))"

definition initialAttemptDone :: "nat \<Rightarrow> TcpBenchmarkClient \<Rightarrow> TcpBenchmarkClient" where
  "initialAttemptDone i c =
     (if lk_initial_pending (link_of c i)
      then (upd_link i (\<lambda>l. l\<lparr>lk_initial_pending := False\<rparr>) c)\<lparr>pending_opens := pending_opens c - 1\<rparr> else c)"

definition scheduleRetry :: "nat \<Rightarrow> TcpBenchmarkClient \<Rightarrow> TcpBenchmarkClient" where
  "scheduleRetry s c =
     (if tc_finished c \<or> sl_retry_timer (slot_of c s) \<noteq> None then c
      else upd_slot s
        (\<lambda>sl. let backoff = (case sl_last_retry sl of
                               Some t \<Rightarrow> if tc_now c - t \<ge> BackoffStartsOverAfter then InitialBackoff else sl_backoff sl
                             | None \<Rightarrow> sl_backoff sl)
              in sl\<lparr>sl_retry_timer := Some (tc_now c + backoff), sl_backoff := min (backoff * 2) MaxBackoff\<rparr>) c)"

text \<open>
  \<open>host\<close> says whether the cluster has a host to connect to. Connecting is the last thing \<open>open\<close> does, so an
  event that it raises at once is the next step of the client.
\<close>

definition open_link :: "bool \<Rightarrow> nat \<Rightarrow> Role \<Rightarrow> bool \<Rightarrow> TcpBenchmarkClient \<Rightarrow> TcpBenchmarkClient" where
  "open_link host s role initial c =
     (if \<not> host then scheduleRetry s (tcp_inc tcp_connect_failures c)
      else
        let i = length (tc_links c);
            c = c\<lparr>tc_links := tc_links c @
                   [\<lparr>lk_slot = s, lk_state = Connecting, lk_initial = initial, lk_initial_pending = initial,
                     lk_inflight = [], lk_received = [], lk_write_blocked = False, lk_sent = 0,
                     lk_connect_started = tc_now c, lk_timer = Some (tc_now c + tc_timeout c), lk_deleted = False\<rparr>],
                  pending_opens := (if initial then pending_opens c + 1 else pending_opens c)\<rparr>
        in upd_slot s (\<lambda>sl. if role = RoleStandby then sl\<lparr>sl_standby := Some i\<rparr> else sl\<lparr>sl_active := Some i\<rparr>) c)"

definition connectNext :: "bool \<Rightarrow> nat \<Rightarrow> TcpBenchmarkClient \<Rightarrow> TcpBenchmarkClient" where
  "connectNext host s c =
     (if tc_finished c then c
      else case sl_active (slot_of c s) of
             None \<Rightarrow> if sl_standby (slot_of c s) = None then open_link host s RoleActive False c else c
           | Some a \<Rightarrow>
               if sl_standby (slot_of c s) = None \<and> lk_state (link_of c a) = Open \<and> rotationDue c (link_of c a)
               then open_link host s RoleStandby False c else c)"

text \<open>The retry timer of a slot fires.\<close>

definition on_retry :: "bool \<Rightarrow> nat \<Rightarrow> TcpBenchmarkClient \<Rightarrow> TcpBenchmarkClient" where
  "on_retry host s c =
     connectNext host s (upd_slot s (\<lambda>sl. sl\<lparr>sl_retry_timer := None, sl_last_retry := Some (tc_now c)\<rparr>) c)"

text \<open>The loop of \<open>completeInflight\<close> over the messages of one link.\<close>

fun complete_messages :: "bool \<Rightarrow> InflightMessage list \<Rightarrow> TcpBenchmarkClient \<Rightarrow> TcpBenchmarkClient" where
  "complete_messages success [] c = c"
| "complete_messages success (m # ms) c =
     (let c = (if \<not> success then tcp_inc tcp_inflight_lost c else c)
      in complete_messages success ms (c\<lparr>tc_callbacks := tc_callbacks c @ [(callback_of m, True, success)]\<rparr>))"

definition completeInflight :: "nat \<Rightarrow> bool \<Rightarrow> TcpBenchmarkClient \<Rightarrow> TcpBenchmarkClient" where
  "completeInflight i success c =
     complete_messages success (lk_inflight (link_of c i)) (upd_link i (\<lambda>l. l\<lparr>lk_inflight := []\<rparr>) c)"

definition release :: "nat \<Rightarrow> TcpBenchmarkClient \<Rightarrow> Role \<times> TcpBenchmarkClient" where
  "release i c =
     (let s = lk_slot (link_of c i); sl = slot_of c s
      in if sl_active sl = Some i then (RoleActive, upd_slot s (\<lambda>sl. sl\<lparr>sl_active := None\<rparr>) c)
         else if sl_standby sl = Some i then (RoleStandby, upd_slot s (\<lambda>sl. sl\<lparr>sl_standby := None\<rparr>) c)
         else if i \<in> set (sl_retiring sl)
           then (RoleRetiring, upd_slot s (\<lambda>sl. sl\<lparr>sl_retiring := remove1 i (sl_retiring sl)\<rparr>) c)
         else (RoleNone, c))"

text \<open>\<open>RemoteClose\<close> and \<open>LocalClose\<close>.\<close>

definition on_close_event :: "nat \<Rightarrow> TcpBenchmarkClient \<Rightarrow> TcpBenchmarkClient" where
  "on_close_event i c =
     (let previous = lk_state (link_of c i);
          c = initialAttemptDone i (upd_link i (\<lambda>l. l\<lparr>lk_state := Closed, lk_timer := None\<rparr>) c);
          c = (if previous = Connecting then tcp_inc tcp_connect_failures c
               else if previous = Open \<or> previous = Retiring then tcp_inc tcp_connection_closed c else c);
          (role, c) = release i (completeInflight i False c);
          c = (if previous \<noteq> Closed \<and> (role = RoleActive \<or> role = RoleStandby)
               then scheduleRetry (lk_slot (link_of c i)) c else c)
      in maybeExitWaitLoop c)"

text \<open>
  Closing without a flush raises the close event before it returns; with a flush the event comes when the
  flush is done.
\<close>

definition closeLink :: "nat \<Rightarrow> CloseType \<Rightarrow> TcpBenchmarkClient \<Rightarrow> TcpBenchmarkClient" where
  "closeLink i type c =
     (if lk_state (link_of c i) = Closed then c
      else let c = completeInflight i False
                     (initialAttemptDone i (upd_link i (\<lambda>l. l\<lparr>lk_state := Closed, lk_timer := None\<rparr>) c))
           in if type = NoFlush then on_close_event i c else c)"

definition promote :: "nat \<Rightarrow> TcpBenchmarkClient \<Rightarrow> TcpBenchmarkClient" where
  "promote s c =
     (let retired = sl_active (slot_of c s);
          c = upd_slot s (\<lambda>sl. sl\<lparr>sl_active := sl_standby sl, sl_standby := None, sl_retry_timer := None\<rparr>) c
      in case retired of
           None \<Rightarrow> tcp_inc tcp_reconnects c
         | Some r \<Rightarrow>
             let c = upd_slot s (\<lambda>sl. sl\<lparr>sl_retiring := sl_retiring sl @ [r]\<rparr>) (tcp_inc tcp_connections_rotated c)
             in if lk_state (link_of c r) \<noteq> Open then c
                else let c = upd_link r (\<lambda>l. l\<lparr>lk_state := Retiring\<rparr>) c
                     in if lk_inflight (link_of c r) = [] then closeLink r FlushWrite c
                        else upd_link r (\<lambda>l. l\<lparr>lk_timer := Some (tc_now c + tc_timeout c)\<rparr>) c)"

definition on_connected :: "nat \<Rightarrow> TcpBenchmarkClient \<Rightarrow> TcpBenchmarkClient" where
  "on_connected i c =
     (if lk_state (link_of c i) \<noteq> Connecting then c
      else
        let c = tcp_inc tcp_connections_opened (upd_link i (\<lambda>l. l\<lparr>lk_state := Open, lk_timer := None\<rparr>) c);
            c = c\<lparr>connect_latency := connect_latency c @ [word_of_int (tc_now c - lk_connect_started (link_of c i))]\<rparr>;
            c = initialAttemptDone i c;
            s = lk_slot (link_of c i);
            c = (if sl_standby (slot_of c s) = Some i then promote s c
                 else if \<not> lk_initial (link_of c i) then tcp_inc tcp_reconnects c else c)
        in maybeExitWaitLoop c)"

definition on_link_timer :: "nat \<Rightarrow> TcpBenchmarkClient \<Rightarrow> TcpBenchmarkClient" where
  "on_link_timer i c =
     (case lk_state (link_of c i) of
        Connecting \<Rightarrow>
          maybeExitWaitLoop (scheduleRetry (lk_slot (link_of c i)) (closeLink i NoFlush (tcp_inc tcp_connect_failures c)))
      | Retiring \<Rightarrow> closeLink i NoFlush c
      | _ \<Rightarrow> c)"

definition send_message :: "nat \<Rightarrow> nat \<Rightarrow> TcpBenchmarkClient \<Rightarrow> TcpBenchmarkClient" where
  "send_message a request c =
     (let c = (if expect_echo c
               then upd_link a (\<lambda>l. l\<lparr>lk_inflight := lk_inflight l @ [\<lparr>sent_at = tc_now c, callback_of = request\<rparr>]\<rparr>) c
               else c);
          c = tcp_inc tcp_messages_sent (upd_link a (\<lambda>l. l\<lparr>lk_sent := lk_sent l + 1\<rparr>) c)
      in if \<not> expect_echo c then c\<lparr>tc_posted := tc_posted c @ [(request, True)]\<rparr> else c)"

definition tcp_tryStartRequest :: "bool \<Rightarrow> TcpBenchmarkClient \<Rightarrow> TcpBenchmarkClient" where
  "tcp_tryStartRequest host c =
     (let s = next_slot c; request = tc_started c;
          c = c\<lparr>next_slot := (next_slot c + 1) mod connection_count c, tc_started := tc_started c + 1\<rparr>;
          drop_it = (\<lambda>k. (tcp_inc k c)\<lparr>tc_posted := tc_posted c @ [(request, False)]\<rparr>)
      in case sl_active (slot_of c s) of
           None \<Rightarrow> drop_it tcp_unavailable
         | Some a \<Rightarrow>
             if lk_state (link_of c a) \<noteq> Open then drop_it tcp_unavailable
             else if lk_write_blocked (link_of c a) \<or> length (lk_inflight (link_of c a)) \<ge> max_inflight_per_connection c
             then drop_it tcp_deferred
             else
               let c = send_message a request c
               in if rotationDue c (link_of c a) \<and> sl_retry_timer (slot_of c s) = None then connectNext host s c else c)"

definition onEchoMismatch :: "nat \<Rightarrow> TcpBenchmarkClient \<Rightarrow> TcpBenchmarkClient" where
  "onEchoMismatch i c =
     (let c = tcp_inc tcp_echo_mismatch c; s = lk_slot (link_of c i);
          active = (sl_active (slot_of c s) = Some i);
          c = closeLink i NoFlush c
      in maybeExitWaitLoop (if active then scheduleRetry s c else c))"

definition onEcho :: "nat \<Rightarrow> string \<Rightarrow> TcpBenchmarkClient \<Rightarrow> TcpBenchmarkClient" where
  "onEcho i bytes c =
     (case lk_inflight (link_of c i) of
        [] \<Rightarrow> onEchoMismatch i c
      | m # ms \<Rightarrow>
          if bytes \<noteq> tc_message c then onEchoMismatch i c
          else
            let c = tcp_inc tcp_messages_received (upd_link i (\<lambda>l. l\<lparr>lk_inflight := ms\<rparr>) c);
                c = (if tc_measure_latencies c
                     then c\<lparr>message_latency := message_latency c @ [word_of_int (tc_now c - sent_at m)]\<rparr> else c);
                c = c\<lparr>tc_callbacks := tc_callbacks c @ [(callback_of m, True, True)]\<rparr>;
                c = (if lk_state (link_of c i) = Retiring \<and> ms = [] then closeLink i FlushWrite c else c)
            in maybeExitWaitLoop c)"

definition tcp_matching :: "nat \<Rightarrow> TcpBenchmarkClient \<Rightarrow> bool" where
  "tcp_matching i c \<longleftrightarrow> i < length (tc_links c) \<and> (lk_state (link_of c i) = Open \<or> lk_state (link_of c i) = Retiring)"

subsection \<open>What the operations do to the links\<close>

lemma links_basic [simp]:
  "tc_links (tcp_inc k c) = tc_links c" "tc_links (upd_slot s g c) = tc_links c"
  "tc_links (upd_link i f c) = (tc_links c)[i := f (link_of c i)]"
  "tc_links (maybeExitWaitLoop c) = tc_links c" "tc_links (scheduleRetry s c) = tc_links c"
  "tc_links (snd (release i c)) = tc_links c"
  by (simp_all add: tcp_inc_def upd_slot_def upd_link_def maybeExitWaitLoop_def scheduleRetry_def release_def Let_def
      split: WaitingFor.split)

lemma links_complete [simp]:
  "tc_links (complete_messages success ms c) = tc_links c"
  "tc_links (completeInflight i success c) = (tc_links c)[i := (link_of c i)\<lparr>lk_inflight := []\<rparr>]"
proof -
  show *: "tc_links (complete_messages success ms c) = tc_links c" for ms c
    by (induction success ms c rule: complete_messages.induct) (simp_all add: Let_def)
  show "tc_links (completeInflight i success c) = (tc_links c)[i := (link_of c i)\<lparr>lk_inflight := []\<rparr>]"
    by (simp add: completeInflight_def *)
qed

lemma links_initial [simp]:
  "tc_links (initialAttemptDone i c) = (tc_links c)[i := (link_of c i)\<lparr>lk_initial_pending := False\<rparr>]"
proof (cases "lk_initial_pending (link_of c i)")
  case False
  then have "(link_of c i)\<lparr>lk_initial_pending := False\<rparr> = link_of c i" by simp
  then have "(tc_links c)[i := (link_of c i)\<lparr>lk_initial_pending := False\<rparr>] = tc_links c"
    by (simp only: list_update_id)
  then show ?thesis using False by (simp only: initialAttemptDone_def if_False)
qed (simp add: initialAttemptDone_def)

definition closed_link :: "Link \<Rightarrow> Link" where
  "closed_link l = l\<lparr>lk_state := Closed, lk_timer := None, lk_initial_pending := False, lk_inflight := []\<rparr>"

lemma list_update_overwrite_nth [simp]: "xs[i := f (xs[i := x] ! i)] = xs[i := f x]"
  by (cases "i < length xs") (simp_all add: not_less list_update_beyond)

lemma links_closing [simp]:
  "tc_links (on_close_event i c) = (tc_links c)[i := closed_link (link_of c i)]"
proof (cases "i < length (tc_links c)")
  case True
  then show ?thesis
    by (simp add: on_close_event_def Let_def case_prod_beta closed_link_def)
next
  case False
  then show ?thesis by (simp add: on_close_event_def Let_def case_prod_beta not_less list_update_beyond)
qed

lemma links_closeLink [simp]:
  "tc_links (closeLink i type c) =
     (if lk_state (link_of c i) = Closed then tc_links c else (tc_links c)[i := closed_link (link_of c i)])"
  by (cases "i < length (tc_links c)") (simp_all add: closeLink_def Let_def closed_link_def not_less list_update_beyond)

lemma links_mismatch [simp]: "tc_links (onEchoMismatch i c) = tc_links (closeLink i NoFlush c)"
  by (simp add: onEchoMismatch_def Let_def)

definition link_measure :: "nat \<Rightarrow> TcpBenchmarkClient \<Rightarrow> nat" where
  "link_measure i c = length (lk_inflight (link_of c i)) + (if tcp_matching i c then 1 else 0)"

lemma onEcho_decreases:
  assumes "tcp_matching i c"
  shows "link_measure i (onEcho i bytes (upd_link i (\<lambda>l. l\<lparr>lk_received := r\<rparr>) c)) < link_measure i c"
  using assms
  by (cases "lk_inflight (link_of c i)")
    (auto simp: onEcho_def link_measure_def tcp_matching_def closed_link_def Let_def)

text \<open>
  The loop of \<open>onData\<close>: it ends because every turn takes one message off the link or closes it.
\<close>

function echo_loop :: "nat \<Rightarrow> TcpBenchmarkClient \<Rightarrow> TcpBenchmarkClient" where
  "echo_loop i c =
     (let n = length (tc_message c); received = lk_received (link_of c i)
      in if length received \<ge> n \<and> tcp_matching i c
         then echo_loop i (onEcho i (take n received) (upd_link i (\<lambda>l. l\<lparr>lk_received := drop n received\<rparr>) c))
         else c)"
  by pat_completeness auto
termination
  by (relation "measure (\<lambda>(i, c). link_measure i c)") (simp_all add: onEcho_decreases)

declare echo_loop.simps [simp del]

definition onData :: "nat \<Rightarrow> string \<Rightarrow> TcpBenchmarkClient \<Rightarrow> TcpBenchmarkClient" where
  "onData i data c =
     (if \<not> expect_echo c \<or> (lk_state (link_of c i) \<noteq> Open \<and> lk_state (link_of c i) \<noteq> Retiring) then c
      else echo_loop i (upd_link i (\<lambda>l. l\<lparr>lk_received := lk_received l @ data\<rparr>) c))"

definition onWriteBlocked :: "nat \<Rightarrow> bool \<Rightarrow> TcpBenchmarkClient \<Rightarrow> TcpBenchmarkClient" where
  "onWriteBlocked i blocked c =
     upd_link i (\<lambda>l. l\<lparr>lk_write_blocked := blocked\<rparr>)
       (if blocked \<and> \<not> lk_write_blocked (link_of c i) then tcp_inc tcp_write_blocked c else c)"

text \<open>
  \<open>prepare\<close>: the message, one connection per slot, and a wait for their first attempts.
\<close>

definition prepare_begin :: "string option \<Rightarrow> TcpBenchmarkClient \<Rightarrow> TcpBenchmarkClient result" where
  "prepare_begin generated c =
     (case generated of
        None \<Rightarrow> Inl (Panic ''the request source did not yield a request'')
      | Some body \<Rightarrow>
          if expect_echo c \<and> body = [] then Inl (Panic ''an echoed TCP message cannot be empty'')
          else Inr (c\<lparr>tc_message := body\<rparr>))"

definition prepare_open :: "bool \<Rightarrow> TcpBenchmarkClient \<Rightarrow> TcpBenchmarkClient" where
  "prepare_open host c =
     (open_link host (tc_prepared c) RoleActive True c)\<lparr>tc_prepared := tc_prepared c + 1\<rparr>"

definition prepare_wait :: "TcpBenchmarkClient \<Rightarrow> TcpBenchmarkClient" where
  "prepare_wait c = (if pending_opens c > 0 then c\<lparr>waiting_for := WaitOpens, tc_exit := False\<rparr> else c)"

definition ceil_ms :: "nanos \<Rightarrow> nanos" where
  "ceil_ms d = - (- d div one_millisecond) * one_millisecond"

text \<open>
  \<open>finish\<close>: up to the wait for outstanding echoes, and after it.
\<close>

fun close_connecting :: "nat list \<Rightarrow> TcpBenchmarkClient \<Rightarrow> TcpBenchmarkClient" where
  "close_connecting [] c = c"
| "close_connecting (i # is) c =
     close_connecting is (if lk_state (link_of c i) = Connecting then closeLink i NoFlush c else c)"

fun close_drained :: "nat list \<Rightarrow> TcpBenchmarkClient \<Rightarrow> TcpBenchmarkClient" where
  "close_drained [] c = c"
| "close_drained (i # is) c =
     close_drained is
       (closeLink i FlushWrite (if lk_inflight (link_of c i) \<noteq> [] then tcp_inc tcp_drain_incomplete c else c))"

definition finish_rest :: "TcpBenchmarkClient \<Rightarrow> TcpBenchmarkClient" where
  "finish_rest c = close_drained (links c) (c\<lparr>drain_timer := None, waiting_for := WaitNothing\<rparr>)"

definition tcp_finish :: "TcpBenchmarkClient \<Rightarrow> TcpBenchmarkClient" where
  "tcp_finish c =
     (if tc_finished c then c
      else
        let c = c\<lparr>tc_finished := True, tc_slots := map (\<lambda>sl. sl\<lparr>sl_retry_timer := None\<rparr>) (tc_slots c)\<rparr>;
            c = close_connecting (links c) c
        in if anyInflight c
           then c\<lparr>waiting_for := WaitEchoes, tc_exit := False, drain_timer := Some (tc_now c + ceil_ms (drain_duration c))\<rparr>
           else finish_rest c)"

text \<open>\<open>terminate\<close> after its call of \<open>finish\<close>: a flush still under way is cut short.\<close>

fun close_all :: "nat list \<Rightarrow> TcpBenchmarkClient \<Rightarrow> TcpBenchmarkClient" where
  "close_all [] c = c"
| "close_all (i # is) c = close_all is (on_close_event i c)"

definition terminate_rest :: "TcpBenchmarkClient \<Rightarrow> TcpBenchmarkClient" where
  "terminate_rest c = close_all (links c) (c\<lparr>tc_measure_latencies := False\<rparr>)"

subsection \<open>The client on its dispatcher\<close>

text \<open>
  What can happen next: the clock advances, \<open>prepare\<close> goes on, a request is due, a connection raises an event,
  a timer that is due fires, a posted callback runs, \<open>finish\<close> starts or its wait is over, or a link that
  was let go of is deleted. Events of a deleted link reach nobody.
\<close>

inductive tcp_step :: "TcpBenchmarkClient \<Rightarrow> TcpBenchmarkClient \<Rightarrow> bool" where
  tcp_tick: "tc_now c \<le> t \<Longrightarrow> tcp_step c (c\<lparr>tc_now := t\<rparr>)"
| tcp_prepare_begin: "tc_prepared c = 0 \<Longrightarrow> \<not> tc_finished c \<Longrightarrow> prepare_begin generated c = Inr c' \<Longrightarrow> tcp_step c c'"
| tcp_prepare_open: "tc_prepared c < connection_count c \<Longrightarrow> \<not> tc_finished c \<Longrightarrow> (expect_echo c \<longrightarrow> tc_message c \<noteq> []) \<Longrightarrow>
     tcp_step c (prepare_open host c)"
| tcp_prepare_wait: "tc_prepared c = connection_count c \<Longrightarrow> \<not> tc_finished c \<Longrightarrow> tcp_step c (prepare_wait c)"
| tcp_prepare_end: "waiting_for c = WaitOpens \<Longrightarrow> tc_exit c \<Longrightarrow> tcp_step c (c\<lparr>waiting_for := WaitNothing\<rparr>)"
| tcp_request: "tc_prepared c = connection_count c \<Longrightarrow> tcp_step c (tcp_tryStartRequest host c)"
| tcp_connected: "i < length (tc_links c) \<Longrightarrow> \<not> lk_deleted (link_of c i) \<Longrightarrow> tcp_step c (on_connected i c)"
| tcp_closed: "i < length (tc_links c) \<Longrightarrow> \<not> lk_deleted (link_of c i) \<Longrightarrow> tcp_step c (on_close_event i c)"
| tcp_data: "i < length (tc_links c) \<Longrightarrow> \<not> lk_deleted (link_of c i) \<Longrightarrow> tcp_step c (onData i data c)"
| tcp_blocked: "i < length (tc_links c) \<Longrightarrow> \<not> lk_deleted (link_of c i) \<Longrightarrow> tcp_step c (onWriteBlocked i blocked c)"
| tcp_link_timer: "i < length (tc_links c) \<Longrightarrow> lk_timer (link_of c i) = Some due \<Longrightarrow> due \<le> tc_now c \<Longrightarrow>
     tcp_step c (on_link_timer i (upd_link i (\<lambda>l. l\<lparr>lk_timer := None\<rparr>) c))"
| tcp_retry: "s < connection_count c \<Longrightarrow> sl_retry_timer (slot_of c s) = Some due \<Longrightarrow> due \<le> tc_now c \<Longrightarrow>
     tcp_step c (on_retry host s c)"
| tcp_posted: "tc_posted c = (request, success) # rest \<Longrightarrow>
     tcp_step c (c\<lparr>tc_posted := rest, tc_callbacks := tc_callbacks c @ [(request, True, success)]\<rparr>)"
| tcp_measure: "tcp_step c (c\<lparr>tc_measure_latencies := b\<rparr>)"
| tcp_finish: "tc_prepared c = connection_count c \<Longrightarrow> waiting_for c = WaitNothing \<Longrightarrow> tcp_step c (tcp_finish c)"
| tcp_drained: "waiting_for c = WaitEchoes \<Longrightarrow> tc_exit c \<or> (\<exists>due. drain_timer c = Some due \<and> due \<le> tc_now c) \<Longrightarrow>
     tcp_step c (finish_rest c)"
| tcp_terminate: "tc_finished c \<Longrightarrow> waiting_for c = WaitNothing \<Longrightarrow> tcp_step c (terminate_rest c)"
| tcp_delete: "i \<notin> set (links c) \<Longrightarrow> tcp_step c (upd_link i (\<lambda>l. l\<lparr>lk_deleted := True\<rparr>) c)"

inductive tcp_reachable :: "TcpBenchmarkClient \<Rightarrow> TcpBenchmarkClient \<Rightarrow> bool" for c0 where
  tcp_start: "tcp_reachable c0 c0"
| tcp_next: "tcp_reachable c0 c \<Longrightarrow> tcp_step c c' \<Longrightarrow> tcp_reachable c0 c'"

end
