(* ===== verification/TcpPool.thy ===== *)
theory TcpPool
  imports TcpClient
begin

text \<open>
  The connection pool of the TCP client in every reachable state: which states the links of a slot can be in,
  that a slot without a connection has one under way or a retry armed, and that a client that has finished
  opens nothing. Each operation is shown to keep the invariant at the place it changes.
\<close>

subsection \<open>The invariant of the pool\<close>

text \<open>
  A slot \<open>s\<close>: its links are distinct and its own; its active link is connecting or open, its standby is
  connecting behind an open link or none, its retired links wait for echoes or are closed; and unless the client has
  finished it always has a link or a retry that is due within the maximal backoff.
\<close>

definition active_state :: "TcpBenchmarkClient \<Rightarrow> nat \<Rightarrow> bool" where
  "active_state c a \<longleftrightarrow> lk_state (link_of c a) \<noteq> Retiring \<and> (lk_state (link_of c a) = Closed \<longrightarrow> tc_finished c)"

definition slot_ok :: "TcpBenchmarkClient \<Rightarrow> nat \<Rightarrow> Slot \<Rightarrow> bool" where
  "slot_ok c s sl \<longleftrightarrow>
     distinct (slot_links sl) \<and>
     (\<forall>i \<in> set (slot_links sl). i < length (tc_links c) \<and> lk_slot (link_of c i) = s) \<and>
     (\<forall>a. sl_active sl = Some a \<longrightarrow> active_state c a) \<and>
     (\<forall>b. sl_standby sl = Some b \<longrightarrow> lk_state (link_of c b) = Connecting \<and>
        (\<forall>a. sl_active sl = Some a \<longrightarrow> tc_finished c \<or> lk_state (link_of c a) = Open)) \<and>
     (\<forall>r \<in> set (sl_retiring sl). lk_state (link_of c r) = Retiring \<or> lk_state (link_of c r) = Closed) \<and>
     (tc_finished c \<longrightarrow> sl_retry_timer sl = None) \<and>
     (sl_retry_timer sl = None \<and> sl_active sl = None \<and> sl_standby sl = None \<longrightarrow> tc_finished c \<or> tc_prepared c \<le> s) \<and>
     (tc_prepared c \<le> s \<longrightarrow> sl_active sl = None) \<and> (tc_prepared c \<le> s \<longrightarrow> sl_standby sl = None) \<and>
     (\<forall>due. sl_retry_timer sl = Some due \<longrightarrow> due \<le> tc_now c + MaxBackoff) \<and>
     InitialBackoff \<le> sl_backoff sl \<and> sl_backoff sl \<le> MaxBackoff \<and>
     (tc_prepared c \<le> s \<longrightarrow> sl_retry_timer sl = None)"

definition link_ok :: "TcpBenchmarkClient \<Rightarrow> Slot \<Rightarrow> nat \<Rightarrow> Link \<Rightarrow> bool" where
  "link_ok c sl i l \<longleftrightarrow>
     (lk_state l \<noteq> Closed \<longrightarrow> i \<in> set (slot_links sl)) \<and>
     (lk_state l = Connecting \<or> lk_state l = Closed \<or> \<not> expect_echo c \<longrightarrow> lk_inflight l = []) \<and>
     length (lk_inflight l) \<le> max_inflight_per_connection c \<and>
     (lk_state l = Retiring \<longrightarrow> lk_inflight l \<noteq> []) \<and>
     (lk_state l = Connecting \<or> lk_state l = Retiring \<longrightarrow> (\<exists>due. lk_timer l = Some due \<and> due \<le> tc_now c + tc_timeout c)) \<and>
     (lk_initial_pending l \<longrightarrow> lk_state l = Connecting)"

definition place_ok :: "TcpBenchmarkClient \<Rightarrow> nat \<Rightarrow> bool" where
  "place_ok c s \<longleftrightarrow> slot_ok c s (slot_of c s) \<and>
     (\<forall>i < length (tc_links c). lk_slot (link_of c i) = s \<longrightarrow> link_ok c (slot_of c s) i (link_of c i))"

definition pool_ok :: "TcpBenchmarkClient \<Rightarrow> bool" where
  "pool_ok c \<longleftrightarrow> length (tc_slots c) = connection_count c \<and> tc_prepared c \<le> connection_count c \<and>
     (\<forall>i < length (tc_links c). lk_slot (link_of c i) < connection_count c) \<and>
     (\<forall>s < connection_count c. place_ok c s)"

text \<open>The invariant at all places but one.\<close>

definition pool_but :: "nat \<Rightarrow> TcpBenchmarkClient \<Rightarrow> bool" where
  "pool_but s c \<longleftrightarrow> length (tc_slots c) = connection_count c \<and> tc_prepared c \<le> connection_count c \<and>
     (\<forall>i < length (tc_links c). lk_slot (link_of c i) < connection_count c) \<and>
     (\<forall>s' < connection_count c. s' \<noteq> s \<longrightarrow> place_ok c s')"

lemma pool_but: "pool_ok c \<Longrightarrow> pool_but s c"
  by (simp add: pool_ok_def pool_but_def)

text \<open>What the invariant depends on besides slots and links.\<close>

definition scal :: "TcpBenchmarkClient \<Rightarrow> nat \<times> bool \<times> nat \<times> nanos \<times> nanos \<times> nat \<times> bool" where
  "scal c = (connection_count c, tc_finished c, tc_prepared c, tc_now c, tc_timeout c, max_inflight_per_connection c, expect_echo c)"

lemma scalD:
  assumes "scal c' = scal c"
  shows "connection_count c' = connection_count c" "tc_finished c' = tc_finished c" "tc_prepared c' = tc_prepared c"
    "tc_now c' = tc_now c" "tc_timeout c' = tc_timeout c" "max_inflight_per_connection c' = max_inflight_per_connection c"
    "expect_echo c' = expect_echo c"
  using assms by (simp_all add: scal_def)

lemma slot_ok_cong:
  assumes "scal c' = scal c" "length (tc_links c) \<le> length (tc_links c')"
    and "\<And>i. i \<in> set (slot_links sl) \<Longrightarrow>
      lk_slot (link_of c' i) = lk_slot (link_of c i) \<and> lk_state (link_of c' i) = lk_state (link_of c i)"
  shows "slot_ok c s sl \<Longrightarrow> slot_ok c' s sl"
proof -
  have m: "lk_state (link_of c' i) = lk_state (link_of c i)"
    if "sl_active sl = Some i \<or> sl_standby sl = Some i \<or> i \<in> set (sl_retiring sl)" for i
    using that assms(3) [of i] by (auto simp: slot_links_def split: option.splits)
  assume "slot_ok c s sl"
  then show "slot_ok c' s sl"
    unfolding slot_ok_def active_state_def scalD [OF assms(1)] using m assms(2,3)
    by (simp add: order_less_le_trans [OF _ assms(2)])
qed

text \<open>Only the place that changed has to be looked at.\<close>

lemma pool_frame:
  assumes ok: "pool_but s c" and scal: "scal c' = scal c"
    and slots: "length (tc_slots c') = length (tc_slots c)" "\<And>s'. s' \<noteq> s \<Longrightarrow> slot_of c' s' = slot_of c s'"
    and links: "length (tc_links c) \<le> length (tc_links c')"
      "\<And>j. j < length (tc_links c) \<Longrightarrow> lk_slot (link_of c' j) = lk_slot (link_of c j)"
      "\<And>j. j < length (tc_links c) \<Longrightarrow> lk_slot (link_of c j) \<noteq> s \<Longrightarrow> link_of c' j = link_of c j"
      "\<And>j. length (tc_links c) \<le> j \<Longrightarrow> j < length (tc_links c') \<Longrightarrow> lk_slot (link_of c' j) = s"
    and s: "s < connection_count c" and place: "place_ok c' s"
  shows "pool_ok c'"
proof -
  note sc = scalD [OF scal]
  have "place_ok c' s'" if "s' < connection_count c" for s'
  proof (cases "s' = s")
    case False
    then have old: "place_ok c s'" using ok that by (simp add: pool_but_def)
    then have "link_of c' i = link_of c i" if "i \<in> set (slot_links (slot_of c s'))" for i
      using that links(3) [of i] False by (auto simp: place_ok_def slot_ok_def)
    then have "slot_ok c' s' (slot_of c s')"
      using old slot_ok_cong [OF scal links(1)] by (simp add: place_ok_def)
    moreover have "link_ok c' (slot_of c s') i (link_of c' i)"
      if "i < length (tc_links c')" "lk_slot (link_of c' i) = s'" for i
    proof -
      have "i < length (tc_links c)" using that links(4) [of i] False by (cases "i < length (tc_links c)") auto
      then have "link_of c' i = link_of c i" "lk_slot (link_of c i) = s'" using links(2,3) [of i] that False by auto
      then show ?thesis using old \<open>i < length (tc_links c)\<close> unfolding place_ok_def link_ok_def sc by simp
    qed
    ultimately show ?thesis by (simp add: place_ok_def slots(2) [OF False])
  qed (simp add: place)
  moreover have "lk_slot (link_of c' i) < connection_count c" if "i < length (tc_links c')" for i
    using that links(2,4) [of i] ok s by (cases "i < length (tc_links c)") (auto simp: pool_but_def)
  ultimately show ?thesis using ok slots(1) by (simp add: pool_ok_def pool_but_def sc)
qed

subsection \<open>What the operations do to the slots\<close>

definition retried :: "bool \<Rightarrow> nanos \<Rightarrow> Slot \<Rightarrow> Slot" where
  "retried fin now sl =
     (if fin \<or> sl_retry_timer sl \<noteq> None then sl
      else let backoff = (case sl_last_retry sl of
                            Some t \<Rightarrow> if now - t \<ge> BackoffStartsOverAfter then InitialBackoff else sl_backoff sl
                          | None \<Rightarrow> sl_backoff sl)
           in sl\<lparr>sl_retry_timer := Some (now + backoff), sl_backoff := min (backoff * 2) MaxBackoff\<rparr>)"

definition remove_link :: "nat \<Rightarrow> Slot \<Rightarrow> Slot" where
  "remove_link i sl =
     (if sl_active sl = Some i then sl\<lparr>sl_active := None\<rparr>
      else if sl_standby sl = Some i then sl\<lparr>sl_standby := None\<rparr>
      else sl\<lparr>sl_retiring := remove1 i (sl_retiring sl)\<rparr>)"

lemma scal_updates [simp]:
  "scal (c\<lparr>message_latency := ml\<rparr>) = scal c" "scal (c\<lparr>connect_latency := ml\<rparr>) = scal c" "scal (c\<lparr>tc_callbacks := cb\<rparr>) = scal c"
  "scal (c\<lparr>tc_posted := po\<rparr>) = scal c" "scal (c\<lparr>tc_started := n\<rparr>) = scal c" "scal (c\<lparr>next_slot := n\<rparr>) = scal c"
  "scal (c\<lparr>pending_opens := n\<rparr>) = scal c" "scal (c\<lparr>tc_links := ls\<rparr>) = scal c" "scal (c\<lparr>tc_slots := sls\<rparr>) = scal c"
  "scal (c\<lparr>waiting_for := w\<rparr>) = scal c" "scal (c\<lparr>drain_timer := dt\<rparr>) = scal c" "scal (c\<lparr>tc_exit := b\<rparr>) = scal c"
  "scal (c\<lparr>tc_measure_latencies := b\<rparr>) = scal c" "scal (c\<lparr>tc_message := msg\<rparr>) = scal c"
  by (simp_all add: scal_def)

lemma scal_basic [simp]:
  "scal (tcp_inc k c) = scal c" "scal (upd_slot s g c) = scal c" "scal (upd_link i f c) = scal c"
  "scal (maybeExitWaitLoop c) = scal c" "scal (scheduleRetry s c) = scal c" "scal (snd (release i c)) = scal c"
  "scal (initialAttemptDone i c) = scal c"
  by (simp_all add: scal_def tcp_inc_def upd_slot_def upd_link_def maybeExitWaitLoop_def scheduleRetry_def release_def
      initialAttemptDone_def Let_def split: WaitingFor.split)

lemma scal_complete [simp]:
  "scal (complete_messages success ms c) = scal c" "scal (completeInflight i success c) = scal c"
proof -
  show *: "scal (complete_messages success ms c) = scal c" for ms c
    by (induction success ms c rule: complete_messages.induct) (simp_all add: Let_def scal_def tcp_inc_def)
  show "scal (completeInflight i success c) = scal c" by (simp add: completeInflight_def *)
qed

lemma scal_closing [simp]:
  "scal (on_close_event i c) = scal c" "scal (closeLink i type c) = scal c" "scal (onEchoMismatch i c) = scal c"
proof -
  show *: "scal (on_close_event i c) = scal c" for c by (simp add: on_close_event_def Let_def case_prod_beta)
  show **: "scal (closeLink i type c) = scal c" for type c by (simp add: closeLink_def Let_def *)
  show "scal (onEchoMismatch i c) = scal c" by (simp add: onEchoMismatch_def Let_def **)
qed

lemma scal_projections [simp]:
  "tc_finished (tcp_inc k c) = tc_finished c" "tc_now (tcp_inc k c) = tc_now c" "tc_timeout (tcp_inc k c) = tc_timeout c"
  "tc_finished (completeInflight i b c) = tc_finished c" "tc_now (completeInflight i b c) = tc_now c"
  "tc_finished (initialAttemptDone i c) = tc_finished c" "tc_now (initialAttemptDone i c) = tc_now c"
  "tc_finished (upd_link i f c) = tc_finished c" "tc_now (upd_link i f c) = tc_now c" "tc_timeout (upd_link i f c) = tc_timeout c"
  "tc_finished (snd (release i c)) = tc_finished c" "tc_now (snd (release i c)) = tc_now c"
  "tc_finished (closeLink i type c) = tc_finished c" "tc_now (closeLink i type c) = tc_now c"
  "tc_now (upd_slot s g c) = tc_now c" "tc_timeout (upd_slot s g c) = tc_timeout c" "tc_finished (upd_slot s g c) = tc_finished c"
  by (rule scalD, simp)+

lemma slots_basic [simp]:
  "tc_slots (tcp_inc k c) = tc_slots c" "tc_slots (upd_link i f c) = tc_slots c"
  "tc_slots (upd_slot s g c) = (tc_slots c)[s := g (slot_of c s)]"
  "tc_slots (maybeExitWaitLoop c) = tc_slots c" "tc_slots (initialAttemptDone i c) = tc_slots c"
  "tc_slots (scheduleRetry s c) = (tc_slots c)[s := retried (tc_finished c) (tc_now c) (slot_of c s)]"
  by (simp_all add: tcp_inc_def upd_slot_def upd_link_def maybeExitWaitLoop_def scheduleRetry_def initialAttemptDone_def
      retried_def Let_def split: WaitingFor.split)

lemma slots_complete [simp]:
  "tc_slots (complete_messages success ms c) = tc_slots c" "tc_slots (completeInflight i success c) = tc_slots c"
proof -
  show *: "tc_slots (complete_messages success ms c) = tc_slots c" for ms c
    by (induction success ms c rule: complete_messages.induct) (simp_all add: Let_def)
  show "tc_slots (completeInflight i success c) = tc_slots c" by (simp add: completeInflight_def *)
qed

lemma slots_release [simp]:
  "tc_slots (snd (release i c)) =
     (tc_slots c)[lk_slot (link_of c i) := remove_link i (slot_of c (lk_slot (link_of c i)))]"
  by (simp add: release_def Let_def remove_link_def remove1_idem)

lemma role_release:
  "fst (release i c) = RoleActive \<or> fst (release i c) = RoleStandby \<longleftrightarrow>
     sl_active (slot_of c (lk_slot (link_of c i))) = Some i \<or> sl_standby (slot_of c (lk_slot (link_of c i))) = Some i"
  by (simp add: release_def Let_def)

lemma slots_close_event:
  assumes "i < length (tc_links c)" "lk_slot (link_of c i) < length (tc_slots c)"
  shows "tc_slots (on_close_event i c) =
     (let s = lk_slot (link_of c i); sl = slot_of c s
      in (tc_slots c)[s := if lk_state (link_of c i) \<noteq> Closed \<and> (sl_active sl = Some i \<or> sl_standby sl = Some i)
                          then retried (tc_finished c) (tc_now c) (remove_link i sl) else remove_link i sl])"
  using assms
  by (cases "lk_state (link_of c i)") (simp_all add: on_close_event_def Let_def case_prod_beta role_release closed_link_def)

lemma slots_closeLink:
  assumes "i < length (tc_links c)" "lk_slot (link_of c i) < length (tc_slots c)"
  shows "tc_slots (closeLink i type c) =
     (if lk_state (link_of c i) = Closed \<or> type = FlushWrite then tc_slots c
      else (tc_slots c)[lk_slot (link_of c i) := remove_link i (slot_of c (lk_slot (link_of c i)))])"
  using assms
  by (cases type) (simp_all add: closeLink_def Let_def slots_close_event)

subsection \<open>The operations keep the pool\<close>

lemma slot_links_remove:
  "distinct (slot_links sl) \<Longrightarrow>
     set (slot_links (remove_link i sl)) = set (slot_links sl) - {i} \<and> distinct (slot_links (remove_link i sl))"
  by (auto simp: slot_links_def remove_link_def set_remove1_eq split: option.splits)

lemma backoff_constants: "InitialBackoff \<le> MaxBackoff" "0 < InitialBackoff"
  by (simp_all add: InitialBackoff_def MaxBackoff_def one_millisecond_def)

lemma retried_simps [simp]:
  "sl_active (retried fin now sl) = sl_active sl" "sl_standby (retried fin now sl) = sl_standby sl"
  "sl_retiring (retried fin now sl) = sl_retiring sl" "slot_links (retried fin now sl) = slot_links sl"
  by (simp_all add: retried_def Let_def slot_links_def)

lemma retried_backoff:
  assumes "\<And>due. sl_retry_timer sl = Some due \<Longrightarrow> due \<le> now + MaxBackoff" "InitialBackoff \<le> sl_backoff sl" "sl_backoff sl \<le> MaxBackoff"
  shows "sl_retry_timer (retried fin now sl) = Some due \<Longrightarrow> due \<le> now + MaxBackoff"
    "InitialBackoff \<le> sl_backoff (retried fin now sl)" "sl_backoff (retried fin now sl) \<le> MaxBackoff"
    "fin \<Longrightarrow> sl_retry_timer (retried fin now sl) = sl_retry_timer sl"
    "\<not> fin \<Longrightarrow> sl_retry_timer (retried fin now sl) \<noteq> None"
  using assms backoff_constants by (auto simp: retried_def Let_def split: option.splits if_splits)

lemma remove_link_simps [simp]:
  "sl_retry_timer (remove_link i sl) = sl_retry_timer sl" "sl_backoff (remove_link i sl) = sl_backoff sl"
  "sl_last_retry (remove_link i sl) = sl_last_retry sl"
  by (simp_all add: remove_link_def)

lemma remove_link_sub:
  "sl_active (remove_link i sl) = Some a \<Longrightarrow> sl_active sl = Some a"
  "sl_standby (remove_link i sl) = Some a \<Longrightarrow> sl_standby sl = Some a"
  "a \<in> set (sl_retiring (remove_link i sl)) \<Longrightarrow> a \<in> set (sl_retiring sl)"
  "sl_active sl \<noteq> Some i \<Longrightarrow> sl_active (remove_link i sl) = sl_active sl"
  "sl_standby sl \<noteq> Some i \<Longrightarrow> sl_standby (remove_link i sl) = sl_standby sl"
  using set_remove1_subset [of i "sl_retiring sl"] by (auto simp: remove_link_def split: if_splits)

lemma in_slot_links:
  "sl_active sl = Some a \<Longrightarrow> a \<in> set (slot_links sl)" "sl_standby sl = Some a \<Longrightarrow> a \<in> set (slot_links sl)"
  "a \<in> set (sl_retiring sl) \<Longrightarrow> a \<in> set (slot_links sl)"
  by (auto simp: slot_links_def split: option.splits)

lemma slot_okD:
  assumes "slot_ok c s sl"
  shows "distinct (slot_links sl)"
    and "i \<in> set (slot_links sl) \<Longrightarrow> i < length (tc_links c)" and "i \<in> set (slot_links sl) \<Longrightarrow> lk_slot (link_of c i) = s"
    and "sl_active sl = Some a \<Longrightarrow> active_state c a"
    and "sl_standby sl = Some b \<Longrightarrow> lk_state (link_of c b) = Connecting"
    and "sl_standby sl = Some b \<Longrightarrow> sl_active sl = Some a \<Longrightarrow> tc_finished c \<or> lk_state (link_of c a) = Open"
    and "r \<in> set (sl_retiring sl) \<Longrightarrow> lk_state (link_of c r) = Retiring \<or> lk_state (link_of c r) = Closed"
    and "tc_finished c \<Longrightarrow> sl_retry_timer sl = None"
    and "sl_retry_timer sl = None \<Longrightarrow> sl_active sl = None \<Longrightarrow> sl_standby sl = None \<Longrightarrow> tc_finished c \<or> tc_prepared c \<le> s"
    and "tc_prepared c \<le> s \<Longrightarrow> sl_active sl = None" and "tc_prepared c \<le> s \<Longrightarrow> sl_standby sl = None"
    and "sl_retry_timer sl = Some due \<Longrightarrow> due \<le> tc_now c + MaxBackoff"
    and "InitialBackoff \<le> sl_backoff sl" and "sl_backoff sl \<le> MaxBackoff"
    and "tc_prepared c \<le> s \<Longrightarrow> sl_retry_timer sl = None"
  using assms unfolding slot_ok_def by blast+

text \<open>Taking a closed link out of its slot, with a retry when the slot has nothing else.\<close>

lemma pool_remove:
  assumes ok: "pool_ok c" and i: "i < length (tc_links c)" and scal: "scal c' = scal c"
    and links: "tc_links c' = (tc_links c)[i := l]" and s: "s = lk_slot (link_of c i)"
    and l: "lk_slot l = s" "lk_state l = Closed" "lk_inflight l = []" "\<not> lk_initial_pending l"
    and slots: "tc_slots c' = (tc_slots c)[s := sl']"
    and sl': "sl' = remove_link i (slot_of c s) \<or> sl' = retried (tc_finished c) (tc_now c) (remove_link i (slot_of c s))"
    and retry: "sl_active (slot_of c s) = Some i \<or> sl_standby (slot_of c s) = Some i \<Longrightarrow> \<not> tc_finished c \<Longrightarrow>
      sl' = retried (tc_finished c) (tc_now c) (remove_link i (slot_of c s))"
    and prep: "sl_retry_timer sl' = sl_retry_timer (slot_of c s) \<or> s < tc_prepared c"
  shows "pool_ok c'"
proof (rule pool_frame [OF pool_but [OF ok] scal, of s])
  let ?sl = "slot_of c s"
  have sc: "s < connection_count c" "length (tc_slots c) = connection_count c"
    using ok i unfolding s pool_ok_def by blast+
  then show "s < connection_count c" by simp
  have place: "slot_ok c s ?sl" "\<And>j. j < length (tc_links c) \<Longrightarrow> lk_slot (link_of c j) = s \<Longrightarrow> link_ok c ?sl j (link_of c j)"
    using ok sc(1) unfolding pool_ok_def place_ok_def by blast+
  note old = slot_okD [OF place(1)]
  have new: "slot_of c' s = sl'" unfolding slots using sc by simp
  have ids: "set (slot_links sl') = set (slot_links ?sl) - {i}" "distinct (slot_links sl')"
    using slot_links_remove [OF old(1), of i] sl' retried_simps(4) by metis+
  then have same: "j \<in> set (slot_links sl') \<Longrightarrow> link_of c' j = link_of c j" for j by (auto simp: links)
  have fields: "sl_active sl' = sl_active (remove_link i ?sl)" "sl_standby sl' = sl_standby (remove_link i ?sl)"
      "sl_retiring sl' = sl_retiring (remove_link i ?sl)"
    using sl' retried_simps(1-3) by metis+
  have sub: "sl_active sl' = Some a \<Longrightarrow> sl_active ?sl = Some a" "sl_standby sl' = Some a \<Longrightarrow> sl_standby ?sl = Some a"
      "a \<in> set (sl_retiring sl') \<Longrightarrow> a \<in> set (sl_retiring ?sl)" for a
    unfolding fields by (rule remove_link_sub; assumption)+
  note kept = old(12-14) [folded remove_link_simps(1,2) [of i ?sl]]
  have timer: "sl_retry_timer sl' = Some due \<Longrightarrow> due \<le> tc_now c + MaxBackoff" "InitialBackoff \<le> sl_backoff sl'"
      "sl_backoff sl' \<le> MaxBackoff" for due
    using sl' kept retried_backoff(1-3) [OF kept, where fin = "tc_finished c"] by metis+
  have off: "sl_retry_timer sl' = None" if "tc_finished c"
    using sl' old(8) [OF that] retried_backoff(4) [OF kept, of "tc_finished c"] that by (metis remove_link_simps(1))
  have armed: "tc_prepared c \<le> s" if "\<not> tc_finished c" "sl_retry_timer sl' = None" "sl_active sl' = None" "sl_standby sl' = None"
  proof -
    have "sl_retry_timer (retried (tc_finished c) (tc_now c) (remove_link i ?sl)) \<noteq> None"
      using that(1) by (simp add: retried_def Let_def)
    then have *: "sl' = remove_link i ?sl" "sl_active ?sl \<noteq> Some i" "sl_standby ?sl \<noteq> Some i"
      using that(1,2) sl' retry by metis+
    then have "sl_active ?sl = None" "sl_standby ?sl = None"
      using that(3,4) remove_link_sub(4,5) [where i = i and sl = ?sl] by simp_all
    then show ?thesis using old(9) that(1,2) * by simp
  qed
  have act: "link_of c' a = link_of c a \<and> sl_active ?sl = Some a" if "sl_active sl' = Some a" for a
    using same [OF in_slot_links(1) [OF that]] sub(1) [OF that] by blast
  have sby: "link_of c' a = link_of c a \<and> sl_standby ?sl = Some a" if "sl_standby sl' = Some a" for a
    using same [OF in_slot_links(2) [OF that]] sub(2) [OF that] by blast
  have ret: "link_of c' a = link_of c a \<and> a \<in> set (sl_retiring ?sl)" if "a \<in> set (sl_retiring sl')" for a
    using same [OF in_slot_links(3) [OF that]] sub(3) [OF that] by blast
  have "slot_ok c' s sl'"
    unfolding slot_ok_def scalD [OF scal]
  proof (intro conjI allI ballI impI)
    fix j assume "j \<in> set (slot_links sl')"
    then show "j < length (tc_links c')" "lk_slot (link_of c' j) = s"
      using ids(1) same [of j] old(2,3) [of j] links by auto
  next
    fix a assume a: "sl_active sl' = Some a"
    show "active_state c' a" using act [OF a] old(4) [of a] by (simp add: active_state_def scalD [OF scal])
  next
    fix b assume b: "sl_standby sl' = Some b"
    then show "lk_state (link_of c' b) = Connecting" using sby [OF b] old(5) [of b] by auto
    show "tc_finished c \<or> lk_state (link_of c' a) = Open" if "sl_active sl' = Some a" for a
      using act [OF that] sby [OF b] old(6) [of b a] by simp
  next
    fix r assume r: "r \<in> set (sl_retiring sl')"
    show "lk_state (link_of c' r) = Retiring \<or> lk_state (link_of c' r) = Closed" using ret [OF r] old(7) [of r] by simp
  next
    assume "tc_prepared c \<le> s"
    then show "sl_active sl' = None" "sl_standby sl' = None" "sl_retry_timer sl' = None"
      using old(10,11,15) act sby prep by (metis option.exhaust option.simps(3) not_le)+
  qed (use ids(2) timer off armed in blast)+
  moreover have "link_ok c' sl' j (link_of c' j)" if "j < length (tc_links c')" "lk_slot (link_of c' j) = s" for j
  proof (cases "j = i")
    case True
    then show ?thesis using i l by (simp add: links link_ok_def)
  next
    case False
    then have "link_of c' j = link_of c j" "j < length (tc_links c)" using that by (simp_all add: links)
    then show ?thesis using place(2) [of j] that False ids(1) by (auto simp: link_ok_def scalD [OF scal])
  qed
  ultimately show "place_ok c' s" by (simp add: place_ok_def new)
qed (simp_all add: links slots nth_list_update i l(1) [unfolded s] s, blast)

lemma pool_basic:
  assumes "pool_ok c"
  shows "length (tc_slots c) = connection_count c"
    and "i < length (tc_links c) \<Longrightarrow> lk_slot (link_of c i) < connection_count c"
    and "s < connection_count c \<Longrightarrow> slot_ok c s (slot_of c s)"
    and "i < length (tc_links c) \<Longrightarrow> link_ok c (slot_of c (lk_slot (link_of c i))) i (link_of c i)"
  using assms unfolding pool_ok_def place_ok_def by blast+

lemma pool_same:
  "pool_ok c \<Longrightarrow> scal c' = scal c \<Longrightarrow> tc_slots c' = tc_slots c \<Longrightarrow> tc_links c' = tc_links c \<Longrightarrow> pool_ok c'"
  using slot_ok_cong [of c' c] by (simp add: pool_ok_def place_ok_def link_ok_def scalD [of c' c])

lemma pool_inc [simp]: "pool_ok (tcp_inc k c) = pool_ok c"
proof
  show "pool_ok (tcp_inc k c) \<Longrightarrow> pool_ok c" by (erule pool_same) simp_all
  show "pool_ok c \<Longrightarrow> pool_ok (tcp_inc k c)" by (erule pool_same) simp_all
qed

lemma pool_exit [simp]: "pool_ok (maybeExitWaitLoop c) = pool_ok c"
proof
  show "pool_ok (maybeExitWaitLoop c) \<Longrightarrow> pool_ok c" by (erule pool_same) simp_all
  show "pool_ok c \<Longrightarrow> pool_ok (maybeExitWaitLoop c)" by (erule pool_same) simp_all
qed

text \<open>A change of one link that its role in its slot allows.\<close>

lemma pool_change:
  assumes ok: "pool_ok c" and i: "i < length (tc_links c)" and scal: "scal c' = scal c" "tc_slots c' = tc_slots c"
    and links: "tc_links c' = (tc_links c)[i := l]" and s: "s = lk_slot (link_of c i)" "lk_slot l = s"
    and active: "sl_active (slot_of c s) = Some i \<Longrightarrow> lk_state l \<noteq> Retiring \<and> (lk_state l = Closed \<longrightarrow> tc_finished c)"
    and standby: "sl_standby (slot_of c s) = Some i \<Longrightarrow> lk_state l = Connecting"
      "\<And>b. sl_standby (slot_of c s) = Some b \<Longrightarrow> sl_active (slot_of c s) = Some i \<Longrightarrow> tc_finished c \<or> lk_state l = Open"
    and retired: "i \<in> set (sl_retiring (slot_of c s)) \<Longrightarrow> lk_state l = Retiring \<or> lk_state l = Closed"
    and link: "link_ok c (slot_of c s) i l"
  shows "pool_ok c'"
proof (rule pool_frame [OF pool_but [OF ok] scal(1), of s])
  let ?sl = "slot_of c s"
  have sc: "s < connection_count c" using pool_basic(2) [OF ok i] s by simp
  then show "s < connection_count c" .
  have slot: "slot_ok c s ?sl" by (rule pool_basic(3) [OF ok sc])
  note old = slot_okD [OF slot]
  have nth: "link_of c' j = (if j = i then l else link_of c j)" for j using i by (simp add: links nth_list_update)
  have "slot_ok c' s ?sl"
    unfolding slot_ok_def scalD [OF scal(1)]
  proof (intro conjI allI ballI impI)
    fix j assume "j \<in> set (slot_links ?sl)"
    then show "j < length (tc_links c')" "lk_slot (link_of c' j) = s" using old(2,3) [of j] s(2) by (simp_all add: nth, simp add: links)
  next
    fix a assume a: "sl_active ?sl = Some a"
    show "active_state c' a"
      using old(4) [OF a] active a by (cases "a = i") (simp_all add: nth active_state_def scalD [OF scal(1)])
  next
    fix b assume b: "sl_standby ?sl = Some b"
    show "lk_state (link_of c' b) = Connecting"
      using old(5) [OF b] standby(1) b by (simp_all add: nth)
    show "tc_finished c \<or> lk_state (link_of c' a) = Open" if "sl_active ?sl = Some a" for a
      using old(6) [OF b that] standby(2) [OF b] that by (simp add: nth)
  next
    fix r assume r: "r \<in> set (sl_retiring ?sl)"
    show "lk_state (link_of c' r) = Retiring \<or> lk_state (link_of c' r) = Closed"
      using old(7) [OF r] retired r by (cases "r = i") (simp_all add: nth)
  qed (use old in blast)+
  moreover have "link_ok c' ?sl j (link_of c' j)" if "j < length (tc_links c')" "lk_slot (link_of c' j) = s" for j
  proof -
    have "j < length (tc_links c)" using that by (simp add: links)
    then have "link_ok c ?sl j (link_of c' j)"
      using that(2) link pool_basic(4) [OF ok, of j] by (simp add: nth split: if_splits)
    then show ?thesis by (simp add: link_ok_def scalD [OF scal(1)])
  qed
  ultimately show "place_ok c' s" by (simp add: place_ok_def scal(2))
qed (use i s in \<open>simp_all add: links scal(2) nth_list_update, metis\<close>)

lemma pool_link:
  assumes ok: "pool_ok c" and i: "i < length (tc_links c)" and scal: "scal c' = scal c" "tc_slots c' = tc_slots c"
    and links: "tc_links c' = (tc_links c)[i := l]" and l: "lk_slot l = lk_slot (link_of c i)" "lk_state l = lk_state (link_of c i)"
    and lok: "link_ok c (slot_of c (lk_slot l)) i l"
  shows "pool_ok c'"
proof (rule pool_change [OF ok i scal links refl l(1)])
  note old = slot_okD [OF pool_basic(3) [OF ok pool_basic(2) [OF ok i]]]
  let ?sl = "slot_of c (lk_slot (link_of c i))"
  show "sl_active ?sl = Some i \<Longrightarrow> lk_state l \<noteq> Retiring \<and> (lk_state l = Closed \<longrightarrow> tc_finished c)"
    using old(4) [of i] l(2) by (simp add: active_state_def)
  show "sl_standby ?sl = Some i \<Longrightarrow> lk_state l = Connecting" using old(5) [of i] l(2) by simp
  show "sl_standby ?sl = Some b \<Longrightarrow> sl_active ?sl = Some i \<Longrightarrow> tc_finished c \<or> lk_state l = Open" for b
    using old(6) [of b i] l(2) by simp
  show "i \<in> set (sl_retiring ?sl) \<Longrightarrow> lk_state l = Retiring \<or> lk_state l = Closed" using old(7) [of i] l(2) by simp
  show "link_ok c ?sl i l" using lok l(1) by simp
qed

lemma closed_inactive:
  assumes "pool_ok c" "i < length (tc_links c)" "lk_state (link_of c i) = Closed" "\<not> tc_finished c"
  shows "sl_active (slot_of c (lk_slot (link_of c i))) \<noteq> Some i" "sl_standby (slot_of c (lk_slot (link_of c i))) \<noteq> Some i"
  using slot_okD(4,5) [OF pool_basic(3) [OF assms(1) pool_basic(2) [OF assms(1,2)]], of i] assms(3,4) by (auto simp: active_state_def)

lemma role_prepared:
  assumes "pool_ok c" "i < length (tc_links c)"
    "sl_active (slot_of c (lk_slot (link_of c i))) = Some i \<or> sl_standby (slot_of c (lk_slot (link_of c i))) = Some i"
  shows "lk_slot (link_of c i) < tc_prepared c"
  using slot_okD(10,11) [OF pool_basic(3) [OF assms(1) pool_basic(2) [OF assms(1,2)]]] assms(3) by (metis not_le option.distinct(1))

lemma closed_link_simps [simp]:
  "lk_slot (closed_link l) = lk_slot l" "lk_state (closed_link l) = Closed" "lk_inflight (closed_link l) = []"
  "\<not> lk_initial_pending (closed_link l)"
  by (simp_all add: closed_link_def)

lemma pool_close_event:
  assumes ok: "pool_ok c" and i: "i < length (tc_links c)"
  shows "pool_ok (on_close_event i c)"
proof (rule pool_remove [OF ok i _ _ refl])
  have "lk_slot (link_of c i) < length (tc_slots c)" using pool_basic(1,2) [OF ok] i by simp
  from slots_close_event [OF i this]
  show "tc_slots (on_close_event i c) = (tc_slots c)[lk_slot (link_of c i) :=
      if lk_state (link_of c i) \<noteq> Closed \<and> (sl_active (slot_of c (lk_slot (link_of c i))) = Some i \<or>
          sl_standby (slot_of c (lk_slot (link_of c i))) = Some i)
      then retried (tc_finished c) (tc_now c) (remove_link i (slot_of c (lk_slot (link_of c i))))
      else remove_link i (slot_of c (lk_slot (link_of c i)))]"
    by (simp add: Let_def)
  show "tc_links (on_close_event i c) = (tc_links c)[i := closed_link (link_of c i)]" by simp
qed (use closed_inactive [OF ok i] role_prepared [OF ok i] in auto)

text \<open>
  Closing a link of our own accord, possibly with a field changed before, followed by a retry when it was
  not rotated out.
\<close>

lemma pool_close_retry:
  assumes ok: "pool_ok c" and i: "i < length (tc_links c)"
    and c1: "scal c1 = scal c" "tc_slots c1 = tc_slots c" "tc_links c1 = (tc_links c)[i := l]"
    and l: "lk_slot l = lk_slot (link_of c i)" "lk_state l \<noteq> Closed"
    and retry: "sl_active (slot_of c (lk_slot l)) = Some i \<or> sl_standby (slot_of c (lk_slot l)) = Some i \<Longrightarrow>
      \<not> tc_finished c \<Longrightarrow> retry"
      "retry \<Longrightarrow> sl_active (slot_of c (lk_slot l)) = Some i \<or> sl_standby (slot_of c (lk_slot l)) = Some i"
  shows "pool_ok (if retry then scheduleRetry (lk_slot l) (closeLink i NoFlush c1) else closeLink i NoFlush c1)" (is "pool_ok ?c")
proof (rule pool_remove [OF ok i _ _ refl])
  let ?s = "lk_slot l"
  have s: "?s < length (tc_slots c)" using pool_basic(1,2) [OF ok] i l by simp
  have i1: "i < length (tc_links c1)" "link_of c1 i = l" using i c1(3) by simp_all
  have s1: "lk_slot (link_of c1 i) < length (tc_slots c1)" using s i1 c1(2) by simp
  show "tc_slots ?c = (tc_slots c)[lk_slot (link_of c i) :=
      if retry then retried (tc_finished c) (tc_now c) (remove_link i (slot_of c ?s)) else remove_link i (slot_of c ?s)]"
    using s l i1 c1(2) scalD(2,4) [OF c1(1)] by (simp add: slots_closeLink [OF i1(1) s1])
  show "tc_links ?c = (tc_links c)[i := closed_link l]" using i1(2) l c1(3) by simp
  show "scal ?c = scal c" using c1(1) by simp
qed (use l retry role_prepared [OF ok i] in auto)

lemma open_active:
  assumes "pool_ok c" "i < length (tc_links c)" "lk_state (link_of c i) = Open"
  shows "sl_active (slot_of c (lk_slot (link_of c i))) = Some i"
proof -
  let ?sl = "slot_of c (lk_slot (link_of c i))"
  have ok: "slot_ok c (lk_slot (link_of c i)) ?sl" by (rule pool_basic(3) [OF assms(1) pool_basic(2) [OF assms(1,2)]])
  have "i \<in> set (slot_links ?sl)" using pool_basic(4) [OF assms(1,2)] assms(3) by (simp add: link_ok_def)
  then show ?thesis
    using slot_okD(5) [OF ok, of i] slot_okD(7) [OF ok, of i] assms(3) by (auto simp: slot_links_def split: option.splits)
qed

lemma connecting_role:
  assumes "pool_ok c" "i < length (tc_links c)" "lk_state (link_of c i) = Connecting"
  shows "sl_active (slot_of c (lk_slot (link_of c i))) = Some i \<or> sl_standby (slot_of c (lk_slot (link_of c i))) = Some i"
proof -
  let ?sl = "slot_of c (lk_slot (link_of c i))"
  have ok: "slot_ok c (lk_slot (link_of c i)) ?sl" by (rule pool_basic(3) [OF assms(1) pool_basic(2) [OF assms(1,2)]])
  have "i \<in> set (slot_links ?sl)" using pool_basic(4) [OF assms(1,2)] assms(3) by (simp add: link_ok_def)
  then show ?thesis using slot_okD(7) [OF ok, of i] assms(3) by (auto simp: slot_links_def split: option.splits)
qed

lemma retiring_retired:
  assumes "pool_ok c" "i < length (tc_links c)" "lk_state (link_of c i) = Retiring"
  shows "sl_active (slot_of c (lk_slot (link_of c i))) \<noteq> Some i" "sl_standby (slot_of c (lk_slot (link_of c i))) \<noteq> Some i"
  using slot_okD(4,5) [OF pool_basic(3) [OF assms(1) pool_basic(2) [OF assms(1,2)]], of i] assms(3) by (auto simp: active_state_def)

lemma pool_link_timer:
  assumes ok: "pool_ok c" and i: "i < length (tc_links c)"
  shows "pool_ok (on_link_timer i (upd_link i (\<lambda>l. l\<lparr>lk_timer := None\<rparr>) c))"
proof (cases "lk_state (link_of c i)")
  case Connecting
  then show ?thesis
    using pool_close_retry [OF ok i, of "tcp_inc tcp_connect_failures (upd_link i (\<lambda>l. l\<lparr>lk_timer := None\<rparr>) c)" _ True] i
      connecting_role [OF ok i]
    by (simp add: on_link_timer_def)
next
  case Retiring
  then show ?thesis
    using pool_close_retry [OF ok i, of "upd_link i (\<lambda>l. l\<lparr>lk_timer := None\<rparr>) c" _ False] i retiring_retired [OF ok i]
    by (simp add: on_link_timer_def)
next
  case Open
  then show ?thesis using i pool_basic(4) [OF ok i]
    by (auto simp: on_link_timer_def link_ok_def intro!: pool_link [OF ok i])
next
  case Closed
  then show ?thesis using i pool_basic(4) [OF ok i]
    by (auto simp: on_link_timer_def link_ok_def intro!: pool_link [OF ok i])
qed

text \<open>A link that is closed where it is, waiting for its flush: a rotated one, or any once the client has finished.\<close>

lemma pool_shut:
  assumes ok: "pool_ok c" and i: "i < length (tc_links c)" and scal: "scal c' = scal c" "tc_slots c' = tc_slots c"
    and links: "tc_links c' = (tc_links c)[i := l]" and s: "s = lk_slot (link_of c i)"
    and l: "lk_slot l = s" "lk_state l = Closed" "lk_inflight l = []" "\<not> lk_initial_pending l"
    and out: "tc_finished c \<or> sl_active (slot_of c s) \<noteq> Some i" "sl_standby (slot_of c s) \<noteq> Some i"
  shows "pool_ok c'"
  by (rule pool_change [OF ok i scal links s l(1)]) (use l out in \<open>auto simp: link_ok_def\<close>)

lemma pool_mismatch:
  assumes ok: "pool_ok c" and i: "tcp_matching i c"
  shows "pool_ok (onEchoMismatch i c)"
proof -
  have i: "i < length (tc_links c)" and st: "lk_state (link_of c i) = Open \<or> lk_state (link_of c i) = Retiring"
    using i by (simp_all add: tcp_matching_def)
  have "sl_standby (slot_of c (lk_slot (link_of c i))) \<noteq> Some i"
    using slot_okD(5) [OF pool_basic(3) [OF ok pool_basic(2) [OF ok i]], of i] st by auto
  then show ?thesis
    using pool_close_retry [OF ok i, of "tcp_inc tcp_echo_mismatch c" "link_of c i"
        "sl_active (slot_of c (lk_slot (link_of c i))) = Some i"] st
    by (auto simp: onEchoMismatch_def Let_def)
qed

lemma pool_echo:
  assumes ok: "pool_ok c" and i: "tcp_matching i c"
  shows "pool_ok (onEcho i bytes c)"
proof (cases "lk_inflight (link_of c i) = [] \<or> bytes \<noteq> tc_message c")
  case True
  then show ?thesis using pool_mismatch [OF assms] by (auto simp: onEcho_def split: list.split)
next
  case False
  then obtain m ms where ms: "lk_inflight (link_of c i) = m # ms" by (cases "lk_inflight (link_of c i)") auto
  have l: "i < length (tc_links c)" and st: "lk_state (link_of c i) = Open \<or> lk_state (link_of c i) = Retiring"
    using i by (simp_all add: tcp_matching_def)
  let ?l = "(link_of c i)\<lparr>lk_inflight := ms\<rparr>" and ?c = "onEcho i bytes c"
  have scal: "scal ?c = scal c" "tc_slots ?c = tc_slots c"
    using False ms l st pool_basic(1,2) [OF ok] by (simp_all add: onEcho_def Let_def slots_closeLink)
  show ?thesis
  proof (cases "lk_state (link_of c i) = Retiring \<and> ms = []")
    case True
    show ?thesis
      by (rule pool_shut [OF ok l scal _ refl, of "closed_link ?l"])
         (use True False ms l retiring_retired [OF ok l] in \<open>simp_all add: onEcho_def Let_def\<close>)
  next
    case retire: False
    show ?thesis
      by (rule pool_link [OF ok l scal, of ?l])
         (use retire False ms l st pool_basic(4) [OF ok l] in \<open>auto simp: onEcho_def Let_def link_ok_def\<close>)
  qed
qed

lemma pool_upd:
  assumes ok: "pool_ok c" and i: "i < length (tc_links c)" and same: "lk_slot (f (link_of c i)) = lk_slot (link_of c i)"
    "lk_state (f (link_of c i)) = lk_state (link_of c i)" "lk_inflight (f (link_of c i)) = lk_inflight (link_of c i)"
    "lk_timer (f (link_of c i)) = lk_timer (link_of c i)"
    "lk_initial_pending (f (link_of c i)) = lk_initial_pending (link_of c i)"
  shows "pool_ok (upd_link i f c)"
  by (rule pool_link [OF ok i, of _ "f (link_of c i)"]) (use same pool_basic(4) [OF ok i] in \<open>simp_all add: link_ok_def\<close>)

lemma matching_received [simp]:
  "tcp_matching i (upd_link i (\<lambda>l. l\<lparr>lk_received := r\<rparr>) c) = tcp_matching i c"
  by (cases "i < length (tc_links c)") (simp_all add: tcp_matching_def)

lemma pool_echo_loop: "pool_ok c \<Longrightarrow> pool_ok (echo_loop i c)"
proof (induction i c rule: echo_loop.induct)
  case (1 i c)
  show ?case
  proof (cases "length (lk_received (link_of c i)) \<ge> length (tc_message c) \<and> tcp_matching i c")
    case True
    then have "i < length (tc_links c)" by (simp add: tcp_matching_def)
    with True show ?thesis using 1 pool_upd [OF 1(2)]
      by (subst echo_loop.simps) (simp add: Let_def pool_echo)
  qed (use 1(2) in \<open>subst echo_loop.simps, auto simp: Let_def\<close>)
qed

lemma pool_data: "pool_ok c \<Longrightarrow> i < length (tc_links c) \<Longrightarrow> pool_ok (onData i data c)"
  by (simp add: onData_def pool_echo_loop pool_upd)

lemma pool_blocked: "pool_ok c \<Longrightarrow> i < length (tc_links c) \<Longrightarrow> pool_ok (onWriteBlocked i blocked c)"
  by (simp add: onWriteBlocked_def pool_upd)

text \<open>A connection that was connecting is open.\<close>

lemma pool_opened:
  assumes ok: "pool_ok c" and i: "i < length (tc_links c)" and scal: "scal c' = scal c" "tc_slots c' = tc_slots c"
    and links: "tc_links c' = (tc_links c)[i := l]" and s: "s = lk_slot (link_of c i)"
    and st: "lk_state (link_of c i) = Connecting" "sl_standby (slot_of c s) \<noteq> Some i"
    and l: "lk_slot l = s" "lk_state l = Open" "lk_inflight l = []" "\<not> lk_initial_pending l"
  shows "pool_ok c'"
proof (rule pool_change [OF ok i scal links s l(1)])
  have "s < connection_count c" using pool_basic(2) [OF ok i] s by simp
  note old = slot_okD [OF pool_basic(3) [OF ok this]]
  show "i \<in> set (sl_retiring (slot_of c s)) \<Longrightarrow> lk_state l = Retiring \<or> lk_state l = Closed"
    using old(7) [of i] st(1) by simp
  show "link_ok c (slot_of c s) i l" using pool_basic(4) [OF ok i] l st(1) s by (simp add: link_ok_def)
qed (use l st(2) in auto)

text \<open>The standby takes over; the link it replaces waits for its echoes, or closes when it has none.\<close>

lemma pool_promoted:
  assumes ok: "pool_ok c" and s: "s < connection_count c" and i: "sl_standby (slot_of c s) = Some i"
    and scal: "scal c' = scal c"
    and slots: "tc_slots c' = (tc_slots c)[s := sl']"
    and sl': "sl' = (slot_of c s)\<lparr>sl_active := Some i, sl_standby := None, sl_retry_timer := None,
      sl_retiring := sl_retiring (slot_of c s) @ (case sl_active (slot_of c s) of Some r \<Rightarrow> [r] | None \<Rightarrow> [])\<rparr>"
    and links: "length (tc_links c') = length (tc_links c)" "link_of c' i = l"
      "\<And>r. sl_active (slot_of c s) = Some r \<Longrightarrow> link_of c' r = lr"
      "\<And>j. j \<noteq> i \<Longrightarrow> sl_active (slot_of c s) \<noteq> Some j \<Longrightarrow> link_of c' j = link_of c j"
    and l: "lk_slot l = s" "lk_state l = Open" "lk_inflight l = []" "\<not> lk_initial_pending l"
    and lr: "lk_slot lr = s" "lk_state lr = Retiring \<or> lk_state lr = Closed" "\<not> lk_initial_pending lr"
      "lk_state lr = Closed \<longleftrightarrow> lk_inflight lr = []" "\<not> expect_echo c \<longrightarrow> lk_inflight lr = []"
      "length (lk_inflight lr) \<le> max_inflight_per_connection c"
      "lk_state lr = Retiring \<longrightarrow> (\<exists>due. lk_timer lr = Some due \<and> due \<le> tc_now c + tc_timeout c)"
  shows "pool_ok c'"
proof (rule pool_frame [OF pool_but [OF ok] scal, of s])
  let ?sl = "slot_of c s"
  show "s < connection_count c" by (rule s)
  have len: "length (tc_slots c) = connection_count c" by (rule pool_basic(1) [OF ok])
  show "length (tc_slots c') = length (tc_slots c)" "\<And>s'. s' \<noteq> s \<Longrightarrow> slot_of c' s' = slot_of c s'" by (simp_all add: slots)
  have new: "slot_of c' s = sl'" unfolding slots using s len by simp
  note old = slot_okD [OF pool_basic(3) [OF ok s]]
  have fields: "sl_active sl' = Some i" "sl_standby sl' = None" "sl_retry_timer sl' = None" "sl_backoff sl' = sl_backoff ?sl"
    by (simp_all add: sl')
  have ids: "set (slot_links sl') = set (slot_links ?sl)" "distinct (slot_links sl')"
    using i old(1) by (auto simp: sl' slot_links_def split: option.split)
  have slot_j: "lk_slot (link_of c' j) = lk_slot (link_of c j)" if "j < length (tc_links c)" for j
    using links(2) links(3,4) [of j] l(1) lr(1) old(3) [OF in_slot_links(2) [OF i]] old(3) [OF in_slot_links(1), of j]
    by (cases "j = i"; cases "sl_active ?sl = Some j") auto
  then show "\<And>j. j < length (tc_links c) \<Longrightarrow> lk_slot (link_of c' j) = lk_slot (link_of c j)" .
  show "length (tc_links c) \<le> length (tc_links c')" using links(1) by simp
  show "link_of c' j = link_of c j" if "j < length (tc_links c)" "lk_slot (link_of c j) \<noteq> s" for j
    using that links(4) [of j] old(3) [OF in_slot_links(2) [OF i]] old(3) [OF in_slot_links(1), of j] by blast
  show "lk_slot (link_of c' j) = s" if "length (tc_links c) \<le> j" "j < length (tc_links c')" for j using that links(1) by simp
  have retired: "lk_state (link_of c' r) = Retiring \<or> lk_state (link_of c' r) = Closed" if "r \<in> set (sl_retiring sl')" for r
  proof (cases "sl_active ?sl = Some r")
    case False
    with that have "r \<in> set (sl_retiring ?sl)" by (auto simp: sl' split: option.splits)
    moreover from this have "r \<noteq> i" using old(5) [OF i] old(7) [of r] by auto
    ultimately show ?thesis using old(7) [of r] links(4) [OF _ False] by simp
  qed (use links(3) lr(2) in auto)
  have "slot_ok c' s sl'"
    unfolding slot_ok_def active_state_def scalD [OF scal] fields
    using ids old(2,3,10,13-15) slot_j links(1,2) l(2) retired old(5) [OF i] old(11) i by auto
  moreover have "link_ok c' sl' j (link_of c' j)" if "j < length (tc_links c')" "lk_slot (link_of c' j) = s" for j
  proof -
    consider "j = i" | "sl_active ?sl = Some j" "j \<noteq> i" | "j \<noteq> i" "sl_active ?sl \<noteq> Some j" by blast
    then have "link_ok c sl' j (link_of c' j)"
    proof cases
      case 1
      then show ?thesis using links(2) l ids(1) in_slot_links(2) [OF i] by (simp add: link_ok_def)
    next
      case 2
      then show ?thesis using links(3) [OF 2(1)] lr ids(1) in_slot_links(1) [OF 2(1)] by (auto simp: link_ok_def)
    next
      case 3
      then show ?thesis using links(4) [OF 3] pool_basic(4) [OF ok, of j] that links(1) ids(1) by (simp add: link_ok_def)
    qed
    then show ?thesis by (simp add: link_ok_def scalD [OF scal])
  qed
  ultimately show "place_ok c' s" by (simp add: place_ok_def new)
qed

definition opened_link :: "Link \<Rightarrow> Link" where
  "opened_link l = l\<lparr>lk_state := Open, lk_timer := None, lk_initial_pending := False\<rparr>"

definition retired_link :: "nanos \<Rightarrow> Link \<Rightarrow> Link" where
  "retired_link due l =
     (if lk_inflight l = [] then closed_link (l\<lparr>lk_state := Retiring\<rparr>) else l\<lparr>lk_state := Retiring, lk_timer := Some due\<rparr>)"

lemma scal_promote [simp]: "scal (promote s c) = scal c"
  by (simp add: promote_def Let_def split: option.split)

lemma promote_none:
  assumes "sl_active (slot_of c s) = None" "s < length (tc_slots c)"
  shows "tc_links (promote s c) = tc_links c"
    "tc_slots (promote s c) = (tc_slots c)[s := (slot_of c s)\<lparr>sl_active := sl_standby (slot_of c s), sl_standby := None, sl_retry_timer := None\<rparr>]"
  using assms by (simp_all add: promote_def Let_def)

lemma promote_some:
  assumes "sl_active (slot_of c s) = Some r" "s < length (tc_slots c)" "r < length (tc_links c)" "lk_state (link_of c r) = Open"
    "lk_slot (link_of c r) < length (tc_slots c)"
  shows "tc_links (promote s c) = (tc_links c)[r := retired_link (tc_now c + tc_timeout c) (link_of c r)]"
    "tc_slots (promote s c) = (tc_slots c)[s := (slot_of c s)\<lparr>sl_active := sl_standby (slot_of c s), sl_standby := None,
       sl_retry_timer := None, sl_retiring := sl_retiring (slot_of c s) @ [r]\<rparr>]"
  using assms by (simp_all add: promote_def Let_def retired_link_def slots_closeLink)

lemma on_connected_effect:
  assumes "lk_state (link_of c i) = Connecting" "i < length (tc_links c)"
  defines "s \<equiv> lk_slot (link_of c i)"
  obtains c1 where "scal c1 = scal c" "tc_slots c1 = tc_slots c" "tc_links c1 = (tc_links c)[i := opened_link (link_of c i)]"
    "scal (on_connected i c) = scal c"
    "tc_slots (on_connected i c) = (if sl_standby (slot_of c s) = Some i then tc_slots (promote s c1) else tc_slots c)"
    "tc_links (on_connected i c) = (if sl_standby (slot_of c s) = Some i then tc_links (promote s c1) else tc_links c1)"
proof
  let ?c = "tcp_inc tcp_connections_opened (upd_link i (\<lambda>l. l\<lparr>lk_state := Open, lk_timer := None\<rparr>) c)"
  let ?c1 = "initialAttemptDone i (?c\<lparr>connect_latency := connect_latency ?c @ [word_of_int (tc_now ?c - lk_connect_started (link_of ?c i))]\<rparr>)"
  show l: "tc_links ?c1 = (tc_links c)[i := opened_link (link_of c i)]" using assms by (simp add: opened_link_def)
  show "scal (on_connected i c) = scal c" using assms by (simp add: on_connected_def Let_def)
  show "tc_slots (on_connected i c) = (if sl_standby (slot_of c s) = Some i then tc_slots (promote s ?c1) else tc_slots c)"
    "tc_links (on_connected i c) = (if sl_standby (slot_of c s) = Some i then tc_links (promote s ?c1) else tc_links ?c1)"
    using assms l by (simp_all add: on_connected_def Let_def opened_link_def)
qed simp_all

lemma pool_connected:
  assumes ok: "pool_ok c" and i: "i < length (tc_links c)" and fin: "tc_finished c \<Longrightarrow> lk_state (link_of c i) \<noteq> Connecting"
  shows "pool_ok (on_connected i c)"
proof (cases "lk_state (link_of c i) = Connecting")
  case True
  let ?s = "lk_slot (link_of c i)" and ?l = "opened_link (link_of c i)"
  have s: "?s < connection_count c" "length (tc_slots c) = connection_count c" using pool_basic(1,2) [OF ok] i by simp_all
  note old = slot_okD [OF pool_basic(3) [OF ok s(1)]]
  from True pool_basic(4) [OF ok i] have l: "lk_slot ?l = ?s" "lk_state ?l = Open" "lk_inflight ?l = []" "\<not> lk_initial_pending ?l"
    by (simp_all add: opened_link_def link_ok_def)
  from on_connected_effect [OF True i] obtain c1 where c1: "scal c1 = scal c" "tc_slots c1 = tc_slots c" "tc_links c1 = (tc_links c)[i := ?l]"
    and eff: "scal (on_connected i c) = scal c"
      "tc_slots (on_connected i c) = (if sl_standby (slot_of c ?s) = Some i then tc_slots (promote ?s c1) else tc_slots c)"
      "tc_links (on_connected i c) = (if sl_standby (slot_of c ?s) = Some i then tc_links (promote ?s c1) else tc_links c1)"
    by blast
  show ?thesis
  proof (cases "sl_standby (slot_of c ?s) = Some i")
    case False
    show ?thesis
      by (rule pool_opened [OF ok i eff(1) _ _ refl True False l]) (use False eff c1 in simp_all)
  next
    case standby: True
    show ?thesis
    proof (cases "sl_active (slot_of c ?s)")
      case None
      show ?thesis
        by (rule pool_promoted [OF ok s(1) standby eff(1) _ refl _ _ _ _ l, of "closed_link (link_of c i)"])
           (use None standby eff c1 s i promote_none [of c1 ?s] in simp_all)
    next
      case (Some r)
      have r: "r < length (tc_links c)" "lk_slot (link_of c r) = ?s" "lk_state (link_of c r) = Open" "r \<noteq> i"
        using old(2,3) [OF in_slot_links(1) [OF Some]] old(6) [OF standby Some] True fin by auto
      let ?lr = "retired_link (tc_now c + tc_timeout c) (link_of c r)"
      have lr: "lk_slot ?lr = ?s" "lk_state ?lr = Retiring \<or> lk_state ?lr = Closed" "\<not> lk_initial_pending ?lr"
          "lk_state ?lr = Closed \<longleftrightarrow> lk_inflight ?lr = []" "\<not> expect_echo c \<longrightarrow> lk_inflight ?lr = []"
          "length (lk_inflight ?lr) \<le> max_inflight_per_connection c"
          "lk_state ?lr = Retiring \<longrightarrow> (\<exists>due. lk_timer ?lr = Some due \<and> due \<le> tc_now c + tc_timeout c)"
        using r pool_basic(4) [OF ok r(1)] by (auto simp: retired_link_def link_ok_def)
      show ?thesis
        by (rule pool_promoted [OF ok s(1) standby eff(1) _ refl _ _ _ _ l lr])
           (use Some standby eff c1 s i r promote_some [of c1 ?s r] scalD(4,5) [OF c1(1)] in simp_all)
    qed
  qed
qed (simp add: on_connected_def ok)

subsection \<open>Opening connections\<close>

text \<open>
  A place to which a link or a retry is about to be added: its slot was in order when \<open>p\<close> slots were prepared,
  and at most its retry has been taken since.
\<close>

definition openable :: "TcpBenchmarkClient \<Rightarrow> nat \<Rightarrow> bool" where
  "openable c s \<longleftrightarrow> pool_but s c \<and> s < tc_prepared c \<and> s < connection_count c \<and> \<not> tc_finished c \<and>
     (\<exists>sl p. slot_ok (c\<lparr>tc_prepared := p\<rparr>) s sl \<and>
       sl_active (slot_of c s) = sl_active sl \<and> sl_standby (slot_of c s) = sl_standby sl \<and>
       sl_retiring (slot_of c s) = sl_retiring sl \<and> sl_backoff (slot_of c s) = sl_backoff sl \<and>
       (sl_retry_timer (slot_of c s) = None \<or> sl_retry_timer (slot_of c s) = sl_retry_timer sl)) \<and>
     (\<forall>i < length (tc_links c). lk_slot (link_of c i) = s \<longrightarrow> link_ok c (slot_of c s) i (link_of c i))"

lemma openableD:
  assumes "openable c s"
  defines "sl \<equiv> slot_of c s"
  shows "pool_but s c" "s < tc_prepared c" "s < connection_count c" "\<not> tc_finished c" "s < length (tc_slots c)"
    and "distinct (slot_links sl)"
    and "i \<in> set (slot_links sl) \<Longrightarrow> i < length (tc_links c)" and "i \<in> set (slot_links sl) \<Longrightarrow> lk_slot (link_of c i) = s"
    and "sl_active sl = Some a \<Longrightarrow> active_state c a"
    and "sl_standby sl = Some b \<Longrightarrow> lk_state (link_of c b) = Connecting"
    and "sl_standby sl = Some b \<Longrightarrow> sl_active sl = Some a \<Longrightarrow> lk_state (link_of c a) = Open"
    and "r \<in> set (sl_retiring sl) \<Longrightarrow> lk_state (link_of c r) = Retiring \<or> lk_state (link_of c r) = Closed"
    and "sl_retry_timer sl = Some due \<Longrightarrow> due \<le> tc_now c + MaxBackoff"
    and "InitialBackoff \<le> sl_backoff sl" and "sl_backoff sl \<le> MaxBackoff"
    and "i < length (tc_links c) \<Longrightarrow> lk_slot (link_of c i) = s \<Longrightarrow> link_ok c sl i (link_of c i)"
proof -
  obtain sl' p where sl': "slot_ok (c\<lparr>tc_prepared := p\<rparr>) s sl'" and
    eq: "sl_active sl = sl_active sl'" "sl_standby sl = sl_standby sl'" "sl_retiring sl = sl_retiring sl'"
      "sl_backoff sl = sl_backoff sl'" "sl_retry_timer sl = None \<or> sl_retry_timer sl = sl_retry_timer sl'"
    using assms unfolding openable_def by blast
  have links: "slot_links sl = slot_links sl'" by (simp add: slot_links_def eq)
  note old = slot_okD [OF sl']
  show "pool_but s c" "s < tc_prepared c" "s < connection_count c" "\<not> tc_finished c"
    using assms by (simp_all add: openable_def)
  then show "s < length (tc_slots c)" by (simp add: pool_but_def)
  show "i < length (tc_links c) \<Longrightarrow> lk_slot (link_of c i) = s \<Longrightarrow> link_ok c sl i (link_of c i)"
    using assms by (simp add: openable_def)
  show "distinct (slot_links sl)" "i \<in> set (slot_links sl) \<Longrightarrow> i < length (tc_links c)"
    "i \<in> set (slot_links sl) \<Longrightarrow> lk_slot (link_of c i) = s"
    unfolding links using old(1-3) by simp_all
  show "sl_active sl = Some a \<Longrightarrow> active_state c a" using old(4) by (simp add: eq active_state_def)
  show "sl_standby sl = Some b \<Longrightarrow> lk_state (link_of c b) = Connecting"
    "sl_standby sl = Some b \<Longrightarrow> sl_active sl = Some a \<Longrightarrow> lk_state (link_of c a) = Open"
    "r \<in> set (sl_retiring sl) \<Longrightarrow> lk_state (link_of c r) = Retiring \<or> lk_state (link_of c r) = Closed"
    "InitialBackoff \<le> sl_backoff sl" "sl_backoff sl \<le> MaxBackoff"
    using old(5-7,13,14) \<open>\<not> tc_finished c\<close> by (simp_all add: eq)
  show "sl_retry_timer sl = Some due \<Longrightarrow> due \<le> tc_now c + MaxBackoff" using old(12) eq(5) by auto
qed

lemma pool_retry:
  assumes "openable c s"
  shows "pool_ok (scheduleRetry s c)"
proof (rule pool_frame [OF openableD(1) [OF assms], of "scheduleRetry s c"])
  note op = openableD [OF assms]
  let ?sl = "retried (tc_finished c) (tc_now c) (slot_of c s)"
  have new: "slot_of (scheduleRetry s c) s = ?sl" using op(5) by simp
  note b = retried_backoff [OF op(13-15)]
  have "slot_ok (scheduleRetry s c) s ?sl"
    unfolding slot_ok_def active_state_def scalD [OF scal_basic(5)] retried_simps links_basic
    using op(2-4,6-8,10-12) op(9) [unfolded active_state_def] b by auto
  moreover have "link_ok (scheduleRetry s c) ?sl j (link_of c j)" if "j < length (tc_links c)" "lk_slot (link_of c j) = s" for j
    using op(16) [OF that] by (simp add: link_ok_def scalD [OF scal_basic(5)])
  ultimately show "place_ok (scheduleRetry s c) s" unfolding place_ok_def new links_basic by blast
  show "s < connection_count c" by (rule op(3))
qed simp_all

lemma openable_inc [simp]: "openable (tcp_inc k c) s = openable c s"
proof -
  have "slot_ok ((tcp_inc k c)\<lparr>tc_prepared := p\<rparr>) s sl = slot_ok (c\<lparr>tc_prepared := p\<rparr>) s sl" for sl p
    by (simp add: slot_ok_def active_state_def tcp_inc_def)
  moreover have "pool_but s (tcp_inc k c) = pool_but s c"
    by (simp add: pool_but_def place_ok_def slot_ok_def active_state_def link_ok_def tcp_inc_def)
  ultimately show ?thesis by (simp add: openable_def link_ok_def scalD [OF scal_basic(1)])
qed

definition new_link :: "nat \<Rightarrow> bool \<Rightarrow> nanos \<Rightarrow> nanos \<Rightarrow> Link" where
  "new_link s initial now due =
     \<lparr>lk_slot = s, lk_state = Connecting, lk_initial = initial, lk_initial_pending = initial, lk_inflight = [],
      lk_received = [], lk_write_blocked = False, lk_sent = 0, lk_connect_started = now, lk_timer = Some due,
      lk_deleted = False\<rparr>"

lemma open_link_effect:
  "scal (open_link host s role initial c) = scal c"
  "tc_links (open_link True s role initial c) = tc_links c @ [new_link s initial (tc_now c) (tc_now c + tc_timeout c)]"
  "tc_slots (open_link True s role initial c) =
     (tc_slots c)[s := if role = RoleStandby then (slot_of c s)\<lparr>sl_standby := Some (length (tc_links c))\<rparr>
                       else (slot_of c s)\<lparr>sl_active := Some (length (tc_links c))\<rparr>]"
  by (simp_all add: open_link_def Let_def new_link_def)

lemma pool_open:
  assumes op: "openable c s" and free: "sl_standby (slot_of c s) = None"
    and role: "role = RoleActive \<and> sl_active (slot_of c s) = None \<or>
      role = RoleStandby \<and> (\<exists>a. sl_active (slot_of c s) = Some a \<and> lk_state (link_of c a) = Open)"
  shows "pool_ok (open_link host s role initial c)"
proof (cases host)
  case False
  then show ?thesis using pool_retry [of "tcp_inc tcp_connect_failures c" s] op by (simp add: open_link_def)
next
  case True
  note op = openableD [OF op]
  let ?c = "open_link True s role initial c" and ?n = "length (tc_links c)" and ?sl = "slot_of c s"
  let ?l = "new_link s initial (tc_now c) (tc_now c + tc_timeout c)"
  let ?sl' = "if role = RoleStandby then ?sl\<lparr>sl_standby := Some ?n\<rparr> else ?sl\<lparr>sl_active := Some ?n\<rparr>"
  note eff = open_link_effect(1) [of True s role initial c] open_link_effect(2,3) [of s role initial c]
  have nth: "link_of ?c j = (if j = ?n then ?l else link_of c j)" if "j < Suc ?n" for j
    using that by (auto simp: eff(2) nth_append)
  have fresh: "?n \<notin> set (slot_links ?sl)" using op(7) by blast
  have ids: "set (slot_links ?sl') = insert ?n (set (slot_links ?sl))" "distinct (slot_links ?sl')"
    using role free fresh op(6) by (auto simp: slot_links_def split: option.splits)
  have new: "slot_of ?c s = ?sl'" using op(5) by (simp add: eff(3))
  have in_range: "i < ?n \<and> i \<noteq> ?n" if "i \<in> set (slot_links ?sl)" for i using op(7) [OF that] by simp
  have slot: "slot_ok ?c s ?sl'"
    unfolding slot_ok_def scalD [OF eff(1)]
  proof (intro conjI allI ballI impI)
    fix j assume "j \<in> set (slot_links ?sl')"
    then show "j < length (tc_links ?c)" "lk_slot (link_of ?c j) = s"
      using ids(1) in_range [of j] op(8) [of j] nth [of j] by (auto simp: eff(2) new_link_def)
  next
    fix a assume "sl_active ?sl' = Some a"
    then show "active_state ?c a"
      using role op(4) op(9) [of a] nth [of a] in_range [OF in_slot_links(1), of a]
      by (auto simp: new_link_def active_state_def scalD [OF eff(1)])
  next
    fix b assume "sl_standby ?sl' = Some b"
    then have b: "b = ?n" "role = RoleStandby" using free by (auto split: if_splits)
    show "lk_state (link_of ?c b) = Connecting" using b nth [of b] by (simp add: new_link_def)
    show "tc_finished c \<or> lk_state (link_of ?c a) = Open" if "sl_active ?sl' = Some a" for a
      using that role b nth [of a] in_range [OF in_slot_links(1), of a] by auto
  next
    fix r assume "r \<in> set (sl_retiring ?sl')"
    then have "r \<in> set (sl_retiring ?sl)" by (simp split: if_splits)
    then show "lk_state (link_of ?c r) = Retiring \<or> lk_state (link_of ?c r) = Closed"
      using op(12) [of r] nth [of r] in_range [OF in_slot_links(3), of r] by simp
  qed (use ids(2) op(2,4,13-15) role in \<open>auto split: if_splits\<close>)
  have link: "link_ok ?c ?sl' j (link_of ?c j)" if "j < length (tc_links ?c)" "lk_slot (link_of ?c j) = s" for j
  proof (cases "j = ?n")
    case False
    then have "j < ?n" "link_of ?c j = link_of c j" using that nth [of j] by (simp_all add: eff(2))
    then show ?thesis using op(16) [of j] that(2) ids(1) by (simp add: link_ok_def scalD [OF eff(1)])
  qed (use nth [of j] ids(1) in \<open>simp add: link_ok_def new_link_def scalD [OF eff(1)]\<close>)
  have "pool_ok ?c"
  proof (rule pool_frame [OF op(1) eff(1)])
    show "place_ok ?c s" unfolding place_ok_def new using slot link by blast
    show "s < connection_count c" by (rule op(3))
  qed (auto simp: eff nth_append new_link_def)
  with True show ?thesis by simp
qed

lemma openable_ok:
  assumes op: "openable c s" and filled: "sl_active (slot_of c s) \<noteq> None \<or> sl_standby (slot_of c s) \<noteq> None"
  shows "pool_ok c"
proof -
  note op = openableD [OF op]
  have "slot_ok c s (slot_of c s)"
    unfolding slot_ok_def using op(2,4,6-15) filled by auto
  then have "place_ok c s" unfolding place_ok_def using op(16) by blast
  then show ?thesis using op(1,3) by (auto simp: pool_ok_def pool_but_def)
qed

lemma ok_openable:
  assumes "pool_ok c" "s < tc_prepared c" "\<not> tc_finished c"
  shows "openable c s"
proof -
  have s: "s < connection_count c" using assms(1,2) by (simp add: pool_ok_def)
  have "c\<lparr>tc_prepared := tc_prepared c\<rparr> = c" by simp
  then show ?thesis
    using pool_but [OF assms(1)] assms(2,3) s pool_basic(3) [OF assms(1) s] pool_basic(4) [OF assms(1)]
    unfolding openable_def by metis
qed

lemma pool_connectNext:
  assumes op: "openable c s"
  shows "pool_ok (connectNext host s c)"
proof (cases "sl_active (slot_of c s)")
  case None
  then show ?thesis using pool_open [OF op] openable_ok [OF op] openableD(4) [OF op]
    by (auto simp: connectNext_def)
next
  case (Some a)
  then show ?thesis using pool_open [OF op] openable_ok [OF op] openableD(4) [OF op]
    by (auto simp: connectNext_def)
qed

lemma openable_retry:
  assumes ok: "pool_ok c" and s: "s < tc_prepared c" "\<not> tc_finished c"
  shows "openable (upd_slot s (\<lambda>sl. sl\<lparr>sl_retry_timer := None, sl_last_retry := t\<rparr>) c) s" (is "openable ?c s")
proof -
  have sc: "s < connection_count c" "length (tc_slots c) = connection_count c" using ok s by (simp_all add: pool_ok_def)
  have slot: "slot_of ?c s = (slot_of c s)\<lparr>sl_retry_timer := None, sl_last_retry := t\<rparr>" using sc by simp
  have sl: "slot_links (slot_of ?c s) = slot_links (slot_of c s)" unfolding slot by (simp add: slot_links_def)
  have eq: "slot_ok ?c s' sl = slot_ok c s' sl" "link_ok ?c sl j l = link_ok c sl j l" for s' sl j l
    by (simp_all add: slot_ok_def active_state_def link_ok_def upd_slot_def)
  have "pool_but s ?c" using pool_but [OF ok, of s]
    by (simp add: pool_but_def place_ok_def eq scalD [OF scal_basic(2)])
  moreover have "slot_ok (?c\<lparr>tc_prepared := tc_prepared c\<rparr>) s (slot_of c s)"
    using pool_basic(3) [OF ok sc(1)] by (simp add: slot_ok_def active_state_def upd_slot_def)
  moreover have "link_ok ?c (slot_of ?c s) i (link_of ?c i)"
    if "i < length (tc_links ?c)" "lk_slot (link_of ?c i) = s" for i
    using that pool_basic(4) [OF ok, of i] unfolding eq(2) link_ok_def sl by (simp add: scalD [OF scal_basic(2)])
  ultimately show ?thesis unfolding openable_def using s sc slot
    by (intro conjI exI [of _ "slot_of c s"] exI [of _ "tc_prepared c"] allI impI) (simp_all add: scalD [OF scal_basic(2)])
qed

lemma pool_on_retry:
  assumes "pool_ok c" "s < connection_count c" "sl_retry_timer (slot_of c s) \<noteq> None" "s < tc_prepared c"
  shows "pool_ok (on_retry host s c)"
proof -
  have "\<not> tc_finished c" using slot_okD(8) [OF pool_basic(3) [OF assms(1,2)]] assms(3) by blast
  then show ?thesis unfolding on_retry_def by (intro pool_connectNext openable_retry assms)
qed

lemma scal_send [simp]: "scal (send_message a request c) = scal c"
  by (simp add: send_message_def Let_def)

lemma slots_send [simp]: "tc_slots (send_message a request c) = tc_slots c"
  by (simp add: send_message_def Let_def)

lemma pool_send:
  assumes ok: "pool_ok c" and a: "a < length (tc_links c)" "lk_state (link_of c a) = Open"
    and room: "length (lk_inflight (link_of c a)) < max_inflight_per_connection c"
  shows "pool_ok (send_message a request c)"
proof -
  let ?m = "\<lparr>sent_at = tc_now c, callback_of = request\<rparr>"
  let ?l = "(link_of c a)\<lparr>lk_inflight := (if expect_echo c then lk_inflight (link_of c a) @ [?m] else lk_inflight (link_of c a)),
    lk_sent := lk_sent (link_of c a) + 1\<rparr>"
  have "tc_links (send_message a request c) = (tc_links c)[a := ?l]" using a by (simp add: send_message_def Let_def)
  then show ?thesis
    by (rule pool_link [OF ok a(1) scal_send slots_send]) (use a room pool_basic(4) [OF ok a(1)] in \<open>auto simp: link_ok_def\<close>)
qed

lemma pool_request:
  assumes ok: "pool_ok c" and prep: "tc_prepared c = connection_count c" and turn: "next_slot c < connection_count c"
  shows "pool_ok (tcp_tryStartRequest host c)"
proof -
  let ?s = "next_slot c"
  let ?c0 = "c\<lparr>next_slot := (next_slot c + 1) mod connection_count c, tc_started := tc_started c + 1\<rparr>"
  have ok0: "pool_ok ?c0" by (rule pool_same [OF ok]) simp_all
  have posted: "pool_ok (d\<lparr>tc_posted := po\<rparr>)" if "pool_ok d" for d po by (rule pool_same [OF that]) simp_all
  show ?thesis
  proof (cases "sl_active (slot_of c ?s)")
    case None
    then show ?thesis using ok0 posted by (simp add: tcp_tryStartRequest_def Let_def)
  next
    case (Some a)
    have a: "a < length (tc_links c)" by (rule slot_okD(2) [OF pool_basic(3) [OF ok turn] in_slot_links(1) [OF Some]])
    show ?thesis
    proof (cases "lk_state (link_of c a) \<noteq> Open \<or> lk_write_blocked (link_of c a) \<or>
        length (lk_inflight (link_of c a)) \<ge> max_inflight_per_connection c")
      case True
      then show ?thesis using Some ok0 posted by (auto simp: tcp_tryStartRequest_def Let_def)
    next
      case False
      let ?c1 = "send_message a (tc_started c) ?c0"
      have ok1: "pool_ok ?c1" by (rule pool_send [OF ok0]) (use False a in simp_all)
      have scal1: "scal ?c1 = scal c" by simp
      have "pool_ok (connectNext host ?s ?c1)"
      proof (cases "tc_finished c")
        case True
        then show ?thesis using ok1 scalD(2) [OF scal1] by (simp add: connectNext_def)
      next
        case unfinished: False
        then have "openable ?c1 ?s" using ok_openable [OF ok1, of ?s] scalD(2,3) [OF scal1] prep turn by simp
        then show ?thesis by (rule pool_connectNext)
      qed
      then show ?thesis using Some False ok1 by (simp add: tcp_tryStartRequest_def Let_def)
    qed
  qed
qed

lemma open_link_prepared:
  "(open_link host s role initial c)\<lparr>tc_prepared := p\<rparr> = open_link host s role initial (c\<lparr>tc_prepared := p\<rparr>)"
  by (simp add: open_link_def Let_def scheduleRetry_def tcp_inc_def upd_slot_def split: option.split)

lemma pool_prepare_open:
  assumes ok: "pool_ok c" and more: "tc_prepared c < connection_count c" "\<not> tc_finished c"
  shows "pool_ok (prepare_open host c)"
proof -
  let ?s = "tc_prepared c"
  let ?c = "c\<lparr>tc_prepared := Suc ?s\<rparr>"
  have place: "slot_ok c ?s (slot_of c ?s)"
      "\<forall>i < length (tc_links c). lk_slot (link_of c i) = ?s \<longrightarrow> link_ok c (slot_of c ?s) i (link_of c i)"
    using ok more(1) by (auto simp: pool_ok_def place_ok_def)
  note slot = place(1)
  have free: "sl_active (slot_of c ?s) = None" "sl_standby (slot_of c ?s) = None" using slot_okD(10,11) [OF slot] by simp_all
  have link: "link_ok ?c sl i l = link_ok c sl i l" for sl i l by (simp add: link_ok_def)
  have "place_ok ?c s'" if "place_ok c s'" "s' \<noteq> ?s" for s'
  proof -
    have "(tc_prepared ?c \<le> s') = (tc_prepared c \<le> s')" using that(2) by auto
    then have "slot_ok ?c s' sl = slot_ok c s' sl" for sl unfolding slot_ok_def active_state_def by simp
    then show ?thesis using that(1) by (simp add: place_ok_def link)
  qed
  then have but: "pool_but ?s ?c" using ok more by (simp add: pool_ok_def pool_but_def)
  have "c\<lparr>tc_prepared := ?s\<rparr> = c" by simp
  then have "slot_ok (?c\<lparr>tc_prepared := ?s\<rparr>) ?s (slot_of c ?s)" using slot by simp
  then have "openable ?c ?s" unfolding openable_def
    using but more place(2)
    by (intro conjI exI [of _ "slot_of c ?s"] exI [of _ ?s]) (simp_all add: link)
  from pool_open [OF this, of RoleActive host True] free show ?thesis
    unfolding prepare_open_def open_link_prepared Suc_eq_plus1 [symmetric] by simp
qed

text \<open>Once the client has finished nothing is connecting.\<close>

definition quiet :: "TcpBenchmarkClient \<Rightarrow> bool" where
  "quiet c \<longleftrightarrow> (\<forall>i < length (tc_links c). lk_state (link_of c i) \<noteq> Connecting)"

lemma in_links:
  assumes ok: "pool_ok c" and i: "i < length (tc_links c)" and st: "lk_state (link_of c i) \<noteq> Closed"
  shows "i \<in> set (links c)"
proof -
  have "lk_slot (link_of c i) < length (tc_slots c)" "i \<in> set (slot_links (slot_of c (lk_slot (link_of c i))))"
    using pool_basic(1,2,4) [OF ok] i st by (auto simp: link_ok_def)
  then show ?thesis unfolding links_def by (auto intro!: bexI [OF _ nth_mem])
qed

lemma links_range:
  assumes ok: "pool_ok c" and i: "i \<in> set (links c)"
  shows "i < length (tc_links c)"
proof -
  obtain sl where "sl \<in> set (tc_slots c)" "i \<in> set (slot_links sl)" using i by (auto simp: links_def)
  then obtain s where "s < length (tc_slots c)" "i \<in> set (slot_links (slot_of c s))" by (auto simp: in_set_conv_nth [of sl])
  then show ?thesis using slot_okD(2) [OF pool_basic(3) [OF ok]] pool_basic(1) [OF ok] by simp
qed

lemma pool_close_connecting:
  assumes "pool_ok c" "tc_finished c" "set is \<subseteq> {..<length (tc_links c)}"
  shows "pool_ok (close_connecting is c) \<and> scal (close_connecting is c) = scal c \<and>
    length (tc_links (close_connecting is c)) = length (tc_links c) \<and>
    (\<forall>j. lk_state (link_of (close_connecting is c) j) = Connecting \<longrightarrow> lk_state (link_of c j) = Connecting \<and> (j < length (tc_links c) \<longrightarrow> j \<notin> set is))"
  using assms
proof (induction "is" c rule: close_connecting.induct)
  case (2 i "is" c)
  let ?c = "if lk_state (link_of c i) = Connecting then closeLink i NoFlush c else c"
  have i: "i < length (tc_links c)" using 2(4) by simp
  have ok: "pool_ok ?c" using pool_close_retry [OF 2(2) i, of c "link_of c i" False] 2(2,3) by simp
  have fin: "tc_finished ?c" "set is \<subseteq> {..<length (tc_links ?c)}" using 2(3,4) by auto
  have step: "lk_state (link_of ?c j) = Connecting \<Longrightarrow> lk_state (link_of c j) = Connecting \<and> j \<noteq> i" for j
    using i by (auto simp: nth_list_update split: if_splits)
  from 2(1) [OF ok fin] have IH: "pool_ok (close_connecting is ?c)" "scal (close_connecting is ?c) = scal ?c"
      "length (tc_links (close_connecting is ?c)) = length (tc_links ?c)"
      "\<And>j. lk_state (link_of (close_connecting is ?c) j) = Connecting \<Longrightarrow>
        lk_state (link_of ?c j) = Connecting \<and> (j < length (tc_links ?c) \<longrightarrow> j \<notin> set is)"
    by blast+
  have same: "length (tc_links ?c) = length (tc_links c)" "scal ?c = scal c" by simp_all
  show ?case unfolding close_connecting.simps
  proof (intro conjI allI impI)
    fix j assume *: "lk_state (link_of (close_connecting is ?c) j) = Connecting"
    show "lk_state (link_of c j) = Connecting" using IH(4) [OF *] step [of j] by blast
    show "j \<notin> set (i # is)" if "j < length (tc_links c)" using IH(4) [OF *] step [of j] same(1) that by simp
  qed (use IH(1-3) same in simp_all)
qed simp

lemma pool_finishing:
  assumes ok: "pool_ok c"
  shows "pool_ok (c\<lparr>tc_finished := True, tc_slots := map (\<lambda>sl. sl\<lparr>sl_retry_timer := None\<rparr>) (tc_slots c)\<rparr>)" (is "pool_ok ?c")
proof -
  have "place_ok ?c s" if "s < connection_count c" for s
  proof -
    have s: "slot_of ?c s = (slot_of c s)\<lparr>sl_retry_timer := None\<rparr>" using that pool_basic(1) [OF ok] by simp
    have sl: "slot_links (slot_of ?c s) = slot_links (slot_of c s)" unfolding s by (simp add: slot_links_def)
    have place: "place_ok c s" using ok that by (simp add: pool_ok_def)
    note old = slot_okD [OF place [unfolded place_ok_def, THEN conjunct1]]
    have "slot_ok ?c s (slot_of ?c s)"
      unfolding slot_ok_def sl using old(1-5,7,10,11,13-15) unfolding s active_state_def by auto
    moreover have "link_ok ?c (slot_of ?c s) i l = link_ok c (slot_of c s) i l" for i l
      unfolding link_ok_def sl by simp
    ultimately show ?thesis using place by (simp add: place_ok_def)
  qed
  then show ?thesis using ok by (simp add: pool_ok_def)
qed

lemma pool_close_drained:
  assumes "pool_ok c" "tc_finished c" "quiet c" "set is \<subseteq> {..<length (tc_links c)}"
  shows "pool_ok (close_drained is c) \<and> scal (close_drained is c) = scal c \<and> quiet (close_drained is c) \<and>
    length (tc_links (close_drained is c)) = length (tc_links c) \<and>
    (\<forall>j < length (tc_links c). j \<in> set is \<or> lk_state (link_of c j) = Closed \<longrightarrow> lk_state (link_of (close_drained is c) j) = Closed)"
  using assms
proof (induction "is" c rule: close_drained.induct)
  case (2 i "is" c)
  let ?c = "closeLink i FlushWrite (if lk_inflight (link_of c i) \<noteq> [] then tcp_inc tcp_drain_incomplete c else c)"
  have i: "i < length (tc_links c)" using 2(5) by simp
  have links: "tc_links ?c = (if lk_state (link_of c i) = Closed then tc_links c else (tc_links c)[i := closed_link (link_of c i)])"
    by simp
  have slots: "tc_slots ?c = tc_slots c" using i pool_basic(1,2) [OF 2(2)] by (simp add: slots_closeLink)
  have scal: "scal ?c = scal c" by simp
  have out: "sl_standby (slot_of c (lk_slot (link_of c i))) \<noteq> Some i"
    using slot_okD(5) [OF pool_basic(3) [OF 2(2) pool_basic(2) [OF 2(2) i]], of i] 2(4) i by (auto simp: quiet_def)
  have ok: "pool_ok ?c"
  proof (cases "lk_state (link_of c i) = Closed")
    case True
    then show ?thesis by (intro pool_same [OF 2(2) scal slots]) simp
  next
    case False
    show ?thesis
      by (rule pool_shut [OF 2(2) i scal slots _ refl, of "closed_link (link_of c i)"]) (use False out 2(3) in simp_all)
  qed
  have q: "quiet ?c" "tc_finished ?c" using 2(3,4) scalD(2) [OF scal] i unfolding quiet_def links by (auto simp: nth_list_update)
  have len: "length (tc_links ?c) = length (tc_links c)" unfolding links by simp
  have sub: "set is \<subseteq> {..<length (tc_links ?c)}" using 2(5) len by simp
  have closed: "lk_state (link_of ?c j) = Closed" if "j = i \<or> lk_state (link_of c j) = Closed" for j
    using that i unfolding links by (auto simp: nth_list_update)
  from 2(1) [OF ok q(2,1) sub] show ?case
    unfolding close_drained.simps using closed len scal by auto
qed simp

subsection \<open>Steps of the client\<close>

definition ctl :: "TcpBenchmarkClient \<Rightarrow> WaitingFor \<times> nat \<times> string \<times> bool" where
  "ctl c = (waiting_for c, next_slot c, tc_message c, tc_measure_latencies c)"

lemma ctlD:
  assumes "ctl c' = ctl c"
  shows "waiting_for c' = waiting_for c" "next_slot c' = next_slot c" "tc_message c' = tc_message c"
    "tc_measure_latencies c' = tc_measure_latencies c"
  using assms by (simp_all add: ctl_def)

lemma ctl_basic [simp]:
  "ctl (tcp_inc k c) = ctl c" "ctl (upd_slot s g c) = ctl c" "ctl (upd_link i f c) = ctl c"
  "ctl (maybeExitWaitLoop c) = ctl c" "ctl (scheduleRetry s c) = ctl c" "ctl (snd (release i c)) = ctl c"
  "ctl (initialAttemptDone i c) = ctl c" "ctl (c\<lparr>message_latency := ml\<rparr>) = ctl c" "ctl (c\<lparr>connect_latency := ml\<rparr>) = ctl c"
  "ctl (c\<lparr>tc_callbacks := cb\<rparr>) = ctl c" "ctl (c\<lparr>tc_posted := po\<rparr>) = ctl c" "ctl (c\<lparr>tc_started := n\<rparr>) = ctl c"
  by (simp_all add: ctl_def tcp_inc_def upd_slot_def upd_link_def maybeExitWaitLoop_def scheduleRetry_def release_def
      initialAttemptDone_def Let_def split: WaitingFor.split)

lemma ctl_ops [simp]:
  "ctl (complete_messages success ms c) = ctl c" "ctl (completeInflight i success c) = ctl c"
  "ctl (on_close_event i c) = ctl c" "ctl (closeLink i type c) = ctl c" "ctl (onEchoMismatch i c) = ctl c"
  "ctl (onEcho i bytes c) = ctl c" "ctl (open_link host s role initial c) = ctl c" "ctl (connectNext host s c) = ctl c"
  "ctl (promote s c) = ctl c" "ctl (on_connected i c) = ctl c" "ctl (on_link_timer i c) = ctl c" "ctl (send_message a q c) = ctl c"
proof -
  show *: "ctl (complete_messages success ms c) = ctl c" for success ms c
    by (induction success ms c rule: complete_messages.induct) (simp_all add: Let_def)
  show **: "ctl (completeInflight i success c) = ctl c" for i success c by (simp add: completeInflight_def *)
  show e: "ctl (on_close_event i c) = ctl c" for c by (simp add: on_close_event_def Let_def case_prod_beta **)
  show cl: "ctl (closeLink i type c) = ctl c" for i type c by (simp add: closeLink_def Let_def ** on_close_event_def case_prod_beta)
  show mm: "ctl (onEchoMismatch i c) = ctl c" by (simp add: onEchoMismatch_def Let_def cl)
  show "ctl (onEcho i bytes c) = ctl c" by (simp add: onEcho_def Let_def cl mm split: list.split)
  show op: "ctl (open_link host s role initial c) = ctl c" for role initial c
    by (simp add: open_link_def Let_def) (simp add: ctl_def upd_slot_def)
  show "ctl (connectNext host s c) = ctl c" by (simp add: connectNext_def op split: option.split)
  show pr: "ctl (promote s c) = ctl c" for s c by (simp add: promote_def Let_def cl split: option.split)
  show "ctl (on_connected i c) = ctl c" by (simp add: on_connected_def Let_def pr)
  show "ctl (on_link_timer i c) = ctl c" by (simp add: on_link_timer_def cl split: TcpState.split)
  show "ctl (send_message a q c) = ctl c" by (simp add: send_message_def Let_def)
qed

lemma scal_ops [simp]:
  "scal (onEcho i bytes c) = scal c" "scal (open_link host s role initial c) = scal c" "scal (connectNext host s c) = scal c"
  "scal (on_connected i c) = scal c" "scal (on_link_timer i c) = scal c"
  by (simp_all add: onEcho_def on_connected_def on_link_timer_def connectNext_def open_link_effect(1) Let_def
      split: list.split option.split TcpState.split)

lemma loop_frame: "scal (echo_loop i c) = scal c \<and> ctl (echo_loop i c) = ctl c"
proof (induction i c rule: echo_loop.induct)
  case (1 i c)
  then show ?case by (subst (1 2) echo_loop.simps) (simp add: Let_def)
qed

text \<open>What may happen to the links of a client that has finished: they only close.\<close>

definition calm :: "TcpBenchmarkClient \<Rightarrow> TcpBenchmarkClient \<Rightarrow> bool" where
  "calm c c' \<longleftrightarrow> length (tc_links c') = length (tc_links c) \<and>
     (\<forall>j < length (tc_links c). lk_state (link_of c' j) = lk_state (link_of c j) \<or> lk_state (link_of c' j) = Closed)"

lemma calm_trans: "calm c d \<Longrightarrow> calm d e \<Longrightarrow> calm c e"
  unfolding calm_def by metis

lemma calm_update:
  "tc_links c' = (tc_links c)[i := l] \<Longrightarrow> lk_state l = lk_state (link_of c i) \<or> lk_state l = Closed \<Longrightarrow> calm c c'"
  unfolding calm_def by (metis length_list_update nth_list_update_eq nth_list_update_neq)

lemma calm_same: "tc_links c' = tc_links c \<Longrightarrow> calm c c'"
  by (simp add: calm_def)

lemma calm_links: "tc_links d = tc_links e \<Longrightarrow> calm c d = calm c e"
  by (simp add: calm_def)

lemma calm_send: "calm c (send_message a q c)"
  by (cases "a < length (tc_links c)")
    (simp_all add: send_message_def Let_def calm_def nth_list_update list_update_beyond)

lemma calm_echo: "calm c (onEcho i bytes c)"
proof -
  have mm: "calm c (onEchoMismatch i c)"
    by (cases "lk_state (link_of c i) = Closed") (auto intro: calm_same calm_update)
  show ?thesis
  proof (cases "lk_inflight (link_of c i)")
    case (Cons m ms)
    then have "tc_links (onEcho i bytes c) = tc_links (onEchoMismatch i c) \<or>
        tc_links (onEcho i bytes c) = (tc_links c)[i := (link_of c i)\<lparr>lk_inflight := ms\<rparr>] \<or>
        tc_links (onEcho i bytes c) = (tc_links c)[i := closed_link ((link_of c i)\<lparr>lk_inflight := ms\<rparr>)]"
      by (cases "i < length (tc_links c)") (simp_all add: onEcho_def Let_def list_update_beyond)
    then show ?thesis
    proof (elim disjE)
      assume "tc_links (onEcho i bytes c) = tc_links (onEchoMismatch i c)"
      then show ?thesis using mm calm_links by metis
    qed (erule calm_update, simp)+
  qed (use mm in \<open>simp add: onEcho_def\<close>)
qed

lemma calm_loop: "calm c (echo_loop i c)"
proof (induction i c rule: echo_loop.induct)
  case (1 i c)
  let ?n = "length (tc_message c)" and ?r = "lk_received (link_of c i)"
  let ?c = "upd_link i (\<lambda>l. l\<lparr>lk_received := drop ?n ?r\<rparr>) c"
  have "calm c ?c" by (rule calm_update [of _ _ i "(link_of c i)\<lparr>lk_received := drop ?n ?r\<rparr>"]) simp_all
  moreover note calm_echo [of ?c i "take ?n ?r"]
  ultimately have "calm c (onEcho i (take ?n ?r) ?c)" by (rule calm_trans)
  with 1 show ?case by (subst echo_loop.simps) (auto simp: Let_def calm_same intro: calm_trans)
qed

definition tcp_ok :: "TcpBenchmarkClient \<Rightarrow> bool" where
  "tcp_ok c \<longleftrightarrow> pool_ok c \<and> next_slot c < connection_count c \<and> (waiting_for c = WaitEchoes \<longrightarrow> tc_finished c) \<and>
     (tc_finished c \<longrightarrow> quiet c \<and> waiting_for c \<noteq> WaitOpens) \<and>
     (tc_finished c \<and> waiting_for c = WaitNothing \<longrightarrow> (\<forall>i < length (tc_links c). lk_state (link_of c i) = Closed))"

lemma tcp_okI:
  assumes "tcp_ok c" "pool_ok c'" "scal c' = scal c" "waiting_for c' = waiting_for c" "next_slot c' < connection_count c"
    and "tc_finished c \<Longrightarrow> calm c c'"
  shows "tcp_ok c'"
proof (cases "tc_finished c")
  case True
  with assms(6) have *: "length (tc_links c') = length (tc_links c)"
    "\<And>j. j < length (tc_links c) \<Longrightarrow> lk_state (link_of c' j) = lk_state (link_of c j) \<or> lk_state (link_of c' j) = Closed"
    by (auto simp: calm_def)
  then have "quiet c \<Longrightarrow> quiet c'" unfolding quiet_def by fastforce
  then show ?thesis using assms(1,2,4,5) * scalD(1,2) [OF assms(3)] True by (auto simp: tcp_ok_def)
qed (use assms(1,2,4,5) scalD(1,2) [OF assms(3)] in \<open>simp add: tcp_ok_def\<close>)

lemma tcp_okI':
  assumes "tcp_ok c" "pool_ok c'" "scal c' = scal c" "ctl c' = ctl c" "tc_finished c \<Longrightarrow> calm c c'"
  shows "tcp_ok c'"
  by (rule tcp_okI [OF assms(1-3) ctlD(1) [OF assms(4)] _ assms(5)])
     (use assms(1) ctlD(2) [OF assms(4)] in \<open>simp_all add: tcp_ok_def\<close>)

lemma calm_close_event: "calm c (on_close_event i c)"
  by (rule calm_update [of _ _ i "closed_link (link_of c i)"]) simp_all

lemma tcp_ok_events:
  assumes ok: "tcp_ok c" and i: "i < length (tc_links c)"
  shows "tcp_ok (on_connected i c)" "tcp_ok (on_close_event i c)" "tcp_ok (onData i data c)" "tcp_ok (onWriteBlocked i blocked c)"
    "tcp_ok (on_link_timer i (upd_link i (\<lambda>l. l\<lparr>lk_timer := None\<rparr>) c))"
proof -
  have pool: "pool_ok c" and q: "tc_finished c \<Longrightarrow> lk_state (link_of c i) \<noteq> Connecting"
    using ok i by (auto simp: tcp_ok_def quiet_def)
  show "tcp_ok (on_connected i c)"
  proof (rule tcp_okI' [OF ok pool_connected [OF pool i q]])
    show "calm c (on_connected i c)" if "tc_finished c" using q [OF that] by (simp add: on_connected_def calm_same)
  qed simp_all
  show "tcp_ok (on_close_event i c)"
    by (rule tcp_okI' [OF ok pool_close_event [OF pool i]]) (simp_all add: calm_close_event)
  have "calm c (onData i data c)"
    unfolding onData_def
    using calm_trans [OF calm_update [of "upd_link i (\<lambda>l. l\<lparr>lk_received := lk_received l @ data\<rparr>) c" c i
          "(link_of c i)\<lparr>lk_received := lk_received (link_of c i) @ data\<rparr>"] calm_loop]
    by (simp add: calm_same)
  then show "tcp_ok (onData i data c)"
    by (intro tcp_okI' [OF ok pool_data [OF pool i]]) (simp_all add: onData_def loop_frame)
  show "tcp_ok (onWriteBlocked i blocked c)"
    by (rule tcp_okI' [OF ok pool_blocked [OF pool i]])
       (auto simp: onWriteBlocked_def intro!: calm_update [of _ c i "(link_of c i)\<lparr>lk_write_blocked := blocked\<rparr>"])
  let ?c = "upd_link i (\<lambda>l. l\<lparr>lk_timer := None\<rparr>) c"
  have "tc_links (on_link_timer i ?c) = (tc_links c)[i := (link_of c i)\<lparr>lk_timer := None\<rparr>] \<or>
      tc_links (on_link_timer i ?c) = (tc_links c)[i := closed_link ((link_of c i)\<lparr>lk_timer := None\<rparr>)]"
    using i by (simp add: on_link_timer_def split: TcpState.split)
  then have "calm c (on_link_timer i ?c)" by (elim disjE) (erule calm_update, simp)+
  then show "tcp_ok (on_link_timer i ?c)" by (intro tcp_okI' [OF ok pool_link_timer [OF pool i]]) simp_all
qed

lemma tcp_ok_request:
  assumes ok: "tcp_ok c" and prep: "tc_prepared c = connection_count c"
  shows "tcp_ok (tcp_tryStartRequest host c)"
proof (rule tcp_okI [OF ok])
  have turn: "next_slot c < connection_count c" and pool: "pool_ok c" using ok by (simp_all add: tcp_ok_def)
  show "pool_ok (tcp_tryStartRequest host c)" by (rule pool_request [OF pool prep turn])
  let ?c = "c\<lparr>next_slot := (next_slot c + 1) mod connection_count c, tc_started := tc_started c + 1\<rparr>"
  have f: "scal (tcp_tryStartRequest host c) = scal c \<and> ctl (tcp_tryStartRequest host c) = ctl ?c"
    by (simp add: tcp_tryStartRequest_def Let_def split: option.split)
  then show "scal (tcp_tryStartRequest host c) = scal c" by simp
  show "waiting_for (tcp_tryStartRequest host c) = waiting_for c" using ctlD(1) [OF f [THEN conjunct2]] by simp
  show "next_slot (tcp_tryStartRequest host c) < connection_count c" using ctlD(2) [OF f [THEN conjunct2]] turn by simp
  show "calm c (tcp_tryStartRequest host c)" if fin: "tc_finished c"
  proof -
    have "connectNext host s d = d" if "scal d = scal c" for s d using scalD(2) [OF that] fin by (simp add: connectNext_def)
    then have "tc_links (tcp_tryStartRequest host c) = tc_links c \<or>
        (\<exists>a. tc_links (tcp_tryStartRequest host c) = tc_links (send_message a (tc_started c) ?c))"
      by (simp add: tcp_tryStartRequest_def Let_def split: option.split) blast
    moreover have "calm c d" if "calm ?c d" for d using that by (simp add: calm_def)
    ultimately show ?thesis using calm_same calm_send [of ?c] calm_links by metis
  qed
qed

lemma tcp_ok_unfinished:
  assumes "pool_ok c'" "\<not> tc_finished c'" "next_slot c' < connection_count c'" "waiting_for c' \<noteq> WaitEchoes"
  shows "tcp_ok c'"
  using assms by (simp add: tcp_ok_def)

lemma tcp_ok_retry:
  assumes ok: "tcp_ok c" and s: "s < connection_count c" and timer: "sl_retry_timer (slot_of c s) = Some due" "s < tc_prepared c"
  shows "tcp_ok (on_retry host s c)"
proof (rule tcp_ok_unfinished)
  have pool: "pool_ok c" using ok by (simp add: tcp_ok_def)
  show "pool_ok (on_retry host s c)" by (rule pool_on_retry [OF pool s _ timer(2)]) (simp add: timer)
  have f: "scal (on_retry host s c) = scal c" "ctl (on_retry host s c) = ctl c" by (simp_all add: on_retry_def)
  show "\<not> tc_finished (on_retry host s c)"
    using slot_okD(8) [OF pool_basic(3) [OF pool s]] timer(1) scalD(2) [OF f(1)] by auto
  show "next_slot (on_retry host s c) < connection_count (on_retry host s c)"
    using ok ctlD(2) [OF f(2)] scalD(1) [OF f(1)] by (simp add: tcp_ok_def)
  show "waiting_for (on_retry host s c) \<noteq> WaitEchoes"
    using ok slot_okD(8) [OF pool_basic(3) [OF pool s]] timer(1) ctlD(1) [OF f(2)] by (auto simp: tcp_ok_def)
qed

lemma tcp_ok_finish_rest:
  assumes "pool_ok c" "quiet c" "tc_finished c" "next_slot c < connection_count c"
  shows "tcp_ok (finish_rest c)"
proof -
  let ?c = "c\<lparr>drain_timer := None, waiting_for := WaitNothing\<rparr>"
  have ok: "pool_ok ?c" by (rule pool_same [OF assms(1)]) simp_all
  have range: "set (links c) \<subseteq> {..<length (tc_links ?c)}" using links_range [OF assms(1)] by auto
  have ctl: "ctl (close_drained is d) = ctl d" for "is" d
    by (induction "is" d rule: close_drained.induct) simp_all
  let ?d = "close_drained (links c) ?c"
  have "tc_finished ?c" "quiet ?c" using assms by (simp_all add: quiet_def)
  note * = pool_close_drained [OF ok this range]
  have d: "pool_ok ?d" "scal ?d = scal ?c" "quiet ?d" "length (tc_links ?d) = length (tc_links ?c)"
      "\<And>j. j < length (tc_links ?c) \<Longrightarrow> j \<in> set (links c) \<or> lk_state (link_of ?c j) = Closed \<Longrightarrow> lk_state (link_of ?d j) = Closed"
    using * by blast+
  have "lk_state (link_of ?d j) = Closed" if "j < length (tc_links c)" for j
    using d(5) [of j] in_links [OF assms(1) that] that by (cases "lk_state (link_of c j) = Closed") simp_all
  then show ?thesis unfolding finish_rest_def
    using d assms(3,4) ctlD(1,2) [OF ctl, of "links c" ?c] scalD(1,2) [OF d(2)] by (simp add: tcp_ok_def)
qed

lemma tcp_ok_finish:
  assumes ok: "tcp_ok c"
  shows "tcp_ok (tcp_finish c)"
proof (cases "tc_finished c")
  case False
  let ?c = "c\<lparr>tc_finished := True, tc_slots := map (\<lambda>sl. sl\<lparr>sl_retry_timer := None\<rparr>) (tc_slots c)\<rparr>"
  have pool: "pool_ok ?c" using pool_finishing ok by (simp add: tcp_ok_def)
  have range: "set (links ?c) \<subseteq> {..<length (tc_links ?c)}" using links_range [OF pool] by auto
  let ?d = "close_connecting (links ?c) ?c"
  have ctl: "ctl (close_connecting is d) = ctl d" for "is" d
    by (induction "is" d rule: close_connecting.induct) simp_all
  have d: "pool_ok ?d" "scal ?d = scal ?c" "length (tc_links ?d) = length (tc_links ?c)"
      "\<And>j. lk_state (link_of ?d j) = Connecting \<Longrightarrow> lk_state (link_of ?c j) = Connecting \<and> (j < length (tc_links ?c) \<longrightarrow> j \<notin> set (links ?c))"
    using pool_close_connecting [OF pool _ range] by simp_all
  have q: "quiet ?d"
    unfolding quiet_def
  proof (intro allI impI notI)
    fix j assume j: "j < length (tc_links ?d)" "lk_state (link_of ?d j) = Connecting"
    then have "j < length (tc_links ?c)" using d(3) by simp
    then show False using d(4) [OF j(2)] in_links [OF pool, of j] by simp
  qed
  have "tc_finished ?d" "next_slot ?d < connection_count ?d"
    using ok ctlD(2) [OF ctl, of "links ?c" ?c] scalD(1,2) [OF d(2)] by (simp_all add: tcp_ok_def)
  note fin = this
  let ?e = "?d\<lparr>waiting_for := WaitEchoes, tc_exit := False, drain_timer := Some (tc_now ?d + ceil_ms (drain_duration ?d))\<rparr>"
  have "pool_ok ?e" by (rule pool_same [OF d(1)]) simp_all
  then have "tcp_ok ?e" using fin q by (simp add: tcp_ok_def quiet_def)
  then show ?thesis using False tcp_ok_finish_rest [OF d(1) q fin] by (simp add: tcp_finish_def Let_def)
qed (use ok in \<open>simp add: tcp_finish_def\<close>)

lemma pool_tick:
  assumes "pool_ok c" "tc_now c \<le> t"
  shows "pool_ok (c\<lparr>tc_now := t\<rparr>)"
proof -
  have "slot_ok (c\<lparr>tc_now := t\<rparr>) s sl" if "slot_ok c s sl" for s sl
    using that assms(2) by (auto simp: slot_ok_def active_state_def)
  moreover have "link_ok (c\<lparr>tc_now := t\<rparr>) sl i l" if "link_ok c sl i l" for sl i l
    using that assms(2) by (auto simp: link_ok_def)
  ultimately show ?thesis using assms(1) by (simp add: pool_ok_def place_ok_def)
qed

lemma tcp_ok_close_all:
  assumes "tcp_ok c" "set is \<subseteq> {..<length (tc_links c)}"
  shows "tcp_ok (close_all is c)"
  using assms by (induction "is" c rule: close_all.induct) (simp_all add: tcp_ok_events(2))

lemma tcp_ok_same:
  assumes "tcp_ok c" "scal c' = scal c" "tc_slots c' = tc_slots c" "tc_links c' = tc_links c"
    "waiting_for c' = waiting_for c" "next_slot c' = next_slot c"
  shows "tcp_ok c'"
  using tcp_okI [OF assms(1) pool_same [OF _ assms(2-4)] assms(2,5)] assms(1,6) calm_same [OF assms(4)] by (simp add: tcp_ok_def)

lemma tcp_step_ok:
  assumes "tcp_step c c'" "tcp_ok c"
  shows "tcp_ok c'"
  using assms(1)
proof cases
  case (tcp_tick t)
  have "pool_ok c'" unfolding tcp_tick(1) by (rule pool_tick) (use assms(2) tcp_tick in \<open>simp_all add: tcp_ok_def\<close>)
  then show ?thesis using assms(2) tcp_tick by (simp add: tcp_ok_def quiet_def)
next
  case (tcp_prepare_begin generated)
  then show ?thesis
    by (intro tcp_ok_same [OF assms(2)]) (auto simp: prepare_begin_def split: option.splits if_splits)
next
  case (tcp_prepare_open host)
  have f: "ctl (prepare_open host c) = ctl c" "tc_finished (prepare_open host c) = tc_finished c"
    "connection_count (prepare_open host c) = connection_count c"
    using scalD(1,2) [OF open_link_effect(1)] ctl_ops(7) [of host "tc_prepared c" RoleActive True c]
    by (simp_all add: prepare_open_def ctl_def)
  have "pool_ok c'" unfolding tcp_prepare_open(1) by (rule pool_prepare_open) (use assms(2) tcp_prepare_open in \<open>simp_all add: tcp_ok_def\<close>)
  then show ?thesis using tcp_prepare_open f ctlD(1,2) [OF f(1)] assms(2)
    by (intro tcp_ok_unfinished) (auto simp: tcp_ok_def)
next
  case tcp_prepare_wait
  have "pool_ok c'" unfolding tcp_prepare_wait(1) prepare_wait_def
    using assms(2) pool_same [of c "c\<lparr>waiting_for := WaitOpens, tc_exit := False\<rparr>"] by (simp add: tcp_ok_def)
  then show ?thesis using assms(2) tcp_prepare_wait by (intro tcp_ok_unfinished) (auto simp: tcp_ok_def prepare_wait_def)
next
  case tcp_prepare_end
  have "pool_ok c'" unfolding tcp_prepare_end(1) using assms(2) pool_same [of c "c\<lparr>waiting_for := WaitNothing\<rparr>"] by (simp add: tcp_ok_def)
  then show ?thesis using assms(2) tcp_prepare_end by (intro tcp_ok_unfinished) (auto simp: tcp_ok_def)
next
  case (tcp_retry s due host)
  have "s < tc_prepared c" using slot_okD(15) [OF pool_basic(3), of c s] assms(2) tcp_retry by (auto simp: tcp_ok_def not_le [symmetric])
  then show ?thesis using tcp_ok_retry [OF assms(2)] tcp_retry by blast
next
  case (tcp_posted request success rest)
  then show ?thesis by (intro tcp_ok_same [OF assms(2)]) simp_all
next
  case (tcp_measure b)
  then show ?thesis by (intro tcp_ok_same [OF assms(2)]) simp_all
next
  case tcp_drained
  then show ?thesis using assms(2) tcp_ok_finish_rest [of c] by (auto simp: tcp_ok_def)
next
  case tcp_terminate
  have "tcp_ok (c\<lparr>tc_measure_latencies := False\<rparr>)" by (rule tcp_ok_same [OF assms(2)]) simp_all
  moreover have "set (links c) \<subseteq> {..<length (tc_links c)}" using links_range [of c] assms(2) by (auto simp: tcp_ok_def)
  ultimately show ?thesis unfolding tcp_terminate(1) terminate_rest_def by (intro tcp_ok_close_all) simp_all
next
  case (tcp_delete i)
  let ?c = "upd_link i (\<lambda>l. l\<lparr>lk_deleted := True\<rparr>) c"
  have "pool_ok ?c"
  proof (cases "i < length (tc_links c)")
    case True
    then show ?thesis using pool_upd [of c i "\<lambda>l. l\<lparr>lk_deleted := True\<rparr>"] assms(2) by (simp add: tcp_ok_def)
  next
    case False
    then show ?thesis using pool_same [of c ?c] assms(2) by (simp add: tcp_ok_def list_update_beyond not_less)
  qed
  then show ?thesis unfolding tcp_delete(1)
    by (rule tcp_okI' [OF assms(2)]) (auto intro: calm_update [of _ c i "(link_of c i)\<lparr>lk_deleted := True\<rparr>"])
qed (use tcp_ok_request [OF assms(2)] tcp_ok_events [OF assms(2)] tcp_ok_finish [OF assms(2)] in blast)+

end
