(* ===== verification/TcpMessages.thy ===== *)
theory TcpMessages
  imports TcpPool "HOL-Library.Multiset"
begin

text \<open>
  The messages of the TCP client: their account in every reachable state, the matching of echoes against a
  reference that counts exact copies, and the properties of the client.
\<close>

subsection \<open>The account of the messages\<close>

definition inflights :: "TcpBenchmarkClient \<Rightarrow> InflightMessage list" where
  "inflights c = concat (map lk_inflight (tc_links c))"

definition tcp_account :: "TcpBenchmarkClient \<Rightarrow> bool" where
  "tcp_account c \<longleftrightarrow>
     mset (map fst (tc_callbacks c)) + mset (map fst (tc_posted c)) + mset (map callback_of (inflights c)) = mset [0..<tc_started c] \<and>
     tc_started c = tc_counters c tcp_messages_sent + tc_counters c tcp_deferred + tc_counters c tcp_unavailable \<and>
     (if expect_echo c
      then tc_counters c tcp_messages_sent =
        tc_counters c tcp_messages_received + tc_counters c tcp_inflight_lost + length (inflights c)
      else tc_counters c tcp_messages_received = 0 \<and> tc_counters c tcp_inflight_lost = 0 \<and> inflights c = [])"

text \<open>
  What operations other than sending do to the account: they call back some messages in flight, the lost
  ones \<open>M\<close> and the answered ones \<open>N\<close>.
\<close>

definition settles :: "TcpBenchmarkClient \<Rightarrow> TcpBenchmarkClient \<Rightarrow> bool" where
  "settles c c' \<longleftrightarrow> (\<exists>M N.
     mset (map fst (tc_callbacks c')) = mset (map fst (tc_callbacks c)) + M + N \<and>
     mset (map callback_of (inflights c)) = mset (map callback_of (inflights c')) + M + N \<and>
     tc_counters c' tcp_inflight_lost = tc_counters c tcp_inflight_lost + size M \<and>
     tc_counters c' tcp_messages_received = tc_counters c tcp_messages_received + size N) \<and>
     (\<forall>k \<in> {tcp_messages_sent, tcp_deferred, tcp_unavailable}. tc_counters c' k = tc_counters c k) \<and>
     tc_posted c' = tc_posted c \<and> tc_started c' = tc_started c \<and> expect_echo c' = expect_echo c"

lemma length_inflights: "size (mset (map callback_of (inflights c))) = length (inflights c)"
  by simp

lemma settles_account:
  assumes "settles c c'" "tcp_account c"
  shows "tcp_account c'"
proof -
  obtain M N where mn: "mset (map fst (tc_callbacks c')) = mset (map fst (tc_callbacks c)) + M + N"
      "mset (map callback_of (inflights c)) = mset (map callback_of (inflights c')) + M + N"
      "tc_counters c' tcp_inflight_lost = tc_counters c tcp_inflight_lost + size M"
      "tc_counters c' tcp_messages_received = tc_counters c tcp_messages_received + size N"
    using assms(1) by (auto simp: settles_def)
  have len: "length (inflights c) = length (inflights c') + size M + size N"
    using arg_cong [OF mn(2), of size] by simp
  show ?thesis
  proof (cases "expect_echo c")
    case True
    then show ?thesis using assms mn len by (simp add: tcp_account_def settles_def ac_simps)
  next
    case False
    then have "inflights c' = []" "M = {#}" "N = {#}" using assms(2) len by (simp_all add: tcp_account_def)
    then show ?thesis using assms mn False by (simp add: tcp_account_def settles_def)
  qed
qed

lemma settles_refl [simp]: "settles c c"
  unfolding settles_def by (intro conjI exI [of _ "{#}"]) simp_all

lemma settles_trans:
  assumes "settles c d" "settles d e"
  shows "settles c e"
proof -
  obtain M N where 1: "mset (map fst (tc_callbacks d)) = mset (map fst (tc_callbacks c)) + M + N"
      "mset (map callback_of (inflights c)) = mset (map callback_of (inflights d)) + M + N"
      "tc_counters d tcp_inflight_lost = tc_counters c tcp_inflight_lost + size M"
      "tc_counters d tcp_messages_received = tc_counters c tcp_messages_received + size N"
    using assms(1) by (auto simp: settles_def)
  obtain M' N' where 2: "mset (map fst (tc_callbacks e)) = mset (map fst (tc_callbacks d)) + M' + N'"
      "mset (map callback_of (inflights d)) = mset (map callback_of (inflights e)) + M' + N'"
      "tc_counters e tcp_inflight_lost = tc_counters d tcp_inflight_lost + size M'"
      "tc_counters e tcp_messages_received = tc_counters d tcp_messages_received + size N'"
    using assms(2) by (auto simp: settles_def)
  have "mset (map fst (tc_callbacks e)) = mset (map fst (tc_callbacks c)) + (M + M') + (N + N')"
      "mset (map callback_of (inflights c)) = mset (map callback_of (inflights e)) + (M + M') + (N + N')"
      "tc_counters e tcp_inflight_lost = tc_counters c tcp_inflight_lost + size (M + M')"
      "tc_counters e tcp_messages_received = tc_counters c tcp_messages_received + size (N + N')"
    using 1 2 by (simp_all add: ac_simps)
  moreover have "\<forall>k \<in> {tcp_messages_sent, tcp_deferred, tcp_unavailable}. tc_counters e k = tc_counters c k"
      "tc_posted e = tc_posted c" "tc_started e = tc_started c" "expect_echo e = expect_echo c"
    using assms by (simp_all add: settles_def)
  ultimately show ?thesis unfolding settles_def by blast
qed

lemma settles_same:
  assumes "tc_callbacks c' = tc_callbacks c" "inflights c' = inflights c" "tc_posted c' = tc_posted c" "tc_started c' = tc_started c"
    "expect_echo c' = expect_echo c"
    "\<And>k. k \<in> {tcp_messages_sent, tcp_deferred, tcp_unavailable, tcp_inflight_lost, tcp_messages_received} \<Longrightarrow>
       tc_counters c' k = tc_counters c k"
  shows "settles c c'"
  unfolding settles_def using assms by (intro conjI exI [of _ "{#}"]) simp_all

lemma inflights_update:
  assumes "lk_inflight l = lk_inflight (link_of c i)"
  shows "concat (map lk_inflight ((tc_links c)[i := l])) = inflights c"
proof -
  have "map lk_inflight ((tc_links c)[i := l]) = map lk_inflight (tc_links c)"
    using assms by (cases "i < length (tc_links c)") (simp_all add: map_update list_update_beyond list_update_same_conv)
  then show ?thesis by (simp add: inflights_def)
qed

lemma inflights_clear:
  assumes "i < length (tc_links c)" "lk_inflight l @ ms = lk_inflight (link_of c i) \<or> ms @ lk_inflight l = lk_inflight (link_of c i)"
  shows "mset (inflights c) = mset (concat (map lk_inflight ((tc_links c)[i := l]))) + mset ms"
proof -
  have "tc_links c = take i (tc_links c) @ link_of c i # drop (Suc i) (tc_links c)"
    by (rule id_take_nth_drop [OF assms(1)])
  then have "mset (inflights c) = mset (concat (map lk_inflight (take i (tc_links c)))) + mset (lk_inflight (link_of c i)) +
      mset (concat (map lk_inflight (drop (Suc i) (tc_links c))))"
    unfolding inflights_def by (metis (no_types, lifting) append_assoc concat.simps(2) concat_append list.simps(9) map_append mset_append)
  moreover have "mset (concat (map lk_inflight ((tc_links c)[i := l]))) = mset (concat (map lk_inflight (take i (tc_links c)))) +
      mset (lk_inflight l) + mset (concat (map lk_inflight (drop (Suc i) (tc_links c))))"
    using assms(1) by (simp add: upd_conv_take_nth_drop)
  moreover have "mset (lk_inflight (link_of c i)) = mset (lk_inflight l) + mset ms"
    using assms(2) by (metis mset_append union_commute)
  ultimately show ?thesis by simp
qed

lemma inflights_simps [simp]:
  "inflights (tcp_inc k c) = inflights c" "inflights (upd_slot s g c) = inflights c" "inflights (maybeExitWaitLoop c) = inflights c"
  "inflights (scheduleRetry s c) = inflights c" "inflights (snd (release i c)) = inflights c"
  by (simp_all add: inflights_def)

lemma settles_ops:
  "k \<notin> {tcp_messages_sent, tcp_deferred, tcp_unavailable, tcp_inflight_lost, tcp_messages_received} \<Longrightarrow> settles c (tcp_inc k c)"
  "settles c (upd_slot s g c)" "settles c (maybeExitWaitLoop c)" "settles c (scheduleRetry s c)" "settles c (snd (release i c))"
  by (rule settles_same; auto simp: tcp_inc_def upd_slot_def maybeExitWaitLoop_def scheduleRetry_def release_def Let_def
      inflights_def split: WaitingFor.split)+

lemma settles_link:
  assumes "lk_inflight (f (link_of c i)) = lk_inflight (link_of c i)"
  shows "settles c (upd_link i f c)"
  by (rule settles_same) (use inflights_update [OF assms] in \<open>auto simp: upd_link_def inflights_def\<close>)

lemma settles_initial: "settles c (initialAttemptDone i c)"
  unfolding initialAttemptDone_def
  by (rule settles_same) (use inflights_update [of "(link_of c i)\<lparr>lk_initial_pending := False\<rparr>" c i] in \<open>auto simp: upd_link_def inflights_def\<close>)

lemma complete_messages_effect:
  "tc_posted (complete_messages b ms c) = tc_posted c \<and> tc_started (complete_messages b ms c) = tc_started c \<and>
   expect_echo (complete_messages b ms c) = expect_echo c \<and>
   map fst (tc_callbacks (complete_messages b ms c)) = map fst (tc_callbacks c) @ map callback_of ms \<and>
   tc_counters (complete_messages b ms c) =
     (tc_counters c)(tcp_inflight_lost := tc_counters c tcp_inflight_lost + (if b then 0 else length ms))"
  by (induction b ms c rule: complete_messages.induct) (auto simp: tcp_inc_def Let_def fun_eq_iff)

lemma settles_complete:
  assumes "i < length (tc_links c)"
  shows "settles c (completeInflight i False c)"
proof -
  let ?c = "completeInflight i False c" and ?ms = "lk_inflight (link_of c i)"
  have eff: "tc_posted ?c = tc_posted c" "tc_started ?c = tc_started c" "expect_echo ?c = expect_echo c"
      "map fst (tc_callbacks ?c) = map fst (tc_callbacks c) @ map callback_of ?ms"
      "tc_counters ?c = (tc_counters c)(tcp_inflight_lost := tc_counters c tcp_inflight_lost + length ?ms)"
    using complete_messages_effect [of False ?ms "upd_link i (\<lambda>l. l\<lparr>lk_inflight := []\<rparr>) c"]
    by (simp_all add: completeInflight_def upd_link_def)
  have "mset (inflights c) = mset (inflights ?c) + mset ?ms"
    using inflights_clear [OF assms, of "(link_of c i)\<lparr>lk_inflight := []\<rparr>" ?ms] by (simp add: inflights_def)
  then have "mset (map callback_of (inflights c)) = mset (map callback_of (inflights ?c)) + mset (map callback_of ?ms) + {#}" by simp
  then show ?thesis unfolding settles_def eff by (intro conjI exI [of _ "mset (map callback_of ?ms)"] exI [of _ "{#}"]) simp_all
qed

lemmas settles_intros =
  settles_trans [OF _ settles_ops(1)] settles_trans [OF _ settles_ops(2)] settles_trans [OF _ settles_ops(3)]
  settles_trans [OF _ settles_ops(4)] settles_trans [OF _ settles_ops(5)] settles_trans [OF _ settles_link]
  settles_trans [OF _ settles_initial] settles_trans [OF _ settles_complete]

lemma settles_close_event:
  assumes "i < length (tc_links c)"
  shows "settles c (on_close_event i c)"
  using assms unfolding on_close_event_def Let_def case_prod_beta
  by (auto intro!: settles_intros)

lemma settles_closeLink:
  assumes "i < length (tc_links c)"
  shows "settles c (closeLink i type c)"
  using assms unfolding closeLink_def Let_def
  by (auto intro!: settles_intros settles_trans [OF _ settles_close_event])

lemma settles_mismatch:
  assumes "i < length (tc_links c)"
  shows "settles c (onEchoMismatch i c)"
  using assms unfolding onEchoMismatch_def Let_def
  by (auto intro!: settles_intros settles_trans [OF _ settles_closeLink])

lemma settles_promote:
  assumes "\<And>r. sl_active (slot_of c s) = Some r \<Longrightarrow> r < length (tc_links c)"
  shows "settles c (promote s c)"
  using assms unfolding promote_def Let_def
  by (auto intro!: settles_intros settles_trans [OF _ settles_closeLink] split: option.split)

lemma settles_connected:
  assumes "i < length (tc_links c)" "\<And>r. sl_active (slot_of c (lk_slot (link_of c i))) = Some r \<Longrightarrow> r < length (tc_links c)"
  shows "settles c (on_connected i c)"
proof -
  have latency: "settles d (d\<lparr>connect_latency := x\<rparr>)" for d x by (rule settles_same) (simp_all add: inflights_def)
  show ?thesis
    using assms unfolding on_connected_def Let_def
    by (auto intro!: settles_intros settles_trans [OF _ settles_promote] settles_trans [OF _ latency])
qed

lemma settles_link_timer:
  assumes "i < length (tc_links c)"
  shows "settles c (on_link_timer i c)"
  using assms unfolding on_link_timer_def
  by (auto intro!: settles_intros settles_trans [OF _ settles_closeLink] split: TcpState.split)

lemma settles_open: "settles c (open_link host s role initial c)"
proof (cases host)
  case True
  then show ?thesis unfolding open_link_def Let_def by (auto intro!: settles_intros settles_same simp: inflights_def)
qed (auto simp: open_link_def intro!: settles_intros)

lemma settles_connectNext: "settles c (connectNext host s c)"
  by (simp add: connectNext_def settles_open split: option.split)

lemma settles_echo:
  assumes i: "i < length (tc_links c)"
  shows "settles c (onEcho i bytes c)"
proof (cases "lk_inflight (link_of c i) = [] \<or> bytes \<noteq> tc_message c")
  case True
  then show ?thesis using settles_mismatch [OF i] by (auto simp: onEcho_def split: list.split)
next
  case False
  then obtain m ms where m: "lk_inflight (link_of c i) = m # ms" by (cases "lk_inflight (link_of c i)") auto
  let ?c1 = "tcp_inc tcp_messages_received (upd_link i (\<lambda>l. l\<lparr>lk_inflight := ms\<rparr>) c)"
  let ?c2 = "if tc_measure_latencies ?c1 then ?c1\<lparr>message_latency := message_latency ?c1 @ [word_of_int (tc_now ?c1 - sent_at m)]\<rparr> else ?c1"
  let ?c3 = "?c2\<lparr>tc_callbacks := tc_callbacks ?c2 @ [(callback_of m, True, True)]\<rparr>"
  have "mset (inflights c) = mset (inflights ?c3) + mset [m]"
    using inflights_clear [OF i, of "(link_of c i)\<lparr>lk_inflight := ms\<rparr>" "[m]"] m by (simp add: inflights_def)
  then have "mset (map callback_of (inflights c)) = mset (map callback_of (inflights ?c3)) + {#} + {#callback_of m#}" by simp
  moreover have "tc_callbacks ?c3 = tc_callbacks c @ [(callback_of m, True, True)]"
      "tc_counters ?c3 = (tc_counters c)(tcp_messages_received := tc_counters c tcp_messages_received + 1)"
      "tc_posted ?c3 = tc_posted c" "tc_started ?c3 = tc_started c" "expect_echo ?c3 = expect_echo c"
    by (simp_all add: tcp_inc_def upd_link_def)
  ultimately have "settles c ?c3"
    unfolding settles_def by (intro conjI exI [of _ "{#}"] exI [of _ "{#callback_of m#}"]) simp_all
  moreover have "onEcho i bytes c = maybeExitWaitLoop
      (if lk_state (link_of ?c3 i) = Retiring \<and> ms = [] then closeLink i FlushWrite ?c3 else ?c3)"
    using False m by (simp add: onEcho_def Let_def)
  ultimately show ?thesis using i
    by (auto intro!: settles_intros settles_trans [OF _ settles_closeLink])
qed

lemma settles_loop: "settles c (echo_loop i c)"
proof (induction i c rule: echo_loop.induct)
  case (1 i c)
  show ?case
  proof (cases "length (lk_received (link_of c i)) \<ge> length (tc_message c) \<and> tcp_matching i c")
    case True
    then have i: "i < length (tc_links c)" by (simp add: tcp_matching_def)
    let ?n = "length (tc_message c)" and ?r = "lk_received (link_of c i)"
    let ?c = "upd_link i (\<lambda>l. l\<lparr>lk_received := drop ?n ?r\<rparr>) c"
    have "settles c (onEcho i (take ?n ?r) ?c)"
      by (rule settles_trans [OF settles_link settles_echo]) (use i in simp_all)
    from settles_trans [OF this 1 [OF refl refl True]] show ?thesis using True by (subst echo_loop.simps) (simp add: Let_def)
  qed (subst echo_loop.simps, auto simp: Let_def)
qed

lemma upt_snoc: "mset [0..<Suc n] = mset [0..<n] + {#n#}"
  by simp

lemma account_posted:
  assumes "tcp_account c" "k \<in> {tcp_deferred, tcp_unavailable}"
  shows "tcp_account ((tcp_inc k (c\<lparr>next_slot := n, tc_started := tc_started c + 1\<rparr>))\<lparr>tc_posted := tc_posted c @ [(tc_started c, b)]\<rparr>)"
  using assms by (auto simp: tcp_account_def inflights_def tcp_inc_def upt_snoc)

lemma account_sent:
  assumes "tcp_account c" "tc_callbacks c' = tc_callbacks c" "tc_started c' = tc_started c + 1" "expect_echo c' = expect_echo c"
    "tc_counters c' = (tc_counters c)(tcp_messages_sent := tc_counters c tcp_messages_sent + 1)"
    "mset (map fst (tc_posted c')) + mset (map callback_of (inflights c')) =
      mset (map fst (tc_posted c)) + mset (map callback_of (inflights c)) + {#tc_started c#}"
    "length (inflights c') = (if expect_echo c then length (inflights c) + 1 else 0)"
  shows "tcp_account c'"
  unfolding tcp_account_def
proof (intro conjI)
  have old: "mset (map fst (tc_callbacks c)) + mset (map fst (tc_posted c)) + mset (map callback_of (inflights c)) = mset [0..<tc_started c]"
    using assms(1) by (simp add: tcp_account_def)
  show "mset (map fst (tc_callbacks c')) + mset (map fst (tc_posted c')) + mset (map callback_of (inflights c')) = mset [0..<tc_started c']"
    unfolding assms(2,3) Suc_eq_plus1 [symmetric] upt_snoc old [symmetric] using assms(6) by (simp only: add.assoc)
qed (use assms in \<open>simp_all add: tcp_account_def split: if_splits\<close>)

lemma account_send:
  assumes "tcp_account c" "a < length (tc_links c)"
  shows "tcp_account (send_message a (tc_started c) (c\<lparr>next_slot := n, tc_started := tc_started c + 1\<rparr>))"
proof (cases "expect_echo c")
  case True
  let ?m = "\<lparr>sent_at = tc_now c, callback_of = tc_started c\<rparr>" and ?l = "link_of c a"
  let ?c = "send_message a (tc_started c) (c\<lparr>next_slot := n, tc_started := tc_started c + 1\<rparr>)"
  have eq: "inflights c = concat (map lk_inflight ((tc_links ?c)[a := ?l]))"
    using assms(2) by (simp add: inflights_def send_message_def Let_def)
  have "mset (inflights ?c) = mset (inflights c) + mset [?m]"
    unfolding eq by (rule inflights_clear) (use assms(2) True in \<open>simp_all add: send_message_def Let_def upd_link_def tcp_inc_def\<close>)
  moreover from this have "length (inflights ?c) = length (inflights c) + 1" by (metis length_append_singleton mset_append mset_eq_length Suc_eq_plus1)
  moreover have "tc_callbacks ?c = tc_callbacks c" "tc_posted ?c = tc_posted c" "tc_started ?c = tc_started c + 1" "expect_echo ?c"
      "tc_counters ?c = (tc_counters c)(tcp_messages_sent := tc_counters c tcp_messages_sent + 1)"
    using True by (simp_all add: send_message_def Let_def upd_link_def tcp_inc_def)
  ultimately show ?thesis by (intro account_sent [OF assms(1)]) (simp_all add: True)
next
  case False
  let ?c = "send_message a (tc_started c) (c\<lparr>next_slot := n, tc_started := tc_started c + 1\<rparr>)"
  have "inflights ?c = inflights c"
    using inflights_update [of "(link_of c a)\<lparr>lk_sent := lk_sent (link_of c a) + 1\<rparr>" c a] False
    by (simp add: send_message_def Let_def inflights_def upd_link_def tcp_inc_def)
  moreover have "tc_callbacks ?c = tc_callbacks c" "tc_posted ?c = tc_posted c @ [(tc_started c, True)]" "tc_started ?c = tc_started c + 1"
      "\<not> expect_echo ?c" "tc_counters ?c = (tc_counters c)(tcp_messages_sent := tc_counters c tcp_messages_sent + 1)"
    using False by (simp_all add: send_message_def Let_def upd_link_def tcp_inc_def)
  ultimately show ?thesis using assms(1) by (intro account_sent [OF assms(1)]) (simp_all add: False tcp_account_def)
qed

lemma account_request:
  assumes ok: "pool_ok c" and turn: "next_slot c < connection_count c" and acc: "tcp_account c"
  shows "tcp_account (tcp_tryStartRequest host c)"
proof (cases "sl_active (slot_of c (next_slot c))")
  case None
  then show ?thesis using account_posted [OF acc] by (simp add: tcp_tryStartRequest_def Let_def tcp_inc_def)
next
  case (Some a)
  have a: "a < length (tc_links c)" by (rule slot_okD(2) [OF pool_basic(3) [OF ok turn] in_slot_links(1) [OF Some]])
  let ?c = "send_message a (tc_started c) (c\<lparr>next_slot := (next_slot c + 1) mod connection_count c, tc_started := tc_started c + 1\<rparr>)"
  have sent: "tcp_account ?c" by (rule account_send [OF acc a])
  then have "tcp_account (connectNext host (next_slot c) ?c)" by (rule settles_account [OF settles_connectNext])
  with sent Some account_posted [OF acc] show ?thesis by (simp add: tcp_tryStartRequest_def Let_def tcp_inc_def)
qed

lemma settles_close_lists:
  "set is \<subseteq> {..<length (tc_links c)} \<Longrightarrow> settles c (close_connecting is c)"
  "set is \<subseteq> {..<length (tc_links c)} \<Longrightarrow> settles c (close_drained is c)"
  "set is \<subseteq> {..<length (tc_links c)} \<Longrightarrow> settles c (close_all is c)"
proof -
  show "set is \<subseteq> {..<length (tc_links c)} \<Longrightarrow> settles c (close_connecting is c)"
  proof (induction "is" c rule: close_connecting.induct)
    case (2 i "is" c)
    let ?c = "if lk_state (link_of c i) = Connecting then closeLink i NoFlush c else c"
    have "settles c ?c" using 2(2) by (simp add: settles_closeLink)
    then show ?case using 2 by (auto intro: settles_trans)
  qed simp
  show "set is \<subseteq> {..<length (tc_links c)} \<Longrightarrow> settles c (close_all is c)"
  proof (induction "is" c rule: close_all.induct)
    case (2 i "is" c)
    have "settles c (on_close_event i c)" using 2(2) by (simp add: settles_close_event)
    then show ?case using 2 by (auto intro: settles_trans)
  qed simp
  show "set is \<subseteq> {..<length (tc_links c)} \<Longrightarrow> settles c (close_drained is c)"
  proof (induction "is" c rule: close_drained.induct)
    case (2 i "is" c)
    let ?c = "if lk_inflight (link_of c i) \<noteq> [] then tcp_inc tcp_drain_incomplete c else c"
    have "settles c ?c" by (simp add: settles_ops(1))
    moreover have "settles ?c (closeLink i FlushWrite ?c)" by (rule settles_closeLink) (use 2(2) in simp)
    ultimately show ?case using 2 by (auto intro: settles_trans)
  qed simp
qed

lemma settles_finish:
  assumes ok: "tcp_ok c"
  shows "settles c (tcp_finish c)" "settles c (finish_rest c)"
proof -
  have rest: "settles d (finish_rest d)" if "pool_ok d" for d
  proof -
    let ?d = "d\<lparr>drain_timer := None, waiting_for := WaitNothing\<rparr>"
    have "settles d ?d" by (rule settles_same) (simp_all add: inflights_def)
    moreover have "settles ?d (close_drained (links d) ?d)"
      by (rule settles_close_lists(2)) (use links_range [OF that] in auto)
    ultimately show ?thesis unfolding finish_rest_def by (rule settles_trans)
  qed
  then show "settles c (finish_rest c)" using ok by (simp add: tcp_ok_def)
  let ?c = "c\<lparr>tc_finished := True, tc_slots := map (\<lambda>sl. sl\<lparr>sl_retry_timer := None\<rparr>) (tc_slots c)\<rparr>"
  let ?d = "close_connecting (links ?c) ?c"
  let ?e = "?d\<lparr>waiting_for := WaitEchoes, tc_exit := False, drain_timer := Some (tc_now ?d + ceil_ms (drain_duration ?d))\<rparr>"
  have pool: "pool_ok ?c" using pool_finishing ok by (simp add: tcp_ok_def)
  have range: "set (links ?c) \<subseteq> {..<length (tc_links ?c)}" using links_range [OF pool] by auto
  have "settles c ?c" by (rule settles_same) (simp_all add: inflights_def)
  then have d: "settles c ?d" by (rule settles_trans [OF _ settles_close_lists(1) [OF range]])
  have "settles ?d ?e" by (rule settles_same) (simp_all add: inflights_def)
  with d have e: "settles c ?e" by (rule settles_trans)
  have "pool_ok ?d" using pool_close_connecting [OF pool _ range] by simp
  then have "settles c (finish_rest ?d)" using rest d settles_trans by blast
  with e show "settles c (tcp_finish c)" by (simp add: tcp_finish_def Let_def)
qed

lemma tcp_step_account:
  assumes "tcp_step c c'" "tcp_ok c" "tcp_account c"
  shows "tcp_account c'"
proof -
  have pool: "pool_ok c" using assms(2) by (simp add: tcp_ok_def)
  have active: "r < length (tc_links c)" if "i < length (tc_links c)" "sl_active (slot_of c (lk_slot (link_of c i))) = Some r" for i r
    using slot_okD(2) [OF pool_basic(3) [OF pool pool_basic(2) [OF pool that(1)]] in_slot_links(1) [OF that(2)]] .
  have data: "settles c (onData i data c)" for i data
    by (auto simp: onData_def intro: settles_trans [OF settles_link settles_loop])
  show ?thesis
    using assms(1)
  proof cases
    case (tcp_prepare_begin generated)
    then have "settles c c'" by (intro settles_same) (auto simp: prepare_begin_def inflights_def split: option.splits if_splits)
    then show ?thesis using assms(3) settles_account by blast
  next
    case (tcp_prepare_open host)
    have "settles c (open_link host (tc_prepared c) RoleActive True c)" by (rule settles_open)
    then have "settles c c'" unfolding tcp_prepare_open(1) prepare_open_def
      by (rule settles_trans) (rule settles_same, simp_all add: inflights_def)
    then show ?thesis using assms(3) settles_account by blast
  next
    case (tcp_request host)
    then show ?thesis using account_request [OF pool _ assms(3)] assms(2) by (simp add: tcp_ok_def)
  next
    case (tcp_connected i)
    then have "settles c c'" using settles_connected [OF tcp_connected(2)] active [OF tcp_connected(2)] by blast
    then show ?thesis using assms(3) settles_account by blast
  next
    case (tcp_closed i)
    then show ?thesis using settles_account [OF settles_close_event assms(3)] by blast
  next
    case (tcp_data i data)
    then show ?thesis using settles_account [OF data assms(3)] by blast
  next
    case (tcp_blocked i blocked)
    have "settles c c'" unfolding tcp_blocked(1) onWriteBlocked_def
      by (rule settles_trans [OF _ settles_link]) (auto intro: settles_ops(1))
    then show ?thesis using assms(3) settles_account by blast
  next
    case (tcp_link_timer i due)
    have "settles c c'" unfolding tcp_link_timer(1)
      by (rule settles_trans [OF settles_link settles_link_timer]) (use tcp_link_timer in simp_all)
    then show ?thesis using assms(3) settles_account by blast
  next
    case (tcp_retry s due host)
    have "settles c c'" unfolding tcp_retry(1) on_retry_def by (rule settles_trans [OF settles_ops(2) settles_connectNext])
    then show ?thesis using assms(3) settles_account by blast
  next
    case (tcp_posted request success rest)
    then have "inflights c' = inflights c" by (simp add: inflights_def)
    then show ?thesis using assms(3) tcp_posted by (simp add: tcp_account_def)
  next
    case tcp_terminate
    have "settles c (c\<lparr>tc_measure_latencies := False\<rparr>)" by (rule settles_same) (simp_all add: inflights_def)
    moreover have "settles (c\<lparr>tc_measure_latencies := False\<rparr>) c'" unfolding tcp_terminate(1) terminate_rest_def
      by (rule settles_close_lists(3)) (use links_range [OF pool] in auto)
    ultimately show ?thesis using assms(3) settles_account settles_trans by blast
  next
    case (tcp_delete i)
    then show ?thesis using settles_account [OF settles_link assms(3)] by simp
  next
    case tcp_finish
    then show ?thesis using settles_account [OF settles_finish(1) [OF assms(2)] assms(3)] by simp
  next
    case tcp_drained
    then show ?thesis using settles_account [OF settles_finish(2) [OF assms(2)] assms(3)] by simp
  qed (rule settles_account [OF settles_same assms(3)]; simp add: inflights_def prepare_wait_def)+
qed

lemma tcp_initial:
  assumes "mk_TcpBenchmarkClient connections limit echo drain time_out max_messages now = Inr c"
  shows "tcp_ok c" "tcp_account c"
  using assms backoff_constants
  by (auto simp: mk_TcpBenchmarkClient_def tcp_ok_def pool_ok_def place_ok_def slot_ok_def slot_links_def quiet_def
      tcp_account_def inflights_def split: if_splits)

lemma tcp_reachable_ok:
  assumes "tcp_reachable c0 c" "mk_TcpBenchmarkClient connections limit echo drain time_out max_messages now = Inr c0"
  shows "tcp_ok c \<and> tcp_account c"
  using assms
proof (induction rule: tcp_reachable.induct)
  case tcp_start then show ?case using tcp_initial by blast
next
  case (tcp_next c c') then show ?case using tcp_step_ok tcp_step_account by blast
qed

subsection \<open>Matching echoes\<close>

text \<open>How many copies of the message a received stream starts with.\<close>

function leading :: "string \<Rightarrow> string \<Rightarrow> nat" where
  "leading msg b =
     (if msg \<noteq> [] \<and> length msg \<le> length b \<and> take (length msg) b = msg then Suc (leading msg (drop (length msg) b)) else 0)"
  by pat_completeness auto
termination
  by (relation "measure (\<lambda>(msg, b). length b)")
     (simp_all, metis diff_less length_greater_0_conv order_less_le_trans)

declare leading.simps [simp del]

text \<open>What of the client the matching changes: counters, latencies and callbacks.\<close>

definition observed :: "TcpBenchmarkClient \<Rightarrow> nat \<times> nat \<times> nat \<times> sample list \<times> (nat \<times> bool \<times> bool) list" where
  "observed c = (tc_counters c tcp_messages_received, tc_counters c tcp_echo_mismatch, tc_counters c tcp_inflight_lost,
     message_latency c, tc_callbacks c)"

lemma observed_basic [simp]:
  "observed (upd_slot s g c) = observed c" "observed (upd_link i f c) = observed c" "observed (maybeExitWaitLoop c) = observed c"
  "observed (scheduleRetry s c) = observed c" "observed (snd (release i c)) = observed c" "observed (initialAttemptDone i c) = observed c"
  by (simp_all add: observed_def upd_slot_def upd_link_def maybeExitWaitLoop_def scheduleRetry_def release_def
      initialAttemptDone_def Let_def split: WaitingFor.split)

definition lose :: "InflightMessage list \<Rightarrow> nat \<times> nat \<times> nat \<times> sample list \<times> (nat \<times> bool \<times> bool) list \<Rightarrow>
    nat \<times> nat \<times> nat \<times> sample list \<times> (nat \<times> bool \<times> bool) list" where
  "lose ms = (\<lambda>(received, mismatches, lost, latencies, callbacks).
     (received, mismatches, lost + length ms, latencies, callbacks @ map (\<lambda>m. (callback_of m, True, False)) ms))"

lemma observed_complete: "observed (complete_messages False ms c) = lose ms (observed c)"
  by (induction False ms c rule: complete_messages.induct) (simp_all add: lose_def observed_def tcp_inc_def Let_def)

lemma observed_close:
  assumes "i < length (tc_links c)" "lk_state (link_of c i) \<noteq> Closed"
  shows "observed (closeLink i type c) = lose (lk_inflight (link_of c i)) (observed c)"
proof -
  have lose_nil: "lose [] x = x" for x by (simp add: lose_def split: prod.split)
  have "observed (on_close_event i d) = observed d"
    if "i < length (tc_links d)" "lk_inflight (link_of d i) = []" "lk_state (link_of d i) = Closed" for d
    using that by (simp add: on_close_event_def Let_def case_prod_beta completeInflight_def observed_complete lose_nil)
  then show ?thesis using assms
    by (simp add: closeLink_def Let_def completeInflight_def observed_complete)
qed

lemma observed_mismatch:
  assumes "i < length (tc_links c)" "lk_state (link_of c i) \<noteq> Closed"
  shows "observed (onEchoMismatch i c) =
    lose (lk_inflight (link_of c i)) (apsnd (apfst Suc) (observed c))"
proof -
  have "observed (tcp_inc tcp_echo_mismatch c) = apsnd (apfst Suc) (observed c)" by (simp add: observed_def tcp_inc_def)
  then show ?thesis using observed_close [of i "tcp_inc tcp_echo_mismatch c" NoFlush] assms
    by (simp add: onEchoMismatch_def Let_def)
qed

definition answer :: "TcpBenchmarkClient \<Rightarrow> InflightMessage list \<Rightarrow> nat \<times> nat \<times> nat \<times> sample list \<times> (nat \<times> bool \<times> bool) list \<Rightarrow>
    nat \<times> nat \<times> nat \<times> sample list \<times> (nat \<times> bool \<times> bool) list" where
  "answer c ms = (\<lambda>(received, mismatches, lost, latencies, callbacks).
     (received + length ms, mismatches, lost,
      latencies @ (if tc_measure_latencies c then map (\<lambda>m. word_of_int (tc_now c - sent_at m)) ms else []),
      callbacks @ map (\<lambda>m. (callback_of m, True, True)) ms))"

definition matching_outcome :: "TcpBenchmarkClient \<Rightarrow> TcpState \<Rightarrow> string \<Rightarrow> InflightMessage list \<Rightarrow>
    nat \<times> nat \<times> nat \<times> sample list \<times> (nat \<times> bool \<times> bool) list" where
  "matching_outcome c st b q =
     (let n = min (leading (tc_message c) b) (length q);
          done = answer c (take n q) (observed c)
      in if n < length b div length (tc_message c) \<and> (st = Retiring \<longrightarrow> n < length q)
         then lose (drop n q) (apsnd (apfst Suc) done) else done)"

lemma answer_nil [simp]: "answer c [] x = x"
  by (simp add: answer_def split: prod.split)

lemma outcome_short:
  assumes "length b < length (tc_message c)"
  shows "matching_outcome c st b q = observed c"
  using assms leading.simps [of "tc_message c" b] by (simp add: matching_outcome_def Let_def)

lemma outcome_broken:
  assumes "tc_message c \<noteq> []" "length (tc_message c) \<le> length b" "q = [] \<or> take (length (tc_message c)) b \<noteq> tc_message c"
    "st = Retiring \<longrightarrow> q \<noteq> []"
  shows "matching_outcome c st b q = lose q (apsnd (apfst Suc) (observed c))"
proof -
  have "0 < length b div length (tc_message c)" using assms(1,2) by (simp add: div_greater_zero_iff)
  moreover have "min (leading (tc_message c) b) (length q) = 0" using assms(3) leading.simps [of "tc_message c" b] by auto
  ultimately show ?thesis using assms(4) unfolding matching_outcome_def Let_def by simp
qed

lemma outcome_step:
  assumes "tc_message c \<noteq> []" "length (tc_message c) \<le> length b" "take (length (tc_message c)) b = tc_message c"
    and "observed c' = answer c [m] (observed c)" "tc_message c' = tc_message c" "tc_now c' = tc_now c"
      "tc_measure_latencies c' = tc_measure_latencies c"
  shows "matching_outcome c st b (m # ms) = matching_outcome c' st (drop (length (tc_message c)) b) ms"
proof -
  let ?n = "length (tc_message c)"
  let ?k = "min (leading (tc_message c) (drop ?n b)) (length ms)"
  have "leading (tc_message c) b = Suc (leading (tc_message c) (drop ?n b))"
    using assms(1-3) leading.simps [of "tc_message c" b] by (simp only: simp_thms if_True)
  then have n: "min (leading (tc_message c) b) (length (m # ms)) = Suc ?k" by simp
  have d: "length b div ?n = Suc (length (drop ?n b) div ?n)" using assms(1,2) by (simp add: le_div_geq)
  have a: "answer c (take (Suc ?k) (m # ms)) (observed c) = answer c' (take ?k ms) (observed c')"
    unfolding assms(4) by (cases "observed c") (simp add: answer_def assms(6,7))
  show ?thesis unfolding matching_outcome_def Let_def n a d assms(5) by auto
qed

lemma onEcho_match:
  assumes i: "i < length (tc_links c)" "lk_state (link_of c i) \<noteq> Closed" and m: "lk_inflight (link_of c i) = m # ms"
  defines "c' \<equiv> onEcho i (tc_message c) c"
  shows "observed c' = answer c [m] (observed c)"
    "link_of c' i = (if lk_state (link_of c i) = Retiring \<and> ms = [] then closed_link ((link_of c i)\<lparr>lk_inflight := ms\<rparr>)
       else (link_of c i)\<lparr>lk_inflight := ms\<rparr>)"
    "length (tc_links c') = length (tc_links c)"
    "tc_message c' = tc_message c" "tc_now c' = tc_now c" "tc_measure_latencies c' = tc_measure_latencies c"
proof -
  let ?c1 = "tcp_inc tcp_messages_received (upd_link i (\<lambda>l. l\<lparr>lk_inflight := ms\<rparr>) c)"
  let ?c2 = "if tc_measure_latencies ?c1 then ?c1\<lparr>message_latency := message_latency ?c1 @ [word_of_int (tc_now ?c1 - sent_at m)]\<rparr> else ?c1"
  define c3 where "c3 = ?c2\<lparr>tc_callbacks := tc_callbacks ?c2 @ [(callback_of m, True, True)]\<rparr>"
  have eq: "c' = maybeExitWaitLoop (if lk_state (link_of c3 i) = Retiring \<and> ms = [] then closeLink i FlushWrite c3 else c3)"
    unfolding c'_def c3_def using m by (simp add: onEcho_def Let_def)
  have obs: "observed c3 = answer c [m] (observed c)" by (simp add: c3_def observed_def answer_def tcp_inc_def upd_link_def)
  have links: "tc_links c3 = (tc_links c)[i := (link_of c i)\<lparr>lk_inflight := ms\<rparr>]" by (simp add: c3_def)
  have "observed (closeLink i FlushWrite c3) = observed c3" if "ms = []"
    using observed_close [of i c3 FlushWrite] i that links by (simp add: lose_def split: prod.split)
  then show "observed c' = answer c [m] (observed c)" unfolding eq using obs by simp
  show "link_of c' i = (if lk_state (link_of c i) = Retiring \<and> ms = [] then closed_link ((link_of c i)\<lparr>lk_inflight := ms\<rparr>)
       else (link_of c i)\<lparr>lk_inflight := ms\<rparr>)" "length (tc_links c') = length (tc_links c)"
    unfolding eq using i links by simp_all
  show "tc_message c' = tc_message c" "tc_measure_latencies c' = tc_measure_latencies c" "tc_now c' = tc_now c"
    unfolding c'_def by (rule ctlD ctl_ops scalD scal_ops)+
qed

lemma echo_loop_outcome:
  assumes "tcp_matching i c" "tc_message c \<noteq> []" "lk_state (link_of c i) = Retiring \<longrightarrow> lk_inflight (link_of c i) \<noteq> []"
  shows "observed (echo_loop i c) =
    matching_outcome c (lk_state (link_of c i)) (lk_received (link_of c i)) (lk_inflight (link_of c i))"
  using assms
proof (induction i c rule: echo_loop.induct)
  case (1 i c)
  let ?n = "length (tc_message c)" and ?b = "lk_received (link_of c i)" and ?q = "lk_inflight (link_of c i)"
  let ?c = "upd_link i (\<lambda>l. l\<lparr>lk_received := drop ?n ?b\<rparr>) c"
  have i: "i < length (tc_links c)" "lk_state (link_of c i) \<noteq> Closed" using 1(2) by (auto simp: tcp_matching_def)
  show ?case
  proof (cases "length ?b < ?n")
    case True
    then show ?thesis by (subst echo_loop.simps) (simp add: Let_def outcome_short)
  next
    case False
    then have loop: "echo_loop i c = echo_loop i (onEcho i (take ?n ?b) ?c)"
      using 1(2) by (subst echo_loop.simps) (simp add: Let_def)
    show ?thesis
    proof (cases "?q = [] \<or> take ?n ?b \<noteq> tc_message c")
      case True
      then have "onEcho i (take ?n ?b) ?c = onEchoMismatch i ?c"
        using i ctlD(3) [OF ctl_basic(3)] by (auto simp: onEcho_def split: list.split)
      moreover have "\<not> tcp_matching i (onEchoMismatch i ?c)" using i by (simp add: tcp_matching_def closed_link_def)
      then have "echo_loop i (onEchoMismatch i ?c) = onEchoMismatch i ?c" by (subst echo_loop.simps) (simp add: Let_def)
      moreover have "observed (onEchoMismatch i ?c) = lose ?q (apsnd (apfst Suc) (observed c))"
        using observed_mismatch [of i ?c] i by simp
      ultimately show ?thesis using loop outcome_broken [OF 1(3) _ True 1(4)] False by simp
    next
      case match: False
      then obtain m ms where m: "?q = m # ms" by (cases ?q) auto
      let ?d = "onEcho i (take ?n ?b) ?c"
      have msg: "tc_message ?c = tc_message c" "tc_now ?c = tc_now c" "tc_measure_latencies ?c = tc_measure_latencies c"
        by (simp_all add: upd_link_def)
      have d: "?d = onEcho i (tc_message ?c) ?c" using match msg by simp
      have c: "i < length (tc_links ?c)" "lk_state (link_of ?c i) \<noteq> Closed" "lk_inflight (link_of ?c i) = m # ms" using i m by simp_all
      note eff = onEcho_match [OF c, folded d]
      have obs: "observed ?d = answer c [m] (observed c)" using eff(1) msg by (simp add: answer_def)
      have out: "matching_outcome c st ?b ?q = matching_outcome ?d st (drop ?n ?b) ms" for st
        unfolding m by (rule outcome_step) (use 1(3) False match obs eff(4-6) msg in simp_all)
      show ?thesis
      proof (cases "lk_state (link_of c i) = Retiring \<and> ms = []")
        case True
        have "matching_outcome ?d Retiring (drop ?n ?b) [] = observed ?d" by (simp add: matching_outcome_def Let_def)
        moreover have "\<not> tcp_matching i ?d" using eff(2) True i by (simp add: tcp_matching_def)
        then have "echo_loop i ?d = ?d" by (subst echo_loop.simps) (simp add: Let_def)
        ultimately show ?thesis using loop out True by simp
      next
        case go_on: False
        then have link: "link_of ?d i = (link_of c i)\<lparr>lk_received := drop ?n ?b, lk_inflight := ms\<rparr>"
          unfolding eff(2) using i by auto
        have matching: "tcp_matching i ?d" using 1(2) link eff(3) i by (simp add: tcp_matching_def)
        have "observed (echo_loop i ?d) = matching_outcome ?d (lk_state (link_of ?d i)) (lk_received (link_of ?d i)) (lk_inflight (link_of ?d i))"
          by (rule 1(1) [OF refl refl]) (use 1(2,3) False matching eff(4) msg link go_on in auto)
        then show ?thesis using loop out link by simp
      qed
    qed
  qed
qed

subsection \<open>Properties\<close>

text \<open>
  C3: every message the TCP client was asked to send is accounted for exactly once, in every reachable state:
  its completion callback has run, is posted, or is held by exactly one message in flight, never two of
  these; every request was sent, deferred or found no connection; with echoes, what was sent is what came
  back, what was lost and what is in flight; and when \<open>finish\<close> has returned nothing is in flight.
\<close>

theorem tcp_messages_accounted:
  assumes "mk_TcpBenchmarkClient connections limit echo drain time_out max_messages now = Inr c0" "tcp_reachable c0 c"
  shows "mset (map fst (tc_callbacks c)) + mset (map fst (tc_posted c)) + mset (map callback_of (inflights c)) = mset [0..<tc_started c] \<and>
    tc_started c = tc_counters c tcp_messages_sent + tc_counters c tcp_deferred + tc_counters c tcp_unavailable \<and>
    (expect_echo c \<longrightarrow> tc_counters c tcp_messages_sent =
       tc_counters c tcp_messages_received + tc_counters c tcp_inflight_lost + length (inflights c)) \<and>
    (tc_finished c \<and> waiting_for c = WaitNothing \<longrightarrow> inflights c = [])"
proof -
  have ok: "tcp_ok c" "tcp_account c" using tcp_reachable_ok [OF assms(2,1)] by simp_all
  have "inflights c = []" if "tc_finished c" "waiting_for c = WaitNothing"
  proof -
    have "lk_inflight (link_of c i) = []" if "i < length (tc_links c)" for i
      using that pool_basic(4) [of c i] ok(1) \<open>tc_finished c\<close> \<open>waiting_for c = WaitNothing\<close> by (simp add: tcp_ok_def link_ok_def)
    then show ?thesis by (auto simp: inflights_def in_set_conv_nth)
  qed
  then show ?thesis using ok(2) by (simp add: tcp_account_def)
qed

text \<open>
  C4: a slot never stays down for good. Until the client finishes, every slot in every reachable state has an
  open connection, or one that is connecting under a timer within the connect timeout, or a retry due within
  one second.
\<close>

theorem tcp_slots_recover:
  assumes "mk_TcpBenchmarkClient connections limit echo drain time_out max_messages now = Inr c0" "tcp_reachable c0 c"
    and "\<not> tc_finished c" "s < tc_prepared c"
  shows "(\<exists>a. sl_active (slot_of c s) = Some a \<and> lk_state (link_of c a) = Open) \<or>
    (\<exists>i due. (sl_active (slot_of c s) = Some i \<or> sl_standby (slot_of c s) = Some i) \<and> lk_slot (link_of c i) = s \<and>
       lk_state (link_of c i) = Connecting \<and> lk_timer (link_of c i) = Some due \<and> due \<le> tc_now c + tc_timeout c) \<or>
    (\<exists>due. sl_retry_timer (slot_of c s) = Some due \<and> due \<le> tc_now c + 1000 * one_millisecond)"
proof -
  have pool: "pool_ok c" using tcp_reachable_ok [OF assms(2,1)] by (simp add: tcp_ok_def)
  then have s: "s < connection_count c" using assms(4) by (simp add: pool_ok_def)
  note slot = slot_okD [OF pool_basic(3) [OF pool s]]
  have connecting: "lk_slot (link_of c i) = s \<and> (\<exists>due. lk_timer (link_of c i) = Some due \<and> due \<le> tc_now c + tc_timeout c)"
    if "i \<in> set (slot_links (slot_of c s))" "lk_state (link_of c i) = Connecting" for i
    using pool_basic(4) [OF pool slot(2) [OF that(1)]] slot(3) [OF that(1)] that(2) by (simp add: link_ok_def)
  show ?thesis
  proof (cases "sl_active (slot_of c s)")
    case (Some a)
    then have "lk_state (link_of c a) = Open \<or> lk_state (link_of c a) = Connecting"
      using slot(4) [OF Some] assms(3) by (cases "lk_state (link_of c a)") (auto simp: active_state_def)
    then show ?thesis using connecting [OF in_slot_links(1) [OF Some]] Some by blast
  next
    case None
    show ?thesis
    proof (cases "sl_standby (slot_of c s)")
      case (Some b)
      then show ?thesis using connecting [OF in_slot_links(2) [OF Some]] slot(5) [OF Some] by blast
    next
      case none: None
      then obtain due where "sl_retry_timer (slot_of c s) = Some due" using slot(9) None assms(3,4) by fastforce
      then show ?thesis using slot(12) by (simp add: MaxBackoff_def)
    qed
  qed
qed

text \<open>
  C5: only exact echoes are counted and timed. Whatever bytes arrive on a connection of a reachable client, the
  number of messages received grows by the number of exact copies of the message the stream starts with, as
  far as messages are outstanding, in the order they were sent; the first thing that is not an echo is
  counted as one mismatch and loses, untimed, exactly the rest.
\<close>

theorem tcp_echo_matching:
  assumes "mk_TcpBenchmarkClient connections limit echo drain time_out max_messages now = Inr c0" "tcp_reachable c0 c"
    and "expect_echo c" "tc_message c \<noteq> []" "tcp_matching i c"
  shows "let b = lk_received (link_of c i) @ data; q = lk_inflight (link_of c i);
             n = min (leading (tc_message c) b) (length q);
             broken = (n < length b div length (tc_message c) \<and> (lk_state (link_of c i) = Retiring \<longrightarrow> n < length q));
             c' = onData i data c
         in tc_counters c' tcp_messages_received = tc_counters c tcp_messages_received + n \<and>
            tc_counters c' tcp_echo_mismatch = tc_counters c tcp_echo_mismatch + of_bool broken \<and>
            tc_counters c' tcp_inflight_lost = tc_counters c tcp_inflight_lost + (if broken then length q - n else 0) \<and>
            message_latency c' = message_latency c @
              (if tc_measure_latencies c then map (\<lambda>m. word_of_int (tc_now c - sent_at m)) (take n q) else []) \<and>
            tc_callbacks c' = tc_callbacks c @ map (\<lambda>m. (callback_of m, True, True)) (take n q) @
              (if broken then map (\<lambda>m. (callback_of m, True, False)) (drop n q) else [])"
proof -
  have i: "i < length (tc_links c)" using assms(5) by (simp add: tcp_matching_def)
  have pool: "pool_ok c" using tcp_reachable_ok [OF assms(2,1)] by (simp add: tcp_ok_def)
  let ?c = "upd_link i (\<lambda>l. l\<lparr>lk_received := lk_received l @ data\<rparr>) c"
  have link: "link_of ?c i = (link_of c i)\<lparr>lk_received := lk_received (link_of c i) @ data\<rparr>" using i by simp
  have "tcp_matching i ?c" using assms(5) link i by (simp add: tcp_matching_def)
  moreover have "tc_message ?c = tc_message c" "tc_now ?c = tc_now c" "tc_measure_latencies ?c = tc_measure_latencies c"
    by (simp_all add: upd_link_def)
  moreover have "lk_state (link_of ?c i) = Retiring \<longrightarrow> lk_inflight (link_of ?c i) \<noteq> []"
    using pool_basic(4) [OF pool i] link by (simp add: link_ok_def)
  ultimately have "observed (onData i data c) =
      matching_outcome c (lk_state (link_of c i)) (lk_received (link_of c i) @ data) (lk_inflight (link_of c i))"
    using echo_loop_outcome [of i ?c] assms(3-5) link
    by (auto simp: onData_def tcp_matching_def matching_outcome_def answer_def)
  then show ?thesis
    by (auto simp: observed_def matching_outcome_def answer_def lose_def Let_def split: if_splits)
qed

subsection \<open>A client with one connection\<close>

definition sample_tcp :: TcpBenchmarkClient where
  "sample_tcp =
     \<lparr>tc_counters = (\<lambda>_. 0), message_latency = [], connect_latency = [], connection_count = 1, max_inflight_per_connection = 4,
      expect_echo = True, drain_duration = 0, tc_timeout = one_second, max_messages_per_connection = 0,
      tc_slots = [\<lparr>sl_active = None, sl_standby = None, sl_retiring = [], sl_retry_timer = None, sl_backoff = InitialBackoff,
        sl_last_retry = None\<rparr>],
      tc_links = [], tc_message = [], next_slot = 0, pending_opens = 0, tc_measure_latencies = False,
      waiting_for = WaitNothing, drain_timer = None, tc_finished = False, tc_now = 0, tc_started = 0, tc_prepared = 0,
      tc_posted = [], tc_callbacks = [], tc_exit = False\<rparr>"

definition sample_tcp_open :: TcpBenchmarkClient where
  "sample_tcp_open = on_connected 0 (prepare_open True (sample_tcp\<lparr>tc_message := ''ab''\<rparr>))"

definition sample_tcp_sent :: TcpBenchmarkClient where
  "sample_tcp_sent = tcp_tryStartRequest True sample_tcp_open"

lemma sample_tcp_made: "mk_TcpBenchmarkClient 1 4 True 0 one_second 0 0 = Inr sample_tcp"
  by (simp add: mk_TcpBenchmarkClient_def sample_tcp_def)

lemma sample_tcp_reachable:
  "tcp_reachable sample_tcp sample_tcp_open" "tcp_reachable sample_tcp sample_tcp_sent"
proof -
  let ?c1 = "sample_tcp\<lparr>tc_message := ''ab''\<rparr>"
  have "tcp_step sample_tcp ?c1"
    by (rule tcp_prepare_begin [of _ "Some ''ab''"]) (simp_all add: sample_tcp_def prepare_begin_def)
  moreover have "tcp_step ?c1 (prepare_open True ?c1)" by (rule tcp_prepare_open) (simp_all add: sample_tcp_def)
  moreover have "tcp_step (prepare_open True ?c1) sample_tcp_open" unfolding sample_tcp_open_def
    by (rule tcp_connected) code_simp+
  ultimately show first: "tcp_reachable sample_tcp sample_tcp_open" by (meson tcp_reachable.intros)
  have "tcp_step sample_tcp_open sample_tcp_sent" unfolding sample_tcp_sent_def by (rule tcp_request) code_simp
  with first show "tcp_reachable sample_tcp sample_tcp_sent" by (rule tcp_next)
qed

theorem tcp_messages_accounted_witness:
  "tc_counters sample_tcp_sent tcp_messages_sent = 1 \<and> length (inflights sample_tcp_sent) = 1"
proof -
  have "tc_counters sample_tcp_sent tcp_messages_sent = 1" "tc_counters sample_tcp_sent tcp_messages_received = 0"
      "tc_counters sample_tcp_sent tcp_inflight_lost = 0" "expect_echo sample_tcp_sent"
    by code_simp+
  then show ?thesis using tcp_messages_accounted [OF sample_tcp_made sample_tcp_reachable(2)] by simp
qed

theorem tcp_slots_recover_witness:
  "\<exists>a. sl_active (slot_of sample_tcp_open 0) = Some a \<and> lk_state (link_of sample_tcp_open a) = Open"
proof -
  have "\<not> tc_finished sample_tcp_open" "0 < tc_prepared sample_tcp_open" "sl_retry_timer (slot_of sample_tcp_open 0) = None"
      "sl_active (slot_of sample_tcp_open 0) = Some 0" "sl_standby (slot_of sample_tcp_open 0) = None"
      "lk_state (link_of sample_tcp_open 0) \<noteq> Connecting"
    by code_simp+
  then show ?thesis using tcp_slots_recover [OF sample_tcp_made sample_tcp_reachable(1), of 0] by auto
qed

theorem tcp_echo_matching_witness:
  "tc_counters (onData 0 ''abc'' sample_tcp_sent) tcp_messages_received = 1 \<and>
   tc_counters (onData 0 ''abc'' sample_tcp_sent) tcp_echo_mismatch = 0"
proof -
  have "expect_echo sample_tcp_sent" "tc_message sample_tcp_sent \<noteq> []" "tcp_matching 0 sample_tcp_sent"
      "lk_received (link_of sample_tcp_sent 0) = []" "length (lk_inflight (link_of sample_tcp_sent 0)) = 1"
      "tc_message sample_tcp_sent = ''ab''" "tc_counters sample_tcp_sent tcp_messages_received = 0"
      "tc_counters sample_tcp_sent tcp_echo_mismatch = 0" "leading ''ab'' ''abc'' = 1"
    by code_simp+
  moreover have "Suc (Suc (Suc 0)) div Suc (Suc 0) = Suc 0" by (simp add: div_nat_eqI)
  ultimately show ?thesis using tcp_echo_matching [OF sample_tcp_made sample_tcp_reachable(2), of 0 "''abc''"] by (simp add: Let_def)
qed

end
