(* ===== verification/MessageLedger.thy ===== *)
theory MessageLedger
  imports Prelude "HOL-Library.Multiset"
begin

text \<open>
  What every message client promises its sequencer, as an abstract specification: each request it accepts
  is completed exactly once, and its counters add up. A client either drops a request, whose completion is
  then posted to the dispatcher, or sends it; what was sent is answered or lost. The locale
  \<open>ledger_client\<close> is the refinement contract, and the clients that implement it get the account from here.
\<close>

subsection \<open>The specification\<close>

text \<open>
  Requests are numbered in the order they are started; a completed or posted one carries the success it is
  reported with.
\<close>

record ledger =
  lg_started :: nat
  lg_completed :: "(nat \<times> bool) multiset"
  lg_posted :: "(nat \<times> bool) multiset"
  lg_inflight :: "nat multiset"
  lg_sent :: nat
  lg_dropped :: nat
  lg_received :: nat
  lg_lost :: nat

definition empty_ledger :: ledger where
  "empty_ledger = \<lparr>lg_started = 0, lg_completed = {#}, lg_posted = {#}, lg_inflight = {#}, lg_sent = 0, lg_dropped = 0,
     lg_received = 0, lg_lost = 0\<rparr>"

definition lg_drop :: "ledger \<Rightarrow> ledger" where
  "lg_drop l = l\<lparr>lg_started := lg_started l + 1, lg_posted := add_mset (lg_started l, False) (lg_posted l),
     lg_dropped := lg_dropped l + 1\<rparr>"

definition lg_send :: "ledger \<Rightarrow> ledger" where
  "lg_send l = l\<lparr>lg_started := lg_started l + 1, lg_inflight := add_mset (lg_started l) (lg_inflight l),
     lg_sent := lg_sent l + 1\<rparr>"

definition lg_answer :: "nat \<Rightarrow> ledger \<Rightarrow> ledger" where
  "lg_answer r l = l\<lparr>lg_inflight := lg_inflight l - {#r#}, lg_completed := add_mset (r, True) (lg_completed l),
     lg_received := lg_received l + 1\<rparr>"

definition lg_lose :: "nat \<Rightarrow> ledger \<Rightarrow> ledger" where
  "lg_lose r l = l\<lparr>lg_inflight := lg_inflight l - {#r#}, lg_completed := add_mset (r, False) (lg_completed l),
     lg_lost := lg_lost l + 1\<rparr>"

definition lg_run :: "nat \<times> bool \<Rightarrow> ledger \<Rightarrow> ledger" where
  "lg_run p l = l\<lparr>lg_posted := lg_posted l - {#p#}, lg_completed := add_mset p (lg_completed l)\<rparr>"

inductive ledger_step :: "ledger \<Rightarrow> ledger \<Rightarrow> bool" where
  ledger_drop: "ledger_step l (lg_drop l)"
| ledger_send: "ledger_step l (lg_send l)"
| ledger_answer: "r \<in># lg_inflight l \<Longrightarrow> ledger_step l (lg_answer r l)"
| ledger_lose: "r \<in># lg_inflight l \<Longrightarrow> ledger_step l (lg_lose r l)"
| ledger_run: "p \<in># lg_posted l \<Longrightarrow> ledger_step l (lg_run p l)"

definition ledger_ok :: "ledger \<Rightarrow> bool" where
  "ledger_ok l \<longleftrightarrow>
     image_mset fst (lg_completed l) + image_mset fst (lg_posted l) + lg_inflight l = mset [0..<lg_started l] \<and>
     lg_started l = lg_sent l + lg_dropped l \<and>
     lg_sent l = lg_received l + lg_lost l + size (lg_inflight l) \<and>
     size (filter_mset snd (lg_completed l)) = lg_received l \<and>
     filter_mset snd (lg_posted l) = {#}"

lemma ledger_ok_empty: "ledger_ok empty_ledger"
  by (simp add: ledger_ok_def empty_ledger_def)

lemma ledger_ok_step: "ledger_step l l' \<Longrightarrow> ledger_ok l \<Longrightarrow> ledger_ok l'"
proof (induction rule: ledger_step.induct)
  case (ledger_drop l)
  then show ?case by (auto simp: ledger_ok_def lg_drop_def simp del: mset_upt)
next
  case (ledger_send l)
  then show ?case by (auto simp: ledger_ok_def lg_send_def simp del: mset_upt)
next
  case (ledger_answer r l)
  then obtain M where "lg_inflight l = add_mset r M" by (meson mset_add)
  with ledger_answer show ?case by (auto simp: ledger_ok_def lg_answer_def simp del: mset_upt)
next
  case (ledger_lose r l)
  then obtain M where "lg_inflight l = add_mset r M" by (meson mset_add)
  with ledger_lose show ?case by (auto simp: ledger_ok_def lg_lose_def simp del: mset_upt)
next
  case (ledger_run p l)
  then obtain M where "lg_posted l = add_mset p M" by (meson mset_add)
  with ledger_run show ?case by (auto simp: ledger_ok_def lg_run_def simp del: mset_upt split: if_splits)
qed

lemma ledger_ok_steps: "ledger_step\<^sup>*\<^sup>* l l' \<Longrightarrow> ledger_ok l \<Longrightarrow> ledger_ok l'"
  by (induction rule: rtranclp_induct) (auto intro: ledger_ok_step)

text \<open>Completing a queue of messages one by one, as the clients do when a connection goes away.\<close>

definition lg_lose_all :: "nat list \<Rightarrow> ledger \<Rightarrow> ledger" where
  "lg_lose_all rs l = l\<lparr>lg_inflight := lg_inflight l - mset rs,
     lg_completed := mset (map (\<lambda>r. (r, False)) rs) + lg_completed l, lg_lost := lg_lost l + length rs\<rparr>"

definition lg_answer_all :: "nat list \<Rightarrow> ledger \<Rightarrow> ledger" where
  "lg_answer_all rs l = l\<lparr>lg_inflight := lg_inflight l - mset rs,
     lg_completed := mset (map (\<lambda>r. (r, True)) rs) + lg_completed l, lg_received := lg_received l + length rs\<rparr>"

lemma lose_all_steps: "mset rs \<subseteq># lg_inflight l \<Longrightarrow> ledger_step\<^sup>*\<^sup>* l (lg_lose_all rs l)"
proof (induction rs arbitrary: l)
  case Nil
  then show ?case by (simp add: lg_lose_all_def)
next
  case (Cons r rs)
  then have r: "r \<in># lg_inflight l" by (auto dest: mset_subset_eqD)
  have "mset rs \<subseteq># lg_inflight (lg_lose r l)"
    using Cons.prems by (simp add: lg_lose_def insert_subset_eq_iff)
  then have "ledger_step\<^sup>*\<^sup>* (lg_lose r l) (lg_lose_all rs (lg_lose r l))" by (rule Cons.IH)
  moreover have "lg_lose_all rs (lg_lose r l) = lg_lose_all (r # rs) l"
    by (simp add: lg_lose_all_def lg_lose_def)
  ultimately show ?case using ledger_lose [OF r] by (metis converse_rtranclp_into_rtranclp)
qed

lemma answer_all_steps: "mset rs \<subseteq># lg_inflight l \<Longrightarrow> ledger_step\<^sup>*\<^sup>* l (lg_answer_all rs l)"
proof (induction rs arbitrary: l)
  case Nil
  then show ?case by (simp add: lg_answer_all_def)
next
  case (Cons r rs)
  then have r: "r \<in># lg_inflight l" by (auto dest: mset_subset_eqD)
  have "mset rs \<subseteq># lg_inflight (lg_answer r l)"
    using Cons.prems by (simp add: lg_answer_def insert_subset_eq_iff)
  then have "ledger_step\<^sup>*\<^sup>* (lg_answer r l) (lg_answer_all rs (lg_answer r l))" by (rule Cons.IH)
  moreover have "lg_answer_all rs (lg_answer r l) = lg_answer_all (r # rs) l"
    by (simp add: lg_answer_all_def lg_answer_def)
  ultimately show ?case using ledger_answer [OF r] by (metis converse_rtranclp_into_rtranclp)
qed

subsection \<open>Updating one connection of many\<close>

lemma mset_concat_update:
  "i < length xs \<Longrightarrow> mset (concat (map f (xs[i := x]))) + mset (f (xs ! i)) = mset (concat (map f xs)) + mset (f x)"
proof (induction xs arbitrary: i)
  case (Cons y ys)
  show ?case
  proof (cases i)
    case (Suc j)
    then have "mset (concat (map f (ys[j := x]))) + mset (f (ys ! j)) = mset (concat (map f ys)) + mset (f x)"
      using Cons by simp
    then show ?thesis using Suc by (simp add: ac_simps)
  qed simp
qed simp

lemma mset_concat_nth: "i < length xs \<Longrightarrow> mset (f (xs ! i)) \<subseteq># mset (concat (map f xs))"
proof (induction xs arbitrary: i)
  case (Cons y ys)
  then show ?case by (cases i) (auto intro: subset_mset.add_increasing)
qed simp

lemma length_filter_update:
  "i < length xs \<Longrightarrow> length (filter P (xs[i := x])) + of_bool (P (xs ! i)) = length (filter P xs) + of_bool (P x)"
proof (induction xs arbitrary: i)
  case (Cons y ys)
  then show ?case by (cases i) auto
qed simp

subsection \<open>The refinement contract\<close>

locale ledger_client =
  fixes initial :: "'c \<Rightarrow> bool"
    and step :: "'c \<Rightarrow> 'c \<Rightarrow> bool"
    and inv :: "'c \<Rightarrow> bool"
    and ledger_of :: "'c \<Rightarrow> ledger"
  assumes initial_inv: "initial c \<Longrightarrow> inv c"
    and step_inv: "inv c \<Longrightarrow> step c c' \<Longrightarrow> inv c'"
    and initial_ledger: "initial c \<Longrightarrow> ledger_of c = empty_ledger"
    and step_refines: "inv c \<Longrightarrow> step c c' \<Longrightarrow> ledger_step\<^sup>*\<^sup>* (ledger_of c) (ledger_of c')"
begin

lemma reachable_inv: "step\<^sup>*\<^sup>* c c' \<Longrightarrow> initial c \<Longrightarrow> inv c'"
  by (induction rule: rtranclp_induct) (auto intro: initial_inv step_inv)

lemma reachable_refines: "step\<^sup>*\<^sup>* c c' \<Longrightarrow> initial c \<Longrightarrow> ledger_step\<^sup>*\<^sup>* empty_ledger (ledger_of c')"
proof (induction rule: rtranclp_induct)
  case base
  then show ?case by (simp add: initial_ledger)
next
  case (step c1 c2)
  then show ?case using step_refines [of c1 c2] reachable_inv [of c c1] by (meson rtranclp_trans)
qed

lemma reachable_account: "step\<^sup>*\<^sup>* c c' \<Longrightarrow> initial c \<Longrightarrow> ledger_ok (ledger_of c')"
  using reachable_refines ledger_ok_steps ledger_ok_empty by blast

end

end
