(* ===== verification/GrpcStream.thy ===== *)
theory GrpcStream
  imports MessageLedger Statistics Options
begin

text \<open>
  The gRPC bidirectional streaming client (\<^verbatim>\<open>client/grpc_stream_client_impl.cc\<close>): a fixed number of streams
  opened through the connection pool, messages sent round robin and answered in order, and the half-close
  and drain at the end. The pool, the HTTP/2 codec and the dispatcher are a step relation: they raise the
  events of a stream they were handed, fire due timers and run posted callbacks, in any order. How many
  message frames Envoy's decoder finds in a piece of data is an argument. Time is in nanoseconds.
\<close>

subsection \<open>State\<close>

datatype grpc_counter =
    G_streams_opened | G_stream_open_failures | G_stream_messages_sent | G_stream_messages_received
  | G_stream_deferred | G_stream_unavailable | G_stream_resets | G_stream_early_close
  | G_stream_unexpected_message | G_stream_inflight_lost | G_stream_drain_incomplete | G_stream_write_blocked

datatype GrpcStreamState = GOpening | GOpen | GHalfClosed | GClosed

datatype GrpcWaitingFor = GWaitNothing | GWaitOpens | GWaitCloses

record GrpcMessage =
  gm_sent_at :: nanos
  gm_callback :: nat

text \<open>Of the encoder and the cancellable only whether the pointer is set matters.\<close>

record GrpcStream =
  gs_state :: GrpcStreamState
  gs_encoder :: bool
  gs_cancellable :: bool
  gs_inflight :: "GrpcMessage list"
  gs_write_blocked :: bool

text \<open>
  The members of the client, and as for the other clients the clock, the posted and the executed completion
  callbacks with their success flag, whether the running loop was asked to exit, the number of requests and
  of streams \<open>prepare\<close> has opened so far. The counter of pending opens is an unsigned 32 bit integer.
\<close>

record GrpcStreamClient =
  gc_counters :: "grpc_counter \<Rightarrow> nat"
  gc_status :: "nat option \<Rightarrow> nat"
  gc_latency :: "sample list"
  gc_stream_count :: nat
  gc_max_inflight :: nat
  gc_drain_duration :: nanos
  gc_open_timeout :: nanos
  gc_streams :: "GrpcStream list"
  gc_message :: string
  gc_next_stream :: nat
  gc_pending_opens :: "32 word"
  gc_measure_latencies :: bool
  gc_waiting_for :: GrpcWaitingFor
  gc_wait_timer :: "nanos option"
  gc_finished :: bool
  gc_now :: nanos
  gc_started :: nat
  gc_prepared :: nat
  gc_posted :: "(nat \<times> bool) list"
  gc_callbacks :: "(nat \<times> bool) list"
  gc_exit :: bool

definition fresh_stream :: GrpcStream where
  "fresh_stream = \<lparr>gs_state = GOpening, gs_encoder = False, gs_cancellable = False, gs_inflight = [], gs_write_blocked = False\<rparr>"

definition mk_GrpcStreamClient :: "nat \<Rightarrow> nat \<Rightarrow> nanos \<Rightarrow> nanos \<Rightarrow> nanos \<Rightarrow> GrpcStreamClient result" where
  "mk_GrpcStreamClient streams inflight_limit drain open_timeout now =
     (if streams = 0 then Inl (Panic ''at least one stream is required'')
      else if inflight_limit = 0 then Inl (Panic ''max_inflight_per_stream must be positive'')
      else Inr
        \<lparr>gc_counters = (\<lambda>_. 0), gc_status = (\<lambda>_. 0), gc_latency = [], gc_stream_count = streams, gc_max_inflight = inflight_limit,
         gc_drain_duration = drain, gc_open_timeout = open_timeout, gc_streams = replicate streams fresh_stream,
         gc_message = [], gc_next_stream = 0, gc_pending_opens = 0, gc_measure_latencies = False,
         gc_waiting_for = GWaitNothing, gc_wait_timer = None, gc_finished = False, gc_now = now, gc_started = 0,
         gc_prepared = 0, gc_posted = [], gc_callbacks = [], gc_exit = False\<rparr>)"

text \<open>
  What \<^verbatim>\<open>BenchmarkClientFactoryImpl::create\<close> passes on: the streams are divided over the workers, whose
  number it reads again from the options.
\<close>

definition create_grpc_stream_client :: "OptionsImpl \<Rightarrow> nat \<Rightarrow> nanos \<Rightarrow> GrpcStreamClient result" where
  "create_grpc_stream_client opt concurrency now =
     mk_GrpcStreamClient (o_streams opt div concurrency) (o_max_inflight_per_stream opt) (o_stream_drain_duration opt)
       (int (o_timeout opt) * one_second) now"

definition grpc_inc :: "grpc_counter \<Rightarrow> GrpcStreamClient \<Rightarrow> GrpcStreamClient" where
  "grpc_inc k c = c\<lparr>gc_counters := (gc_counters c)(k := gc_counters c k + 1)\<rparr>"

definition grpc_upd :: "nat \<Rightarrow> (GrpcStream \<Rightarrow> GrpcStream) \<Rightarrow> GrpcStreamClient \<Rightarrow> GrpcStreamClient" where
  "grpc_upd i f c = c\<lparr>gc_streams := (gc_streams c)[i := f (gc_streams c ! i)]\<rparr>"

abbreviation grpc_stream :: "GrpcStreamClient \<Rightarrow> nat \<Rightarrow> GrpcStream" where "grpc_stream c i \<equiv> gc_streams c ! i"

subsection \<open>Operations\<close>

definition stream_is_open :: "GrpcStream \<Rightarrow> bool" where
  "stream_is_open s \<longleftrightarrow> gs_state s = GOpen \<or> gs_state s = GHalfClosed"

definition grpc_openStreams :: "GrpcStreamClient \<Rightarrow> nat" where
  "grpc_openStreams c = length (filter stream_is_open (gc_streams c))"

definition grpc_maybeExitWaitLoop :: "GrpcStreamClient \<Rightarrow> GrpcStreamClient" where
  "grpc_maybeExitWaitLoop c =
     (case gc_waiting_for c of
        GWaitOpens \<Rightarrow> if gc_pending_opens c = 0 then c\<lparr>gc_exit := True\<rparr> else c
      | GWaitCloses \<Rightarrow> if grpc_openStreams c = 0 then c\<lparr>gc_exit := True\<rparr> else c
      | GWaitNothing \<Rightarrow> c)"

fun grpc_complete :: "bool \<Rightarrow> GrpcMessage list \<Rightarrow> GrpcStreamClient \<Rightarrow> GrpcStreamClient" where
  "grpc_complete success [] c = c"
| "grpc_complete success (m # ms) c =
     (let c = (if \<not> success then grpc_inc G_stream_inflight_lost c else c)
      in grpc_complete success ms (c\<lparr>gc_callbacks := gc_callbacks c @ [(gm_callback m, success)]\<rparr>))"

definition grpc_completeInflight :: "nat \<Rightarrow> bool \<Rightarrow> GrpcStreamClient \<Rightarrow> GrpcStreamClient" where
  "grpc_completeInflight i success c =
     grpc_complete success (gs_inflight (grpc_stream c i)) (grpc_upd i (\<lambda>s. s\<lparr>gs_inflight := []\<rparr>) c)"

definition grpc_statusCounter :: "nat option \<Rightarrow> GrpcStreamClient \<Rightarrow> GrpcStreamClient" where
  "grpc_statusCounter status c = c\<lparr>gc_status := (gc_status c)(status := gc_status c status + 1)\<rparr>"

definition grpc_closeStream :: "nat \<Rightarrow> nat option \<Rightarrow> GrpcStreamClient \<Rightarrow> GrpcStreamClient" where
  "grpc_closeStream i status c =
     (if gs_state (grpc_stream c i) = GClosed then c
      else grpc_maybeExitWaitLoop (grpc_completeInflight i False (grpc_statusCounter status
             (grpc_upd i (\<lambda>s. s\<lparr>gs_state := GClosed, gs_encoder := False\<rparr>) c))))"

text \<open>\<open>onStreamReady\<close> up to \<open>encodeHeaders\<close>, and from its result on.\<close>

definition ready_begin :: "nat \<Rightarrow> GrpcStreamClient \<Rightarrow> GrpcStreamClient" where
  "ready_begin i c = grpc_upd i (\<lambda>s. s\<lparr>gs_cancellable := False, gs_encoder := True\<rparr>) c"

definition ready_end :: "nat \<Rightarrow> bool \<Rightarrow> GrpcStreamClient \<Rightarrow> GrpcStreamClient" where
  "ready_end i headers_ok c =
     (let c = (if \<not> headers_ok then grpc_inc G_stream_open_failures (grpc_upd i (\<lambda>s. s\<lparr>gs_state := GClosed\<rparr>) c)
               else grpc_inc G_streams_opened (grpc_upd i (\<lambda>s. s\<lparr>gs_state := GOpen\<rparr>) c))
      in grpc_maybeExitWaitLoop (c\<lparr>gc_pending_opens := gc_pending_opens c - 1\<rparr>))"

definition onStreamReady :: "nat \<Rightarrow> bool \<Rightarrow> GrpcStreamClient \<Rightarrow> GrpcStreamClient" where
  "onStreamReady i headers_ok c = ready_end i headers_ok (ready_begin i c)"

definition onStreamOpenFailure :: "nat \<Rightarrow> GrpcStreamClient \<Rightarrow> GrpcStreamClient" where
  "onStreamOpenFailure i c =
     (let c = grpc_inc G_stream_open_failures (grpc_upd i (\<lambda>s. s\<lparr>gs_cancellable := False, gs_state := GClosed\<rparr>) c)
      in grpc_maybeExitWaitLoop (c\<lparr>gc_pending_opens := gc_pending_opens c - 1\<rparr>))"

text \<open>
  How the pool answers a new stream: there is no pool, it answers at once with a stream or a failure, or it
  answers later and returns a handle to cancel the request with.
\<close>

datatype pool_answer = NoPool | PoolReady bool | PoolFailed | PoolLater

definition openStream :: "pool_answer \<Rightarrow> nat \<Rightarrow> GrpcStreamClient \<Rightarrow> GrpcStreamClient" where
  "openStream answer i c =
     (let pending = c\<lparr>gc_pending_opens := gc_pending_opens c + 1\<rparr>
      in case answer of
           NoPool \<Rightarrow> grpc_inc G_stream_open_failures (grpc_upd i (\<lambda>s. s\<lparr>gs_state := GClosed\<rparr>) c)
         | PoolReady headers_ok \<Rightarrow> onStreamReady i headers_ok pending
         | PoolFailed \<Rightarrow> onStreamOpenFailure i pending
         | PoolLater \<Rightarrow>
             if gs_state (grpc_stream pending i) = GOpening then grpc_upd i (\<lambda>s. s\<lparr>gs_cancellable := True\<rparr>) pending
             else pending)"

text \<open>Writing through an encoder that is not set is undefined behaviour.\<close>

definition grpc_tryStartRequest :: "GrpcStreamClient \<Rightarrow> GrpcStreamClient result" where
  "grpc_tryStartRequest c =
     (let i = gc_next_stream c; request = gc_started c;
          c = c\<lparr>gc_next_stream := (gc_next_stream c + 1) mod gc_stream_count c, gc_started := gc_started c + 1\<rparr>;
          s = grpc_stream c i;
          drop_it = (\<lambda>k. (grpc_inc k c)\<lparr>gc_posted := gc_posted c @ [(request, False)]\<rparr>)
      in if gs_state s \<noteq> GOpen then Inr (drop_it G_stream_unavailable)
         else if gs_write_blocked s \<or> length (gs_inflight s) \<ge> gc_max_inflight c then Inr (drop_it G_stream_deferred)
         else if \<not> gs_encoder s then Inl (Panic ''null encoder'')
         else Inr (grpc_inc G_stream_messages_sent
                (grpc_upd i (\<lambda>s. s\<lparr>gs_inflight := gs_inflight s @ [\<lparr>gm_sent_at = gc_now c, gm_callback = request\<rparr>]\<rparr>) c)))"

definition early_close :: "nat \<Rightarrow> GrpcStreamClient \<Rightarrow> GrpcStreamClient" where
  "early_close i c = (if gs_state (grpc_stream c i) = GOpen then grpc_inc G_stream_early_close c else c)"

definition grpc_onResponseHeaders :: "nat \<Rightarrow> bool \<Rightarrow> nat option \<Rightarrow> GrpcStreamClient \<Rightarrow> GrpcStreamClient" where
  "grpc_onResponseHeaders i end_stream status c =
     (if end_stream then grpc_closeStream i status (early_close i c) else c)"

text \<open>The loop over the decoded frames.\<close>

fun answer_frames :: "nat \<Rightarrow> nat \<Rightarrow> GrpcStreamClient \<Rightarrow> GrpcStreamClient" where
  "answer_frames 0 i c = c"
| "answer_frames (Suc n) i c =
     answer_frames n i
       (case gs_inflight (grpc_stream c i) of
          [] \<Rightarrow> grpc_inc G_stream_unexpected_message c
        | m # ms \<Rightarrow>
            let c = grpc_inc G_stream_messages_received (grpc_upd i (\<lambda>s. s\<lparr>gs_inflight := ms\<rparr>) c);
                c = (if gc_measure_latencies c
                     then c\<lparr>gc_latency := gc_latency c @ [word_of_int (gc_now c - gm_sent_at m)]\<rparr> else c)
            in c\<lparr>gc_callbacks := gc_callbacks c @ [(gm_callback m, True)]\<rparr>)"

definition grpc_onResponseData :: "nat \<Rightarrow> nat \<Rightarrow> bool \<Rightarrow> GrpcStreamClient \<Rightarrow> GrpcStreamClient" where
  "grpc_onResponseData i frames end_stream c =
     (let c = answer_frames frames i c
      in if end_stream then grpc_closeStream i None (early_close i c) else c)"

definition onResponseTrailers :: "nat \<Rightarrow> nat option \<Rightarrow> GrpcStreamClient \<Rightarrow> GrpcStreamClient" where
  "onResponseTrailers i status c = grpc_closeStream i status (early_close i c)"

definition grpc_onStreamReset :: "nat \<Rightarrow> GrpcStreamClient \<Rightarrow> GrpcStreamClient" where
  "grpc_onStreamReset i c =
     (if gs_state (grpc_stream c i) = GClosed then c
      else
        let c = grpc_inc G_stream_resets c;
            c = (if gs_state (grpc_stream c i) = GOpening
                 then (grpc_inc G_stream_open_failures c)\<lparr>gc_pending_opens := gc_pending_opens c - 1\<rparr> else c)
        in grpc_closeStream i None c)"

definition grpc_onWriteBlocked :: "nat \<Rightarrow> bool \<Rightarrow> GrpcStreamClient \<Rightarrow> GrpcStreamClient" where
  "grpc_onWriteBlocked i blocked c =
     grpc_upd i (\<lambda>s. s\<lparr>gs_write_blocked := blocked\<rparr>)
       (if blocked \<and> \<not> gs_write_blocked (grpc_stream c i) then grpc_inc G_stream_write_blocked c else c)"

definition grpc_prepare_begin :: "string option \<Rightarrow> GrpcStreamClient \<Rightarrow> GrpcStreamClient result" where
  "grpc_prepare_begin generated c =
     (case generated of
        None \<Rightarrow> Inl (Panic ''the request source did not yield a request'')
      | Some body \<Rightarrow> Inr (c\<lparr>gc_message := body\<rparr>))"

definition grpc_prepare_open :: "pool_answer \<Rightarrow> GrpcStreamClient \<Rightarrow> GrpcStreamClient" where
  "grpc_prepare_open answer c = (openStream answer (gc_prepared c) c)\<lparr>gc_prepared := gc_prepared c + 1\<rparr>"

definition grpc_prepare_wait :: "GrpcStreamClient \<Rightarrow> GrpcStreamClient" where
  "grpc_prepare_wait c =
     (if gc_pending_opens c = 0 then c
      else c\<lparr>gc_waiting_for := GWaitOpens, gc_exit := False, gc_wait_timer := Some (gc_now c + gc_open_timeout c)\<rparr>)"

definition grpc_prepare_end :: "GrpcStreamClient \<Rightarrow> GrpcStreamClient" where
  "grpc_prepare_end c = c\<lparr>gc_wait_timer := None, gc_waiting_for := GWaitNothing\<rparr>"

definition half_close :: "GrpcStream \<Rightarrow> GrpcStream" where
  "half_close s = (if gs_state s = GOpen \<and> gs_encoder s then s\<lparr>gs_state := GHalfClosed\<rparr> else s)"

definition grpc_ceil_ms :: "nanos \<Rightarrow> nanos" where
  "grpc_ceil_ms d = - (- d div one_millisecond) * one_millisecond"

definition grpc_finish :: "GrpcStreamClient \<Rightarrow> GrpcStreamClient" where
  "grpc_finish c =
     (if gc_finished c then c
      else
        let c = c\<lparr>gc_finished := True, gc_streams := map half_close (gc_streams c)\<rparr>
        in if grpc_openStreams c = 0 then c
           else c\<lparr>gc_waiting_for := GWaitCloses, gc_exit := False,
                  gc_wait_timer := Some (gc_now c + grpc_ceil_ms (gc_drain_duration c))\<rparr>)"

fun drain_streams :: "nat list \<Rightarrow> GrpcStreamClient \<Rightarrow> GrpcStreamClient" where
  "drain_streams [] c = c"
| "drain_streams (i # is) c =
     drain_streams is
       (if stream_is_open (grpc_stream c i)
        then grpc_completeInflight i False (grpc_inc G_stream_drain_incomplete c) else c)"

definition grpc_finish_rest :: "GrpcStreamClient \<Rightarrow> GrpcStreamClient" where
  "grpc_finish_rest c =
     drain_streams [0..<gc_stream_count c] (c\<lparr>gc_wait_timer := None, gc_waiting_for := GWaitNothing\<rparr>)"

text \<open>
  \<open>terminate\<close> after its call of \<open>finish\<close>. The reset it asks for finds the stream closed already.
\<close>

definition terminate_stream :: "nat \<Rightarrow> GrpcStreamClient \<Rightarrow> GrpcStreamClient" where
  "terminate_stream i c =
     (if gs_state (grpc_stream c i) = GOpening \<and> gs_cancellable (grpc_stream c i)
      then (grpc_upd i (\<lambda>s. s\<lparr>gs_cancellable := False, gs_state := GClosed\<rparr>) c)\<lparr>gc_pending_opens := gc_pending_opens c - 1\<rparr>
      else if stream_is_open (grpc_stream c i)
      then grpc_completeInflight i False (grpc_upd i (\<lambda>s. s\<lparr>gs_state := GClosed, gs_encoder := False\<rparr>) c)
      else c)"

fun terminate_streams :: "nat list \<Rightarrow> GrpcStreamClient \<Rightarrow> GrpcStreamClient" where
  "terminate_streams [] c = c"
| "terminate_streams (i # is) c = terminate_streams is (terminate_stream i c)"

definition grpc_terminate_rest :: "GrpcStreamClient \<Rightarrow> GrpcStreamClient" where
  "grpc_terminate_rest c = terminate_streams [0..<gc_stream_count c] (c\<lparr>gc_measure_latencies := False\<rparr>)"

subsection \<open>The client on its dispatcher\<close>

text \<open>
  The pool answers a request it has not answered yet, the codec raises events only for a stream it was
  handed, so once the stream is past \<open>Opening\<close>.
\<close>

inductive grpc_step :: "GrpcStreamClient \<Rightarrow> GrpcStreamClient \<Rightarrow> bool" where
  grpc_tick: "gc_now c \<le> t \<Longrightarrow> grpc_step c (c\<lparr>gc_now := t\<rparr>)"
| grpc_prepare_begin: "grpc_prepare_begin generated c = Inr c' \<Longrightarrow> grpc_step c c'"
| grpc_prepare_open: "gc_prepared c < gc_stream_count c \<Longrightarrow> \<not> gc_finished c \<Longrightarrow> grpc_step c (grpc_prepare_open answer c)"
| grpc_prepare_wait: "gc_prepared c = gc_stream_count c \<Longrightarrow> \<not> gc_finished c \<Longrightarrow> grpc_step c (grpc_prepare_wait c)"
| grpc_prepare_end: "gc_waiting_for c = GWaitOpens \<Longrightarrow>
     gc_exit c \<or> (\<exists>due. gc_wait_timer c = Some due \<and> due \<le> gc_now c) \<Longrightarrow> grpc_step c (grpc_prepare_end c)"
| grpc_request: "grpc_tryStartRequest c = Inr c' \<Longrightarrow> grpc_step c c'"
| grpc_ready: "i < gc_stream_count c \<Longrightarrow> gs_cancellable (grpc_stream c i) \<Longrightarrow> grpc_step c (onStreamReady i headers_ok c)"
| grpc_open_failure: "i < gc_stream_count c \<Longrightarrow> gs_cancellable (grpc_stream c i) \<Longrightarrow> grpc_step c (onStreamOpenFailure i c)"
| grpc_headers: "i < gc_stream_count c \<Longrightarrow> gs_state (grpc_stream c i) \<noteq> GOpening \<Longrightarrow>
     grpc_step c (grpc_onResponseHeaders i end_stream status c)"
| grpc_data: "i < gc_stream_count c \<Longrightarrow> gs_state (grpc_stream c i) \<noteq> GOpening \<Longrightarrow>
     grpc_step c (grpc_onResponseData i frames end_stream c)"
| grpc_trailers: "i < gc_stream_count c \<Longrightarrow> gs_state (grpc_stream c i) \<noteq> GOpening \<Longrightarrow>
     grpc_step c (onResponseTrailers i status c)"
| grpc_reset: "i < gc_stream_count c \<Longrightarrow> gs_state (grpc_stream c i) \<noteq> GOpening \<Longrightarrow> grpc_step c (grpc_onStreamReset i c)"
| grpc_blocked: "i < gc_stream_count c \<Longrightarrow> gs_state (grpc_stream c i) \<noteq> GOpening \<Longrightarrow>
     grpc_step c (grpc_onWriteBlocked i blocked c)"
| grpc_posted: "gc_posted c = p # rest \<Longrightarrow> grpc_step c (c\<lparr>gc_posted := rest, gc_callbacks := gc_callbacks c @ [p]\<rparr>)"
| grpc_measure: "grpc_step c (c\<lparr>gc_measure_latencies := b\<rparr>)"
| grpc_finish: "gc_waiting_for c = GWaitNothing \<Longrightarrow> grpc_step c (grpc_finish c)"
| grpc_drained: "gc_waiting_for c = GWaitCloses \<Longrightarrow>
     gc_exit c \<or> (\<exists>due. gc_wait_timer c = Some due \<and> due \<le> gc_now c) \<Longrightarrow> grpc_step c (grpc_finish_rest c)"
| grpc_terminate: "gc_finished c \<Longrightarrow> gc_waiting_for c = GWaitNothing \<Longrightarrow> grpc_step c (grpc_terminate_rest c)"

subsection \<open>The operations as record updates\<close>

lemma grpc_exit_eq:
  "grpc_maybeExitWaitLoop c = c\<lparr>gc_exit := gc_exit c \<or> gc_waiting_for c = GWaitOpens \<and> gc_pending_opens c = 0 \<or>
     gc_waiting_for c = GWaitCloses \<and> grpc_openStreams c = 0\<rparr>"
  by (simp add: grpc_maybeExitWaitLoop_def split: GrpcWaitingFor.split)

lemma grpc_complete_eq:
  "grpc_complete False ms c = c\<lparr>gc_callbacks := gc_callbacks c @ map (\<lambda>m. (gm_callback m, False)) ms,
     gc_counters := (gc_counters c)(G_stream_inflight_lost := gc_counters c G_stream_inflight_lost + length ms)\<rparr>"
  by (induction "False" ms c rule: grpc_complete.induct) (simp_all add: Let_def grpc_inc_def)

lemma grpc_completeInflight_eq:
  "grpc_completeInflight i False c = c\<lparr>gc_streams := (gc_streams c)[i := (grpc_stream c i)\<lparr>gs_inflight := []\<rparr>],
     gc_callbacks := gc_callbacks c @ map (\<lambda>m. (gm_callback m, False)) (gs_inflight (grpc_stream c i)),
     gc_counters := (gc_counters c)(G_stream_inflight_lost :=
       gc_counters c G_stream_inflight_lost + length (gs_inflight (grpc_stream c i)))\<rparr>"
  by (simp add: grpc_completeInflight_def grpc_complete_eq grpc_upd_def)

lemmas grpc_eqs = grpc_exit_eq grpc_completeInflight_eq grpc_inc_def grpc_upd_def grpc_statusCounter_def Let_def

subsection \<open>Well-formed streams\<close>

text \<open>
  A stream waits for the pool exactly as long as it is opening and \<open>prepare\<close> has reached it; only an open
  or half-closed stream holds messages, within the limit, and it has its encoder; streams are half-closed by
  \<open>finish\<close> only, and hold nothing once its wait is over. The pending opens are the streams that wait for the
  pool.
\<close>

definition gs_ok :: "GrpcStreamClient \<Rightarrow> nat \<Rightarrow> GrpcStream \<Rightarrow> bool" where
  "gs_ok c i s \<longleftrightarrow>
     (gs_cancellable s \<longleftrightarrow> gs_state s = GOpening \<and> i < gc_prepared c) \<and>
     (gc_prepared c \<le> i \<longrightarrow> gs_state s = GOpening) \<and>
     (stream_is_open s \<longrightarrow> gs_encoder s) \<and>
     (\<not> stream_is_open s \<longrightarrow> gs_inflight s = []) \<and>
     length (gs_inflight s) \<le> gc_max_inflight c \<and>
     (gs_state s = GHalfClosed \<longrightarrow> gc_finished c \<and> (gc_waiting_for c \<noteq> GWaitCloses \<longrightarrow> gs_inflight s = []))"

definition grpc_ok :: "GrpcStreamClient \<Rightarrow> bool" where
  "grpc_ok c \<longleftrightarrow>
     length (gc_streams c) = gc_stream_count c \<and> gc_stream_count c < 2 ^ 32 \<and> gc_next_stream c < gc_stream_count c \<and>
     gc_prepared c \<le> gc_stream_count c \<and> (gc_waiting_for c = GWaitCloses \<longrightarrow> gc_finished c) \<and>
     gc_pending_opens c = word_of_nat (length (filter gs_cancellable (gc_streams c))) \<and>
     (\<forall>i < gc_stream_count c. gs_ok c i (grpc_stream c i))"

definition grpc_scal :: "GrpcStreamClient \<Rightarrow> nat \<times> nat \<times> nat \<times> bool \<times> GrpcWaitingFor" where
  "grpc_scal c = (gc_stream_count c, gc_max_inflight c, gc_prepared c, gc_finished c, gc_waiting_for c)"

lemma gs_ok_scal: "grpc_scal c' = grpc_scal c \<Longrightarrow> gs_ok c' i s = gs_ok c i s"
  by (simp add: gs_ok_def grpc_scal_def)

lemma grpc_okD:
  assumes "grpc_ok c"
  shows "length (gc_streams c) = gc_stream_count c" "gc_next_stream c < gc_stream_count c"
    "i < gc_stream_count c \<Longrightarrow> gs_ok c i (grpc_stream c i)"
  using assms by (simp_all add: grpc_ok_def)

text \<open>
  One stream changes, and with it possibly how far \<open>prepare\<close> has come; the other streams stay well-formed.
\<close>

lemma grpc_ok_change:
  assumes "grpc_ok c" "i < gc_stream_count c" "gc_stream_count c' = gc_stream_count c"
    and "gc_next_stream c' < gc_stream_count c" "gc_prepared c' \<le> gc_stream_count c"
    and "gc_waiting_for c' = gc_waiting_for c" "gc_finished c' = gc_finished c"
    and "\<And>j. j \<noteq> i \<Longrightarrow> j < gc_stream_count c \<Longrightarrow> gs_ok c j (grpc_stream c j) \<Longrightarrow> gs_ok c' j (grpc_stream c j)"
    and "gc_streams c' = (gc_streams c)[i := s]" "gs_ok c' i s"
    and "gc_pending_opens c' = gc_pending_opens c + of_bool (gs_cancellable s) - of_bool (gs_cancellable (grpc_stream c i))"
  shows "grpc_ok c'"
proof -
  have len: "length (gc_streams c) = gc_stream_count c" using assms(1) by (simp add: grpc_ok_def)
  have "word_of_nat (length (filter gs_cancellable (gc_streams c')) + of_bool (gs_cancellable (grpc_stream c i))) =
      (word_of_nat (length (filter gs_cancellable (gc_streams c)) + of_bool (gs_cancellable s)) :: 32 word)"
    using length_filter_update [of i "gc_streams c" gs_cancellable s] assms(2,9) len by simp
  moreover have "gc_pending_opens c' + of_bool (gs_cancellable (grpc_stream c i)) =
      word_of_nat (length (filter gs_cancellable (gc_streams c)) + of_bool (gs_cancellable s))"
    using assms(1,11) by (simp add: grpc_ok_def)
  ultimately have "gc_pending_opens c' = word_of_nat (length (filter gs_cancellable (gc_streams c')))"
    by (metis add_right_cancel of_nat_add of_nat_of_bool)
  moreover have "gs_ok c' j (grpc_stream c' j)" if "j < gc_stream_count c" for j
    using that assms(1,2,8,9,10) len by (cases "j = i") (simp_all add: grpc_ok_def)
  ultimately show ?thesis using assms(1,3-7,9) len by (simp add: grpc_ok_def)
qed

lemma grpc_ok_update:
  assumes "grpc_ok c" "i < gc_stream_count c" "grpc_scal c' = grpc_scal c" "gc_next_stream c' < gc_stream_count c"
    and "gc_streams c' = (gc_streams c)[i := s]" "gs_ok c i s"
    and "gc_pending_opens c' = gc_pending_opens c + of_bool (gs_cancellable s) - of_bool (gs_cancellable (grpc_stream c i))"
  shows "grpc_ok c'"
proof (rule grpc_ok_change [OF assms(1,2) _ _ _ _ _ _ assms(5) _ assms(7)])
  show "gs_ok c' i s" using assms(6) gs_ok_scal [OF assms(3)] by simp
qed (use assms gs_ok_scal [OF assms(3)] in \<open>auto simp: grpc_scal_def grpc_ok_def\<close>)

lemma grpc_ok_same:
  assumes "grpc_ok c" "grpc_scal c' = grpc_scal c" "gc_next_stream c' < gc_stream_count c" "gc_streams c' = gc_streams c"
    "gc_pending_opens c' = gc_pending_opens c"
  shows "grpc_ok c'"
  using assms(1,3,4,5) gs_ok_scal [OF assms(2)] assms(2) by (simp add: grpc_ok_def grpc_scal_def)

lemma ok_close:
  assumes "grpc_ok c" "i < gc_stream_count c" "gs_state (grpc_stream c i) \<noteq> GOpening"
  shows "grpc_ok (grpc_closeStream i status c)"
proof (cases "gs_state (grpc_stream c i) = GClosed")
  case False
  note ok = grpc_okD [OF assms(1)]
  have "gs_ok c i (grpc_stream c i)" using ok(3) assms(2) .
  then show ?thesis
    using False assms ok
    by (intro grpc_ok_update [OF assms(1,2), of _ "(grpc_stream c i)\<lparr>gs_state := GClosed, gs_encoder := False, gs_inflight := []\<rparr>"])
      (auto simp: grpc_closeStream_def grpc_eqs grpc_scal_def gs_ok_def stream_is_open_def)
qed (simp add: grpc_closeStream_def assms(1))

lemma ok_early: "grpc_ok c \<Longrightarrow> grpc_ok (early_close i c)"
  by (rule grpc_ok_same [of c]) (auto simp: early_close_def grpc_inc_def grpc_scal_def grpc_okD)

lemma state_early [simp]: "gc_streams (early_close i c) = gc_streams c" "gc_stream_count (early_close i c) = gc_stream_count c"
  by (simp_all add: early_close_def grpc_inc_def)

lemma ok_frames:
  assumes "grpc_ok c" "i < gc_stream_count c" "gs_state (grpc_stream c i) \<noteq> GOpening"
  shows "grpc_ok (answer_frames n i c) \<and> gc_stream_count (answer_frames n i c) = gc_stream_count c \<and>
    gs_state (grpc_stream (answer_frames n i c) i) = gs_state (grpc_stream c i)"
  using assms
proof (induction n i c rule: answer_frames.induct)
  case (2 n i c)
  note ok = grpc_okD [OF "2.prems"(1)]
  have s: "gs_ok c i (grpc_stream c i)" using ok(3) "2.prems"(2) .
  show ?case
  proof (cases "gs_inflight (grpc_stream c i)")
    case Nil
    have "grpc_ok (grpc_inc G_stream_unexpected_message c)"
      by (rule grpc_ok_same [OF "2.prems"(1)]) (simp_all add: grpc_inc_def grpc_scal_def ok)
    then show ?thesis using "2.IH" "2.prems" Nil by (simp add: grpc_inc_def)
  next
    case (Cons m ms)
    let ?f = "\<lambda>c. (case gs_inflight (grpc_stream c i) of
          [] \<Rightarrow> grpc_inc G_stream_unexpected_message c
        | m # ms \<Rightarrow>
            let c = grpc_inc G_stream_messages_received (grpc_upd i (\<lambda>s. s\<lparr>gs_inflight := ms\<rparr>) c);
                c = (if gc_measure_latencies c
                     then c\<lparr>gc_latency := gc_latency c @ [word_of_int (gc_now c - gm_sent_at m)]\<rparr> else c)
            in c\<lparr>gc_callbacks := gc_callbacks c @ [(gm_callback m, True)]\<rparr>)"
    have "grpc_ok (?f c)"
      by (rule grpc_ok_update [OF "2.prems"(1,2), of _ "(grpc_stream c i)\<lparr>gs_inflight := ms\<rparr>"])
        (use Cons s ok "2.prems" in \<open>auto simp: grpc_eqs grpc_scal_def gs_ok_def stream_is_open_def\<close>)
    moreover have "gc_stream_count (?f c) = gc_stream_count c" "gs_state (grpc_stream (?f c) i) = gs_state (grpc_stream c i)"
      using Cons "2.prems"(2) ok(1) by (simp_all add: grpc_eqs)
    ultimately show ?thesis using "2.IH" "2.prems" by simp
  qed
qed simp

lemma ok_ready:
  assumes "grpc_ok c" "i < gc_stream_count c" "gs_cancellable (grpc_stream c i)"
  shows "grpc_ok (onStreamReady i headers_ok c)" "grpc_ok (onStreamOpenFailure i c)"
proof -
  note ok = grpc_okD [OF assms(1)]
  have s: "gs_ok c i (grpc_stream c i)" using ok(3) assms(2) .
  show "grpc_ok (onStreamReady i headers_ok c)"
    by (rule grpc_ok_update [OF assms(1,2), of _ "(grpc_stream c i)\<lparr>gs_cancellable := False, gs_encoder := True,
          gs_state := (if headers_ok then GOpen else GClosed)\<rparr>"])
      (use assms s ok in \<open>auto simp: onStreamReady_def ready_begin_def ready_end_def grpc_eqs grpc_scal_def gs_ok_def stream_is_open_def\<close>)
  show "grpc_ok (onStreamOpenFailure i c)"
    by (rule grpc_ok_update [OF assms(1,2), of _ "(grpc_stream c i)\<lparr>gs_cancellable := False, gs_state := GClosed\<rparr>"])
      (use assms s ok in \<open>auto simp: onStreamOpenFailure_def grpc_eqs grpc_scal_def gs_ok_def stream_is_open_def\<close>)
qed

text \<open>What the next stream looks like once \<open>prepare\<close> has asked for it.\<close>

definition opened_as :: "pool_answer \<Rightarrow> GrpcStream \<Rightarrow> GrpcStream" where
  "opened_as answer s = (case answer of
       NoPool \<Rightarrow> s\<lparr>gs_state := GClosed\<rparr>
     | PoolReady headers_ok \<Rightarrow> s\<lparr>gs_cancellable := False, gs_encoder := True, gs_state := (if headers_ok then GOpen else GClosed)\<rparr>
     | PoolFailed \<Rightarrow> s\<lparr>gs_cancellable := False, gs_state := GClosed\<rparr>
     | PoolLater \<Rightarrow> s\<lparr>gs_cancellable := True\<rparr>)"

lemma ok_prepare_open:
  assumes "grpc_ok c" "gc_prepared c < gc_stream_count c" "\<not> gc_finished c"
  shows "grpc_ok (grpc_prepare_open answer c)"
proof -
  let ?i = "gc_prepared c"
  note ok = grpc_okD [OF assms(1)]
  have s: "gs_ok c ?i (grpc_stream c ?i)" using ok(3) assms(2) .
  then have opening_ex: "gs_state (grpc_stream c ?i) = GOpening" "\<not> gs_cancellable (grpc_stream c ?i)" by (simp_all add: gs_ok_def)
  show ?thesis
  proof (rule grpc_ok_change [OF assms(1,2), of _ "opened_as answer (grpc_stream c ?i)"])
    show "gc_streams (grpc_prepare_open answer c) = (gc_streams c)[?i := opened_as answer (grpc_stream c ?i)]"
      using opening_ex ok(1) assms(2)
      by (cases answer) (simp_all add: grpc_prepare_open_def openStream_def onStreamReady_def ready_begin_def ready_end_def
          onStreamOpenFailure_def grpc_eqs opened_as_def)
    show "gs_ok (grpc_prepare_open answer c) ?i (opened_as answer (grpc_stream c ?i))"
      using s opening_ex assms(3)
      by (cases answer) (auto simp: grpc_prepare_open_def openStream_def onStreamReady_def ready_begin_def ready_end_def
          onStreamOpenFailure_def grpc_eqs opened_as_def gs_ok_def stream_is_open_def)
    show "gc_pending_opens (grpc_prepare_open answer c) =
        gc_pending_opens c + of_bool (gs_cancellable (opened_as answer (grpc_stream c ?i))) - of_bool (gs_cancellable (grpc_stream c ?i))"
      using opening_ex
      by (cases answer) (simp_all add: grpc_prepare_open_def openStream_def onStreamReady_def ready_begin_def ready_end_def
          onStreamOpenFailure_def grpc_eqs opened_as_def)
  next
    fix j assume "j \<noteq> ?i" "j < gc_stream_count c" "gs_ok c j (grpc_stream c j)"
    then show "gs_ok (grpc_prepare_open answer c) j (grpc_stream c j)"
      by (cases answer) (auto simp: grpc_prepare_open_def openStream_def onStreamReady_def ready_begin_def ready_end_def
          onStreamOpenFailure_def grpc_eqs gs_ok_def)
  qed (use assms ok in \<open>cases answer; simp add: grpc_prepare_open_def openStream_def onStreamReady_def ready_begin_def ready_end_def
          onStreamOpenFailure_def grpc_eqs\<close>)+
qed

definition grpc_dropped :: "grpc_counter \<Rightarrow> GrpcStreamClient \<Rightarrow> GrpcStreamClient" where
  "grpc_dropped k c = c\<lparr>gc_counters := (gc_counters c)(k := gc_counters c k + 1),
     gc_next_stream := (gc_next_stream c + 1) mod gc_stream_count c, gc_started := gc_started c + 1,
     gc_posted := gc_posted c @ [(gc_started c, False)]\<rparr>"

definition grpc_sent :: "GrpcStreamClient \<Rightarrow> GrpcStreamClient" where
  "grpc_sent c = c\<lparr>gc_counters := (gc_counters c)(G_stream_messages_sent := gc_counters c G_stream_messages_sent + 1),
     gc_next_stream := (gc_next_stream c + 1) mod gc_stream_count c, gc_started := gc_started c + 1,
     gc_streams := (gc_streams c)[gc_next_stream c := (grpc_stream c (gc_next_stream c))\<lparr>gs_inflight :=
       gs_inflight (grpc_stream c (gc_next_stream c)) @ [\<lparr>gm_sent_at = gc_now c, gm_callback = gc_started c\<rparr>]\<rparr>]\<rparr>"

lemma grpc_request_eq:
  "grpc_tryStartRequest c =
     (let s = grpc_stream c (gc_next_stream c)
      in if gs_state s \<noteq> GOpen then Inr (grpc_dropped G_stream_unavailable c)
         else if gs_write_blocked s \<or> length (gs_inflight s) \<ge> gc_max_inflight c then Inr (grpc_dropped G_stream_deferred c)
         else if \<not> gs_encoder s then Inl (Panic ''null encoder'') else Inr (grpc_sent c))"
  by (simp add: grpc_tryStartRequest_def grpc_dropped_def grpc_sent_def Let_def grpc_inc_def grpc_upd_def)

lemma ok_request:
  assumes "grpc_ok c"
  shows "\<exists>c'. grpc_tryStartRequest c = Inr c' \<and> grpc_ok c'"
proof -
  note ok = grpc_okD [OF assms]
  let ?i = "gc_next_stream c" and ?s = "grpc_stream c (gc_next_stream c)"
  have s: "gs_ok c ?i ?s" using ok(2,3) by blast
  have next_less: "(gc_next_stream c + 1) mod gc_stream_count c < gc_stream_count c"
    using ok(2) by (intro mod_less_divisor) linarith
  have sent: "grpc_ok (grpc_sent c)" if "gs_state ?s = GOpen" "length (gs_inflight ?s) < gc_max_inflight c"
    by (rule grpc_ok_update [OF assms ok(2), of _ "?s\<lparr>gs_inflight := gs_inflight ?s @ [\<lparr>gm_sent_at = gc_now c, gm_callback = gc_started c\<rparr>]\<rparr>"])
      (use that s ok next_less in \<open>auto simp: grpc_sent_def grpc_scal_def gs_ok_def stream_is_open_def\<close>)
  have dropped: "grpc_ok (grpc_dropped k c)" for k
    by (rule grpc_ok_same [OF assms]) (use next_less in \<open>simp_all add: grpc_dropped_def grpc_scal_def\<close>)
  have "gs_encoder ?s" if "gs_state ?s = GOpen" using that s by (simp add: gs_ok_def stream_is_open_def)
  then show ?thesis using sent dropped by (auto simp: grpc_request_eq Let_def)
qed

lemma ok_reset:
  assumes "grpc_ok c" "i < gc_stream_count c" "gs_state (grpc_stream c i) \<noteq> GOpening"
  shows "grpc_ok (grpc_onStreamReset i c)"
proof -
  have "grpc_ok (grpc_inc G_stream_resets c)"
    by (rule grpc_ok_same [OF assms(1)]) (simp_all add: grpc_inc_def grpc_scal_def grpc_okD(2) [OF assms(1)])
  then show ?thesis using ok_close [of "grpc_inc G_stream_resets c" i None] assms
    by (auto simp: grpc_onStreamReset_def Let_def grpc_inc_def)
qed

lemma ok_blocked:
  assumes "grpc_ok c" "i < gc_stream_count c" "gs_state (grpc_stream c i) \<noteq> GOpening"
  shows "grpc_ok (grpc_onWriteBlocked i blocked c)"
  by (rule grpc_ok_update [OF assms(1,2), of _ "(grpc_stream c i)\<lparr>gs_write_blocked := blocked\<rparr>"])
    (use grpc_okD [OF assms(1)] assms in \<open>auto simp: grpc_onWriteBlocked_def grpc_eqs grpc_scal_def gs_ok_def stream_is_open_def\<close>)

lemma filter_map_half_close: "filter gs_cancellable (map half_close xs) = map half_close (filter gs_cancellable xs)"
  by (induction xs) (auto simp: half_close_def)

lemma ok_finish:
  assumes "grpc_ok c" "gc_waiting_for c = GWaitNothing"
  shows "grpc_ok (grpc_finish c)"
proof (cases "gc_finished c")
  case False
  let ?c = "c\<lparr>gc_finished := True, gc_streams := map half_close (gc_streams c)\<rparr>"
  note ok = grpc_okD [OF assms(1)]
  have stream_ok: "gs_ok (grpc_finish c) i (grpc_stream (grpc_finish c) i)" if "i < gc_stream_count c" for i
  proof -
    have s: "gs_ok c i (grpc_stream c i)" using ok(3) that .
    have idle: "gs_inflight (grpc_stream c i) = []" if "grpc_openStreams ?c = 0"
    proof -
      have "\<not> stream_is_open (half_close (grpc_stream c i))"
        using that \<open>i < gc_stream_count c\<close> ok(1) by (auto simp: grpc_openStreams_def filter_empty_conv)
      then show ?thesis using s by (auto simp: gs_ok_def half_close_def stream_is_open_def split: if_splits)
    qed
    show ?thesis
      using s idle that ok(1) False by (auto simp: grpc_finish_def Let_def gs_ok_def half_close_def stream_is_open_def)
  qed
  have "gc_pending_opens (grpc_finish c) = word_of_nat (length (filter gs_cancellable (gc_streams (grpc_finish c))))"
    using assms(1) False by (simp add: grpc_finish_def Let_def grpc_ok_def filter_map_half_close)
  then show ?thesis using assms stream_ok False by (auto simp: grpc_ok_def grpc_finish_def Let_def)
qed (simp add: grpc_finish_def assms(1))

lemma stream_is_open_inflight [simp]: "stream_is_open (s\<lparr>gs_inflight := ms\<rparr>) = stream_is_open s"
  by (simp add: stream_is_open_def)

lemma drain_streams_nth:
  "i < length (gc_streams c) \<Longrightarrow> grpc_stream (drain_streams is c) i =
     (if i \<in> set is \<and> stream_is_open (grpc_stream c i) then (grpc_stream c i)\<lparr>gs_inflight := []\<rparr> else grpc_stream c i)"
proof (induction "is" c rule: drain_streams.induct)
  case (2 j "is" c)
  then show ?case
    by (cases "i = j"; cases "stream_is_open (grpc_stream c j)") (simp_all add: grpc_eqs)
qed simp

lemma drain_streams_same:
  "grpc_scal (drain_streams is c) = grpc_scal c" "gc_next_stream (drain_streams is c) = gc_next_stream c"
  "length (gc_streams (drain_streams is c)) = length (gc_streams c)" "gc_pending_opens (drain_streams is c) = gc_pending_opens c"
  by (induction "is" c rule: drain_streams.induct) (simp_all add: grpc_eqs grpc_scal_def)

lemma drain_streams_cancellable: "map gs_cancellable (gc_streams (drain_streams is c)) = map gs_cancellable (gc_streams c)"
  by (rule nth_equalityI) (simp_all add: drain_streams_same drain_streams_nth)

lemma ok_drained:
  assumes "grpc_ok c" "gc_waiting_for c = GWaitCloses"
  shows "grpc_ok (grpc_finish_rest c)"
proof -
  note ok = grpc_okD [OF assms(1)]
  let ?c = "c\<lparr>gc_wait_timer := None, gc_waiting_for := GWaitNothing\<rparr>"
  let ?d = "drain_streams [0..<gc_stream_count c] ?c"
  have scal: "grpc_scal ?d = grpc_scal ?c" by (rule drain_streams_same)
  have streams: "gs_ok ?d i (grpc_stream ?d i)" if "i < gc_stream_count c" for i
  proof -
    have "gs_ok ?c i (grpc_stream ?d i)"
      using that ok(3) [OF that] ok(1) assms(2) by (auto simp: drain_streams_nth gs_ok_def stream_is_open_def)
    then show ?thesis using gs_ok_scal [OF scal] by blast
  qed
  have "filter id (map gs_cancellable (gc_streams ?d)) = filter id (map gs_cancellable (gc_streams c))"
    by (simp add: drain_streams_cancellable)
  then have "length (filter gs_cancellable (gc_streams ?d)) = length (filter gs_cancellable (gc_streams c))"
    by (metis id_comp filter_map length_map)
  then show ?thesis
    using assms scal streams drain_streams_same(2-4) [of "[0..<gc_stream_count c]" ?c]
    by (simp add: grpc_finish_rest_def grpc_ok_def grpc_scal_def)
qed

lemma ok_terminate_stream:
  assumes "grpc_ok c" "i < gc_stream_count c"
  shows "grpc_ok (terminate_stream i c) \<and> gc_stream_count (terminate_stream i c) = gc_stream_count c"
proof -
  note ok = grpc_okD [OF assms(1)]
  have s: "gs_ok c i (grpc_stream c i)" using ok(3) assms(2) .
  let ?s = "grpc_stream c i"
  consider (cancel) "gs_state ?s = GOpening" "gs_cancellable ?s" | (close) "stream_is_open ?s" 
      | (nothing) "\<not> (gs_state ?s = GOpening \<and> gs_cancellable ?s)" "\<not> stream_is_open ?s"
    by blast
  then show ?thesis
  proof cases
    case cancel
    have "grpc_ok (terminate_stream i c)"
      by (rule grpc_ok_update [OF assms, of _ "?s\<lparr>gs_cancellable := False, gs_state := GClosed\<rparr>"])
        (use cancel s ok in \<open>auto simp: terminate_stream_def grpc_eqs grpc_scal_def gs_ok_def stream_is_open_def\<close>)
    then show ?thesis using cancel by (simp add: terminate_stream_def grpc_upd_def)
  next
    case close
    then have "gs_state ?s \<noteq> GOpening" by (auto simp: stream_is_open_def)
    then have "grpc_ok (terminate_stream i c)"
      by (intro grpc_ok_update [OF assms, of _ "?s\<lparr>gs_state := GClosed, gs_encoder := False, gs_inflight := []\<rparr>"])
        (use close s ok assms(2) in \<open>auto simp: terminate_stream_def grpc_eqs grpc_scal_def gs_ok_def stream_is_open_def\<close>)
    then show ?thesis using close \<open>gs_state ?s \<noteq> GOpening\<close> by (simp add: terminate_stream_def grpc_eqs)
  next
    case nothing
    then show ?thesis using assms(1) unfolding terminate_stream_def by (simp only: if_False)
  qed
qed

lemma ok_terminate_streams:
  "grpc_ok c \<Longrightarrow> set is \<subseteq> {..<gc_stream_count c} \<Longrightarrow> grpc_ok (terminate_streams is c)"
  by (induction "is" c rule: terminate_streams.induct) (use ok_terminate_stream in auto)

lemma ok_data:
  assumes "grpc_ok c" "i < gc_stream_count c" "gs_state (grpc_stream c i) \<noteq> GOpening"
  shows "grpc_ok (grpc_onResponseData i frames end_stream c)" "grpc_ok (grpc_onResponseHeaders i end_stream status c)"
    "grpc_ok (onResponseTrailers i status c)"
  using ok_frames [OF assms, of frames] assms
  by (auto simp: grpc_onResponseData_def grpc_onResponseHeaders_def onResponseTrailers_def Let_def intro!: ok_close ok_early)

lemma grpc_step_ok: "grpc_step c c' \<Longrightarrow> grpc_ok c \<Longrightarrow> grpc_ok c'"
proof (induction rule: grpc_step.induct)
  case (grpc_terminate c)
  have "grpc_ok (c\<lparr>gc_measure_latencies := False\<rparr>)"
    by (rule grpc_ok_same [OF grpc_terminate.prems]) (simp_all add: grpc_scal_def grpc_okD(2) [OF grpc_terminate.prems])
  then show ?case by (auto simp: grpc_terminate_rest_def intro: ok_terminate_streams)
next
  case (grpc_request c c')
  then show ?case using ok_request by fastforce
next
  case (grpc_prepare_begin generated c c')
  then show ?case
    by (intro grpc_ok_same [OF grpc_prepare_begin.prems])
      (auto simp: grpc_prepare_begin_def grpc_scal_def grpc_okD split: option.splits)
next
  case (grpc_prepare_wait c)
  then show ?case using grpc_okD(2) [OF grpc_prepare_wait.prems]
    by (auto simp: grpc_prepare_wait_def grpc_ok_def gs_ok_def)
next
  case (grpc_prepare_end c)
  then show ?case by (auto simp: grpc_prepare_end_def grpc_ok_def gs_ok_def)
qed (auto intro: ok_ready ok_prepare_open ok_data ok_reset ok_blocked ok_finish ok_drained,
    auto intro: grpc_ok_same simp: grpc_scal_def grpc_okD)

end
