(* ===== verification/GrpcAccount.thy ===== *)
theory GrpcAccount
  imports GrpcStream
begin

text \<open>
  The gRPC streaming client keeps the ledger of \<open>MessageLedger\<close>: every step of the client is a sequence of
  steps of the specification, so each request is completed exactly once and the counters add up, for every
  interleaving of streams, timers and callbacks.
\<close>

subsection \<open>The client's ledger\<close>

definition inflight_requests :: "GrpcStream \<Rightarrow> nat list" where
  "inflight_requests s = map gm_callback (gs_inflight s)"

definition grpc_ledger :: "GrpcStreamClient \<Rightarrow> ledger" where
  "grpc_ledger c =
     \<lparr>lg_started = gc_started c, lg_completed = mset (gc_callbacks c), lg_posted = mset (gc_posted c),
      lg_inflight = mset (concat (map inflight_requests (gc_streams c))),
      lg_sent = gc_counters c G_stream_messages_sent,
      lg_dropped = gc_counters c G_stream_deferred + gc_counters c G_stream_unavailable,
      lg_received = gc_counters c G_stream_messages_received, lg_lost = gc_counters c G_stream_inflight_lost\<rparr>"

text \<open>What the ledger reads of the client.\<close>

definition grpc_books :: "GrpcStreamClient \<Rightarrow> nat \<times> (nat \<times> bool) list \<times> (nat \<times> bool) list \<times> nat \<times> nat \<times> nat \<times> nat \<times> nat" where
  "grpc_books c = (gc_started c, gc_callbacks c, gc_posted c, gc_counters c G_stream_messages_sent, gc_counters c G_stream_deferred,
     gc_counters c G_stream_unavailable, gc_counters c G_stream_messages_received, gc_counters c G_stream_inflight_lost)"

lemma grpc_ledger_cong:
  "grpc_books c' = grpc_books c \<Longrightarrow> map inflight_requests (gc_streams c') = map inflight_requests (gc_streams c) \<Longrightarrow>
    grpc_ledger c' = grpc_ledger c"
  by (simp add: grpc_ledger_def grpc_books_def)

text \<open>A stream that keeps its messages leaves the messages in flight as they are.\<close>

lemma map_inflight_upd:
  "gs_inflight s = gs_inflight (grpc_stream c i) \<Longrightarrow>
    map inflight_requests ((gc_streams c)[i := s]) = map inflight_requests (gc_streams c)"
  by (cases "i < length (gc_streams c)") (simp_all add: map_update inflight_requests_def list_update_beyond list_update_same_conv)

lemma inflight_upd:
  assumes "i < length (gc_streams c)"
  shows "mset (concat (map inflight_requests ((gc_streams c)[i := s]))) =
    mset (concat (map inflight_requests (gc_streams c))) - mset (inflight_requests (grpc_stream c i)) + mset (inflight_requests s)"
  using mset_concat_update [OF assms, of inflight_requests s] mset_concat_nth [OF assms, of inflight_requests]
  by (metis add_diff_cancel_right' subset_mset.diff_add_assoc2)

lemma grpc_lose:
  assumes "i < length (gc_streams c)"
  shows "ledger_step\<^sup>*\<^sup>* (grpc_ledger c) (grpc_ledger (grpc_completeInflight i False c))"
proof -
  have "grpc_ledger (grpc_completeInflight i False c) = lg_lose_all (inflight_requests (grpc_stream c i)) (grpc_ledger c)"
    using inflight_upd [OF assms, of "(grpc_stream c i)\<lparr>gs_inflight := []\<rparr>"]
    by (simp add: grpc_ledger_def lg_lose_all_def grpc_completeInflight_eq inflight_requests_def comp_def)
  moreover have "mset (inflight_requests (grpc_stream c i)) \<subseteq># lg_inflight (grpc_ledger c)"
    using mset_concat_nth [OF assms, of inflight_requests] by (simp add: grpc_ledger_def)
  ultimately show ?thesis using lose_all_steps by metis
qed

lemma grpc_close_refines:
  assumes "i < length (gc_streams c)"
  shows "ledger_step\<^sup>*\<^sup>* (grpc_ledger c) (grpc_ledger (grpc_closeStream i status c))"
proof (cases "gs_state (grpc_stream c i) = GClosed")
  case False
  let ?d = "grpc_statusCounter status (grpc_upd i (\<lambda>s. s\<lparr>gs_state := GClosed, gs_encoder := False\<rparr>) c)"
  have "grpc_ledger ?d = grpc_ledger c"
    by (rule grpc_ledger_cong)
      (simp_all add: grpc_books_def grpc_statusCounter_def grpc_upd_def map_inflight_upd)
  moreover have "grpc_ledger (grpc_closeStream i status c) = grpc_ledger (grpc_completeInflight i False ?d)"
    using False by (simp add: grpc_closeStream_def grpc_exit_eq grpc_ledger_def)
  ultimately show ?thesis using grpc_lose [of i ?d] assms by (simp add: grpc_upd_def grpc_statusCounter_def)
qed (simp add: grpc_closeStream_def)

lemma grpc_ledger_early [simp]: "grpc_ledger (early_close i c) = grpc_ledger c"
  by (simp add: early_close_def grpc_inc_def grpc_ledger_def)

lemma frames_refine:
  "i < length (gc_streams c) \<Longrightarrow> ledger_step\<^sup>*\<^sup>* (grpc_ledger c) (grpc_ledger (answer_frames n i c)) \<and>
    length (gc_streams (answer_frames n i c)) = length (gc_streams c)"
proof (induction n i c rule: answer_frames.induct)
  case (2 n i c)
  show ?case
  proof (cases "gs_inflight (grpc_stream c i)")
    case Nil
    then show ?thesis using 2 by (simp add: grpc_inc_def grpc_ledger_def)
  next
    case (Cons m ms)
    define d where "d = (case gs_inflight (grpc_stream c i) of
          [] \<Rightarrow> grpc_inc G_stream_unexpected_message c
        | m # ms \<Rightarrow>
            let c = grpc_inc G_stream_messages_received (grpc_upd i (\<lambda>s. s\<lparr>gs_inflight := ms\<rparr>) c);
                c = (if gc_measure_latencies c
                     then c\<lparr>gc_latency := gc_latency c @ [word_of_int (gc_now c - gm_sent_at m)]\<rparr> else c)
            in c\<lparr>gc_callbacks := gc_callbacks c @ [(gm_callback m, True)]\<rparr>)"
    have in_flight: "gm_callback m \<in># mset (inflight_requests (grpc_stream c i))" using Cons by (simp add: inflight_requests_def)
    then have r: "gm_callback m \<in># lg_inflight (grpc_ledger c)"
      using mset_concat_nth [OF "2.prems", of inflight_requests] unfolding grpc_ledger_def by (auto dest: mset_subset_eqD)
    have "mset (concat (map inflight_requests ((gc_streams c)[i := (grpc_stream c i)\<lparr>gs_inflight := ms\<rparr>]))) + {#gm_callback m#} =
        mset (concat (map inflight_requests (gc_streams c)))"
      using mset_concat_update [OF "2.prems", of inflight_requests "(grpc_stream c i)\<lparr>gs_inflight := ms\<rparr>"] Cons
      by (simp add: inflight_requests_def)
    then have "grpc_ledger d = lg_answer (gm_callback m) (grpc_ledger c)"
      unfolding d_def using Cons by (simp add: grpc_eqs grpc_ledger_def lg_answer_def) (metis add_mset_remove_trivial)
    then have "ledger_step (grpc_ledger c) (grpc_ledger d)" using ledger_answer [OF r] by simp
    moreover have "length (gc_streams d) = length (gc_streams c)" unfolding d_def using Cons by (simp add: grpc_eqs)
    moreover have "answer_frames (Suc n) i c = answer_frames n i d" by (simp add: d_def)
    ultimately show ?thesis using "2.IH" [folded d_def] "2.prems" by (auto intro: converse_rtranclp_into_rtranclp)
  qed
qed simp

lemma data_refines:
  assumes "i < length (gc_streams c)"
  shows "ledger_step\<^sup>*\<^sup>* (grpc_ledger c) (grpc_ledger (grpc_onResponseData i frames end_stream c))"
    "ledger_step\<^sup>*\<^sup>* (grpc_ledger c) (grpc_ledger (grpc_onResponseHeaders i end_stream status c))"
    "ledger_step\<^sup>*\<^sup>* (grpc_ledger c) (grpc_ledger (onResponseTrailers i status c))"
proof -
  let ?d = "answer_frames frames i c"
  have "ledger_step\<^sup>*\<^sup>* (grpc_ledger ?d) (grpc_ledger (grpc_closeStream i None (early_close i ?d)))"
    using grpc_close_refines [of i "early_close i ?d" None] frames_refine [OF assms, of frames] assms by simp
  then show "ledger_step\<^sup>*\<^sup>* (grpc_ledger c) (grpc_ledger (grpc_onResponseData i frames end_stream c))"
    using frames_refine [OF assms, of frames] by (auto simp: grpc_onResponseData_def Let_def)
  have "ledger_step\<^sup>*\<^sup>* (grpc_ledger c) (grpc_ledger (grpc_closeStream i status (early_close i c)))"
    using grpc_close_refines [of i "early_close i c" status] assms by simp
  then show "ledger_step\<^sup>*\<^sup>* (grpc_ledger c) (grpc_ledger (grpc_onResponseHeaders i end_stream status c))"
    "ledger_step\<^sup>*\<^sup>* (grpc_ledger c) (grpc_ledger (onResponseTrailers i status c))"
    by (auto simp: grpc_onResponseHeaders_def onResponseTrailers_def)
qed

lemma reset_refines:
  assumes "i < length (gc_streams c)"
  shows "ledger_step\<^sup>*\<^sup>* (grpc_ledger c) (grpc_ledger (grpc_onStreamReset i c))"
proof (cases "gs_state (grpc_stream c i) = GClosed")
  case False
  define d where "d = (let c = grpc_inc G_stream_resets c in if gs_state (grpc_stream c i) = GOpening
    then (grpc_inc G_stream_open_failures c)\<lparr>gc_pending_opens := gc_pending_opens c - 1\<rparr> else c)"
  have "grpc_ledger d = grpc_ledger c" "length (gc_streams d) = length (gc_streams c)"
    by (simp_all add: d_def Let_def grpc_inc_def grpc_ledger_def)
  moreover have "grpc_onStreamReset i c = grpc_closeStream i None d"
    using False by (simp add: grpc_onStreamReset_def d_def Let_def)
  ultimately show ?thesis using grpc_close_refines [of i d None] assms by simp
qed (simp add: grpc_onStreamReset_def)

lemma grpc_ledger_fields [simp]:
  "grpc_ledger (c\<lparr>gc_pending_opens := p\<rparr>) = grpc_ledger c" "grpc_ledger (c\<lparr>gc_prepared := n\<rparr>) = grpc_ledger c"
  "grpc_ledger (c\<lparr>gc_now := t\<rparr>) = grpc_ledger c" "grpc_ledger (c\<lparr>gc_message := body\<rparr>) = grpc_ledger c"
  "grpc_ledger (c\<lparr>gc_measure_latencies := b\<rparr>) = grpc_ledger c" "grpc_ledger (c\<lparr>gc_wait_timer := t'\<rparr>) = grpc_ledger c"
  "grpc_ledger (c\<lparr>gc_waiting_for := w\<rparr>) = grpc_ledger c" "grpc_ledger (c\<lparr>gc_exit := b\<rparr>) = grpc_ledger c"
  "grpc_ledger (c\<lparr>gc_finished := b\<rparr>) = grpc_ledger c" "grpc_ledger (grpc_maybeExitWaitLoop c) = grpc_ledger c"
  by (simp_all add: grpc_ledger_def grpc_exit_eq)

lemma grpc_ledger_upd: "(\<And>s. gs_inflight (f s) = gs_inflight s) \<Longrightarrow> grpc_ledger (grpc_upd i f c) = grpc_ledger c"
  by (intro grpc_ledger_cong) (simp_all add: grpc_upd_def grpc_books_def map_inflight_upd)

lemma grpc_ledger_inc [simp]:
  "grpc_ledger (grpc_inc G_stream_open_failures c) = grpc_ledger c" "grpc_ledger (grpc_inc G_streams_opened c) = grpc_ledger c"
  "grpc_ledger (grpc_inc G_stream_write_blocked c) = grpc_ledger c"
  by (simp_all add: grpc_inc_def grpc_ledger_def)

lemma ready_ledger [simp]:
  "grpc_ledger (onStreamReady i headers_ok c) = grpc_ledger c" "grpc_ledger (onStreamOpenFailure i c) = grpc_ledger c"
  by (simp_all add: onStreamReady_def ready_begin_def ready_end_def onStreamOpenFailure_def Let_def grpc_ledger_upd)

lemma open_ledger [simp]: "grpc_ledger (openStream answer i c) = grpc_ledger c"
  by (simp add: openStream_def Let_def grpc_ledger_upd split: pool_answer.split)

lemma blocked_ledger [simp]: "grpc_ledger (grpc_onWriteBlocked i blocked c) = grpc_ledger c"
  by (simp add: grpc_onWriteBlocked_def grpc_ledger_upd)

lemma finish_ledger [simp]: "grpc_ledger (grpc_finish c) = grpc_ledger c"
proof -
  have "inflight_requests (half_close s) = inflight_requests s" for s by (simp add: half_close_def inflight_requests_def)
  then show ?thesis by (simp add: grpc_finish_def Let_def grpc_ledger_def comp_def)
qed

lemma drain_refines:
  "set is \<subseteq> {..<length (gc_streams c)} \<Longrightarrow> ledger_step\<^sup>*\<^sup>* (grpc_ledger c) (grpc_ledger (drain_streams is c))"
proof (induction "is" c rule: drain_streams.induct)
  case (2 i "is" c)
  let ?d = "grpc_completeInflight i False (grpc_inc G_stream_drain_incomplete c)"
  have "ledger_step\<^sup>*\<^sup>* (grpc_ledger c) (grpc_ledger ?d)"
    using grpc_lose [of i "grpc_inc G_stream_drain_incomplete c"] "2.prems" by (simp add: grpc_inc_def grpc_ledger_def)
  moreover have "length (gc_streams ?d) = length (gc_streams c)" by (simp add: grpc_eqs)
  ultimately show ?case using 2 by (auto split: if_splits)
qed simp

lemma terminate_stream_refines:
  assumes "i < length (gc_streams c)"
  shows "ledger_step\<^sup>*\<^sup>* (grpc_ledger c) (grpc_ledger (terminate_stream i c)) \<and>
    length (gc_streams (terminate_stream i c)) = length (gc_streams c)"
proof -
  let ?d = "grpc_upd i (\<lambda>s. s\<lparr>gs_state := GClosed, gs_encoder := False\<rparr>) c"
    and ?e = "grpc_upd i (\<lambda>s. s\<lparr>gs_cancellable := False, gs_state := GClosed\<rparr>) c"
  have same: "grpc_ledger ?d = grpc_ledger c" "grpc_ledger ?e = grpc_ledger c"
    by (simp_all add: grpc_ledger_upd)
  then have "ledger_step\<^sup>*\<^sup>* (grpc_ledger c) (grpc_ledger (grpc_completeInflight i False ?d))"
    using grpc_lose [of i ?d] assms by (simp add: grpc_upd_def)
  then show ?thesis using same by (simp add: terminate_stream_def) (simp add: grpc_eqs)
qed

lemma terminate_refines:
  "set is \<subseteq> {..<length (gc_streams c)} \<Longrightarrow> ledger_step\<^sup>*\<^sup>* (grpc_ledger c) (grpc_ledger (terminate_streams is c))"
proof (induction "is" c rule: terminate_streams.induct)
  case (2 i "is" c)
  then show ?case using terminate_stream_refines [of i c] by (auto intro: rtranclp_trans)
qed simp

lemma request_refines:
  assumes "grpc_ok c" "grpc_tryStartRequest c = Inr c'"
  shows "ledger_step (grpc_ledger c) (grpc_ledger c')"
proof -
  have i: "gc_next_stream c < length (gc_streams c)" using grpc_okD(1,2) [OF assms(1)] by simp
  have "grpc_ledger (grpc_sent c) = lg_send (grpc_ledger c)"
    using inflight_upd [OF i, of "(grpc_stream c (gc_next_stream c))\<lparr>gs_inflight :=
        gs_inflight (grpc_stream c (gc_next_stream c)) @ [\<lparr>gm_sent_at = gc_now c, gm_callback = gc_started c\<rparr>]\<rparr>"]
      mset_concat_nth [OF i, of inflight_requests]
    by (simp add: grpc_sent_def grpc_ledger_def lg_send_def inflight_requests_def)
  moreover have "grpc_ledger (grpc_dropped k c) = lg_drop (grpc_ledger c)" if "k \<in> {G_stream_unavailable, G_stream_deferred}" for k
    using that by (auto simp: grpc_dropped_def grpc_ledger_def lg_drop_def)
  moreover have "c' = grpc_sent c \<or> (\<exists>k \<in> {G_stream_unavailable, G_stream_deferred}. c' = grpc_dropped k c)"
    using assms(2) by (auto simp: grpc_request_eq Let_def split: if_splits)
  ultimately show ?thesis using ledger_send ledger_drop by metis
qed

lemma grpc_step_refines: "grpc_step c c' \<Longrightarrow> grpc_ok c \<Longrightarrow> ledger_step\<^sup>*\<^sup>* (grpc_ledger c) (grpc_ledger c')"
proof (induction rule: grpc_step.induct)
  case (grpc_request c c')
  then show ?case using request_refines by blast
next
  case (grpc_posted c p rest)
  then have "grpc_ledger (c\<lparr>gc_posted := rest, gc_callbacks := gc_callbacks c @ [p]\<rparr>) = lg_run p (grpc_ledger c)"
    by (simp add: grpc_ledger_def lg_run_def)
  moreover have "p \<in># lg_posted (grpc_ledger c)" using grpc_posted by (simp add: grpc_ledger_def)
  ultimately show ?case using ledger_run by (metis r_into_rtranclp)
next
  case (grpc_drained c)
  let ?c = "c\<lparr>gc_wait_timer := None, gc_waiting_for := GWaitNothing\<rparr>"
  have "set [0..<gc_stream_count c] \<subseteq> {..<length (gc_streams ?c)}"
    using grpc_okD(1) [OF grpc_drained.prems] by auto
  then show ?case using drain_refines [of "[0..<gc_stream_count c]" ?c] by (simp add: grpc_finish_rest_def)
next
  case (grpc_terminate c)
  let ?c = "c\<lparr>gc_measure_latencies := False\<rparr>"
  have "set [0..<gc_stream_count c] \<subseteq> {..<length (gc_streams ?c)}"
    using grpc_okD(1) [OF grpc_terminate.prems] by auto
  then show ?case using terminate_refines [of "[0..<gc_stream_count c]" ?c] by (simp add: grpc_terminate_rest_def)
next
  case (grpc_prepare_begin generated c c')
  then show ?case by (auto simp: grpc_prepare_begin_def split: option.splits)
qed (simp_all add: grpc_prepare_open_def grpc_prepare_wait_def grpc_prepare_end_def data_refines reset_refines grpc_okD)

subsection \<open>The client implements the specification\<close>

definition grpc_initial :: "GrpcStreamClient \<Rightarrow> bool" where
  "grpc_initial c \<longleftrightarrow> (\<exists>streams limit drain open_timeout now. streams < 2 ^ 32 \<and>
     mk_GrpcStreamClient streams limit drain open_timeout now = Inr c)"

interpretation grpc_account: ledger_client grpc_initial grpc_step grpc_ok grpc_ledger
proof unfold_locales
  fix c assume "grpc_initial c"
  then obtain streams limit drain open_timeout now where streams: "streams < 2 ^ 32"
    and c: "mk_GrpcStreamClient streams limit drain open_timeout now = Inr c" by (auto simp: grpc_initial_def)
  have "filter gs_cancellable (replicate n fresh_stream) = []" for n by (induction n) (simp_all add: fresh_stream_def)
  then show "grpc_ok c"
    using streams c by (auto simp: mk_GrpcStreamClient_def grpc_ok_def gs_ok_def fresh_stream_def stream_is_open_def split: if_splits)
  have "inflight_requests fresh_stream = []" by (simp add: inflight_requests_def fresh_stream_def)
  then show "grpc_ledger c = empty_ledger"
    using c by (auto simp: mk_GrpcStreamClient_def grpc_ledger_def empty_ledger_def split: if_splits)
qed (use grpc_step_ok grpc_step_refines in blast)+

subsection \<open>Properties\<close>

text \<open>
  C6: the streaming client refines the message ledger. In every reachable state every request it started is
  completed, posted or held by one stream, exactly once; it was sent, deferred or found no open stream; what
  was sent has been answered, lost or is in flight; it reports success exactly for the answered ones; and
  once \<open>finish\<close> has waited, no stream it half-closed holds a message.
\<close>

theorem grpc_messages_accounted:
  assumes "mk_GrpcStreamClient streams limit drain open_timeout now = Inr c0" "streams < 2 ^ 32" "grpc_step\<^sup>*\<^sup>* c0 c"
  shows "ledger_step\<^sup>*\<^sup>* empty_ledger (grpc_ledger c) \<and>
    mset (map fst (gc_callbacks c)) + mset (map fst (gc_posted c)) + mset (concat (map inflight_requests (gc_streams c))) =
      mset [0..<gc_started c] \<and>
    gc_started c = gc_counters c G_stream_messages_sent + gc_counters c G_stream_deferred + gc_counters c G_stream_unavailable \<and>
    gc_counters c G_stream_messages_sent = gc_counters c G_stream_messages_received + gc_counters c G_stream_inflight_lost +
      (\<Sum>s\<leftarrow>gc_streams c. length (gs_inflight s)) \<and>
    length (filter snd (gc_callbacks c)) = gc_counters c G_stream_messages_received \<and>
    (gc_finished c \<and> gc_waiting_for c = GWaitNothing \<longrightarrow>
      (\<forall>s \<in> set (gc_streams c). gs_state s = GHalfClosed \<longrightarrow> gs_inflight s = []))"
proof -
  have c0: "grpc_initial c0" using assms(1,2) unfolding grpc_initial_def by blast
  note ok = grpc_account.reachable_inv [OF assms(3) c0]
  have "length (concat (map inflight_requests xs)) = (\<Sum>s\<leftarrow>xs. length (gs_inflight s))" for xs
    by (induction xs) (simp_all add: inflight_requests_def)
  then have "ledger_ok (grpc_ledger c) \<longrightarrow> ?thesis"
    using ok grpc_account.reachable_refines [OF assms(3) c0]
    by (auto simp: ledger_ok_def grpc_ledger_def grpc_ok_def gs_ok_def in_set_conv_nth simp flip: mset_filter mset_map simp del: mset_upt mset_concat)
  then show ?thesis using grpc_account.reachable_account [OF assms(3) c0] by blast
qed


text \<open>
  The codec may also reset a stream from within \<open>encodeHeaders\<close>, while \<open>onStreamReady\<close> has it \<open>Opening\<close>: the only
  moment the handler's branch for an opening stream can run. \<open>onStreamReady\<close> then goes on regardless: the open
  is counted down twice and the stream is open without an encoder, which the next message written to it
  dereferences.
\<close>

lemma reset_within_encodeHeaders:
  assumes "grpc_ok c" "i < gc_stream_count c" "gs_cancellable (grpc_stream c i)"
    and d: "d = ready_end i True (grpc_onStreamReset i (ready_begin i c))"
  shows "gc_pending_opens d = gc_pending_opens c - 2 \<and> gs_state (grpc_stream d i) = GOpen \<and> \<not> gs_encoder (grpc_stream d i) \<and>
    (gc_next_stream d = i \<and> \<not> gs_write_blocked (grpc_stream d i) \<and> 0 < gc_max_inflight d \<longrightarrow>
      grpc_tryStartRequest d = Inl (Panic ''null encoder''))"
proof -
  have "gs_ok c i (grpc_stream c i)" "i < length (gc_streams c)" using grpc_okD [OF assms(1)] assms(2) by simp_all
  then have "gs_state (grpc_stream c i) = GOpening" "gs_inflight (grpc_stream c i) = []"
    using assms(3) by (auto simp: gs_ok_def stream_is_open_def)
  then show ?thesis using \<open>i < length (gc_streams c)\<close>
    by (auto simp: d ready_end_def ready_begin_def grpc_onStreamReset_def grpc_closeStream_def grpc_eqs grpc_request_eq)
qed

subsection \<open>A client with one stream\<close>

definition sample_grpc :: GrpcStreamClient where
  "sample_grpc =
     \<lparr>gc_counters = (\<lambda>_. 0), gc_status = (\<lambda>_. 0), gc_latency = [], gc_stream_count = 1, gc_max_inflight = 2,
      gc_drain_duration = 0, gc_open_timeout = one_second, gc_streams = [fresh_stream],
      gc_message = [], gc_next_stream = 0, gc_pending_opens = 0, gc_measure_latencies = False,
      gc_waiting_for = GWaitNothing, gc_wait_timer = None, gc_finished = False, gc_now = 0, gc_started = 0,
      gc_prepared = 0, gc_posted = [], gc_callbacks = [], gc_exit = False\<rparr>"

definition sample_grpc_sent :: GrpcStreamClient where
  "sample_grpc_sent = grpc_sent (grpc_prepare_open (PoolReady True) sample_grpc)"

lemma sample_grpc_made: "mk_GrpcStreamClient 1 2 0 one_second 0 = Inr sample_grpc"
  by (simp add: mk_GrpcStreamClient_def sample_grpc_def)

lemma sample_grpc_reachable: "grpc_step\<^sup>*\<^sup>* sample_grpc sample_grpc_sent"
proof -
  let ?c = "grpc_prepare_open (PoolReady True) sample_grpc"
  have "grpc_step sample_grpc ?c" by (rule grpc_step.grpc_prepare_open) (simp_all add: sample_grpc_def)
  moreover have "gs_state (grpc_stream ?c (gc_next_stream ?c)) = GOpen" "\<not> gs_write_blocked (grpc_stream ?c (gc_next_stream ?c))"
      "length (gs_inflight (grpc_stream ?c (gc_next_stream ?c))) < gc_max_inflight ?c" "gs_encoder (grpc_stream ?c (gc_next_stream ?c))"
    by code_simp+
  then have "grpc_tryStartRequest ?c = Inr sample_grpc_sent" by (simp add: grpc_request_eq sample_grpc_sent_def)
  then have "grpc_step ?c sample_grpc_sent" by (rule grpc_step.grpc_request)
  ultimately show ?thesis by (meson converse_rtranclp_into_rtranclp rtranclp.rtrancl_refl)
qed

theorem grpc_messages_accounted_witness:
  "gc_counters sample_grpc_sent G_stream_messages_sent = 1 \<and> (\<Sum>s\<leftarrow>gc_streams sample_grpc_sent. length (gs_inflight s)) = 1"
proof -
  have "gc_counters sample_grpc_sent G_stream_messages_sent = 1" "gc_counters sample_grpc_sent G_stream_messages_received = 0"
      "gc_counters sample_grpc_sent G_stream_inflight_lost = 0"
    by code_simp+
  then show ?thesis using grpc_messages_accounted [OF sample_grpc_made _ sample_grpc_reachable] by simp
qed


end
