(* ===== verification/WsStream.thy ===== *)
theory WsStream
  imports MessageLedger Statistics Options WebSocket "HOL-Library.Sublist"
begin

text \<open>
  The WebSocket streaming client (\<^verbatim>\<open>client/websocket_stream_client_impl.cc\<close>): upgraded HTTP/1.1 connections
  opened through the pool, messages framed and prefixed with a sequence number, echoes matched by that
  number, and the closing handshake and drain at the end. The environment is a step relation as for the gRPC
  client. Abseil's \<open>SimpleHexAtoi\<close> is a parameter, so are SHA-1, base64 and the string routines. A stream also
  records the frames written to it; the mask of a frame is chosen where it is encoded.
\<close>

subsection \<open>State\<close>

datatype ws_counter =
    W_streams_opened | W_stream_open_failures | W_stream_upgrade_rejected | W_stream_messages_sent
  | W_stream_messages_received | W_stream_deferred | W_stream_unavailable | W_stream_resets | W_stream_early_close
  | W_stream_unexpected_message | W_stream_protocol_errors | W_stream_inflight_lost | W_stream_drain_incomplete
  | W_stream_write_blocked

datatype WsStreamState = WOpening | WOpen | WClosing | WClosed

datatype WsWaitingFor = WWaitNothing | WWaitOpens | WWaitCloses

record WsMessage =
  wm_sequence :: "64 word"
  wm_sent_at :: nanos
  wm_callback :: nat

record WsConnection =
  wst_state :: WsStreamState
  wst_encoder :: bool
  wst_cancellable :: bool
  wst_inflight :: "WsMessage list"
  wst_key :: string
  wst_received :: "byte list"
  wst_fragments :: "byte list"
  wst_write_blocked :: bool
  wst_written :: "Frame list"

record WsStreamClient =
  wc_counters :: "ws_counter \<Rightarrow> nat"
  wc_latency :: "sample list"
  wc_stream_count :: nat
  wc_max_inflight :: nat
  wc_drain_duration :: nanos
  wc_open_timeout :: nanos
  wc_binary :: bool
  wc_streams :: "WsConnection list"
  wc_message :: "byte list"
  wc_next_sequence :: "64 word"
  wc_next_stream :: nat
  wc_pending_opens :: "32 word"
  wc_measure_latencies :: bool
  wc_waiting_for :: WsWaitingFor
  wc_wait_timer :: "nanos option"
  wc_finished :: bool
  wc_now :: nanos
  wc_started :: nat
  wc_prepared :: nat
  wc_posted :: "(nat \<times> bool) list"
  wc_callbacks :: "(nat \<times> bool) list"
  wc_exit :: bool

definition fresh_connection :: WsConnection where
  "fresh_connection = \<lparr>wst_state = WOpening, wst_encoder = False, wst_cancellable = False, wst_inflight = [], wst_key = [],
     wst_received = [], wst_fragments = [], wst_write_blocked = False, wst_written = []\<rparr>"

definition mk_WsStreamClient :: "nat \<Rightarrow> nat \<Rightarrow> nanos \<Rightarrow> nanos \<Rightarrow> bool \<Rightarrow> nanos \<Rightarrow> WsStreamClient result" where
  "mk_WsStreamClient streams inflight_limit drain open_timeout binary now =
     (if streams = 0 then Inl (Panic ''at least one stream is required'')
      else if inflight_limit = 0 then Inl (Panic ''max_inflight_per_stream must be positive'')
      else Inr
        \<lparr>wc_counters = (\<lambda>_. 0), wc_latency = [], wc_stream_count = streams, wc_max_inflight = inflight_limit,
         wc_drain_duration = drain, wc_open_timeout = open_timeout, wc_binary = binary,
         wc_streams = replicate streams fresh_connection, wc_message = [], wc_next_sequence = 0, wc_next_stream = 0,
         wc_pending_opens = 0, wc_measure_latencies = False, wc_waiting_for = WWaitNothing, wc_wait_timer = None,
         wc_finished = False, wc_now = now, wc_started = 0, wc_prepared = 0, wc_posted = [], wc_callbacks = [], wc_exit = False\<rparr>)"

definition create_ws_stream_client :: "OptionsImpl \<Rightarrow> nat \<Rightarrow> nanos \<Rightarrow> WsStreamClient result" where
  "create_ws_stream_client opt concurrency now =
     mk_WsStreamClient (o_streams opt div concurrency) (o_max_inflight_per_stream opt) (o_stream_drain_duration opt)
       (int (o_timeout opt) * one_second) (o_websocket_binary opt) now"

text \<open>\<open>StrFormat\<close> with \<open>%016x\<close>: sixteen lower case hexadecimal digits.\<close>

definition hex_digit :: "nat \<Rightarrow> byte" where
  "hex_digit d = (if d < 10 then word_of_nat (48 + d) else word_of_nat (87 + d))"

primrec hex_digits :: "nat \<Rightarrow> nat \<Rightarrow> byte list" where
  "hex_digits 0 n = []"
| "hex_digits (Suc k) n = hex_digit (n div 16 ^ k mod 16) # hex_digits k n"

definition sequencePrefix :: "64 word \<Rightarrow> byte list" where
  "sequencePrefix w = hex_digits 16 (unat w)"

definition kSequencePrefixLength :: nat where "kSequencePrefixLength = 16"

definition ws_inc :: "ws_counter \<Rightarrow> WsStreamClient \<Rightarrow> WsStreamClient" where
  "ws_inc k c = c\<lparr>wc_counters := (wc_counters c)(k := wc_counters c k + 1)\<rparr>"

definition ws_upd :: "nat \<Rightarrow> (WsConnection \<Rightarrow> WsConnection) \<Rightarrow> WsStreamClient \<Rightarrow> WsStreamClient" where
  "ws_upd i f c = c\<lparr>wc_streams := (wc_streams c)[i := f (wc_streams c ! i)]\<rparr>"

abbreviation ws_stream :: "WsStreamClient \<Rightarrow> nat \<Rightarrow> WsConnection" where "ws_stream c i \<equiv> wc_streams c ! i"

subsection \<open>Operations\<close>

definition ws_is_open :: "WsConnection \<Rightarrow> bool" where
  "ws_is_open s \<longleftrightarrow> wst_state s = WOpen \<or> wst_state s = WClosing"

definition ws_openStreams :: "WsStreamClient \<Rightarrow> nat" where
  "ws_openStreams c = length (filter ws_is_open (wc_streams c))"

definition ws_maybeExitWaitLoop :: "WsStreamClient \<Rightarrow> WsStreamClient" where
  "ws_maybeExitWaitLoop c =
     (case wc_waiting_for c of
        WWaitOpens \<Rightarrow> if wc_pending_opens c = 0 then c\<lparr>wc_exit := True\<rparr> else c
      | WWaitCloses \<Rightarrow> if ws_openStreams c = 0 then c\<lparr>wc_exit := True\<rparr> else c
      | WWaitNothing \<Rightarrow> c)"

fun ws_complete :: "bool \<Rightarrow> WsMessage list \<Rightarrow> WsStreamClient \<Rightarrow> WsStreamClient" where
  "ws_complete success [] c = c"
| "ws_complete success (m # ms) c =
     (let c = (if \<not> success then ws_inc W_stream_inflight_lost c else c)
      in ws_complete success ms (c\<lparr>wc_callbacks := wc_callbacks c @ [(wm_callback m, success)]\<rparr>))"

definition ws_completeInflight :: "nat \<Rightarrow> bool \<Rightarrow> WsStreamClient \<Rightarrow> WsStreamClient" where
  "ws_completeInflight i success c =
     ws_complete success (wst_inflight (ws_stream c i)) (ws_upd i (\<lambda>s. s\<lparr>wst_inflight := []\<rparr>) c)"

definition ws_closeStream :: "nat \<Rightarrow> WsStreamClient \<Rightarrow> WsStreamClient" where
  "ws_closeStream i c =
     (if wst_state (ws_stream c i) = WClosed then c
      else ws_maybeExitWaitLoop (ws_completeInflight i False
             (ws_upd i (\<lambda>s. s\<lparr>wst_state := WClosed, wst_encoder := False\<rparr>) c)))"

text \<open>The stream is only ever written to while it is open, when it has its encoder.\<close>

definition ws_send :: "nat \<Rightarrow> Frame \<Rightarrow> WsStreamClient \<Rightarrow> WsStreamClient" where
  "ws_send i frame c = ws_upd i (\<lambda>s. s\<lparr>wst_written := wst_written s @ [frame]\<rparr>) c"

definition ws_onStreamReady :: "nat \<Rightarrow> bool \<Rightarrow> WsStreamClient \<Rightarrow> WsStreamClient" where
  "ws_onStreamReady i headers_ok c =
     (let c = ws_upd i (\<lambda>s. s\<lparr>wst_cancellable := False, wst_encoder := True\<rparr>) c
      in if \<not> headers_ok
         then let c = ws_inc W_stream_open_failures c
              in ws_closeStream i (c\<lparr>wc_pending_opens := wc_pending_opens c - 1\<rparr>)
         else c)"

definition ws_onStreamOpenFailure :: "nat \<Rightarrow> WsStreamClient \<Rightarrow> WsStreamClient" where
  "ws_onStreamOpenFailure i c =
     (let c = ws_inc W_stream_open_failures (ws_upd i (\<lambda>s. s\<lparr>wst_cancellable := False, wst_state := WClosed\<rparr>) c)
      in ws_maybeExitWaitLoop (c\<lparr>wc_pending_opens := wc_pending_opens c - 1\<rparr>))"

datatype ws_pool_answer = WsNoPool | WsPoolReady bool | WsPoolFailed | WsPoolLater

definition ws_openStream :: "ws_pool_answer \<Rightarrow> string \<Rightarrow> nat \<Rightarrow> WsStreamClient \<Rightarrow> WsStreamClient" where
  "ws_openStream answer key i c =
     (case answer of
        WsNoPool \<Rightarrow> ws_inc W_stream_open_failures (ws_upd i (\<lambda>s. s\<lparr>wst_state := WClosed\<rparr>) c)
      | _ \<Rightarrow>
          let c = ws_upd i (\<lambda>s. s\<lparr>wst_key := key\<rparr>) c;
              c = c\<lparr>wc_pending_opens := wc_pending_opens c + 1\<rparr>;
              c = (case answer of WsPoolReady headers_ok \<Rightarrow> ws_onStreamReady i headers_ok c
                     | WsPoolFailed \<Rightarrow> ws_onStreamOpenFailure i c | _ \<Rightarrow> c)
          in if wst_state (ws_stream c i) = WOpening \<and> \<not> wst_encoder (ws_stream c i)
             then ws_upd i (\<lambda>s. s\<lparr>wst_cancellable := (answer = WsPoolLater)\<rparr>) c else c)"

text \<open>What of a response decides whether the upgrade was accepted.\<close>

record upgrade_response =
  ur_status :: nat
  ur_upgrade :: "string option"
  ur_connection :: "string option"
  ur_accept :: "string list"

definition upgrade_accepted ::
    "'z third_party_scheme \<Rightarrow> (string \<Rightarrow> byte list) \<Rightarrow> (byte list \<Rightarrow> string) \<Rightarrow> string \<Rightarrow> upgrade_response \<Rightarrow> bool" where
  "upgrade_accepted lib sha1 base64 key r \<longleftrightarrow>
     ur_status r = 101 \<and>
     (case ur_upgrade r of None \<Rightarrow> False | Some u \<Rightarrow> EqualsIgnoreCase lib u ''websocket'') \<and>
     (case ur_connection r of None \<Rightarrow> False
      | Some v \<Rightarrow> list_ex (\<lambda>token. EqualsIgnoreCase lib (StripAsciiWhitespace lib token) ''upgrade'') (StrSplit lib CHR '','' v)) \<and>
     ur_accept r = [acceptKey sha1 base64 key]"

definition ws_onResponseHeaders ::
    "'z third_party_scheme \<Rightarrow> (string \<Rightarrow> byte list) \<Rightarrow> (byte list \<Rightarrow> string) \<Rightarrow> nat \<Rightarrow> upgrade_response \<Rightarrow> bool \<Rightarrow>
       WsStreamClient \<Rightarrow> WsStreamClient" where
  "ws_onResponseHeaders lib sha1 base64 i r end_stream c =
     (if wst_state (ws_stream c i) \<noteq> WOpening then c
      else
        let accepted = upgrade_accepted lib sha1 base64 (wst_key (ws_stream c i)) r;
            c = c\<lparr>wc_pending_opens := wc_pending_opens c - 1\<rparr>
        in if \<not> accepted \<or> end_stream then ws_closeStream i (ws_inc W_stream_upgrade_rejected c)
           else ws_maybeExitWaitLoop (ws_inc W_streams_opened (ws_upd i (\<lambda>s. s\<lparr>wst_state := WOpen\<rparr>) c)))"

definition message_frame :: "WsStreamClient \<Rightarrow> 64 word \<Rightarrow> Frame" where
  "message_frame c sequence =
     \<lparr>fin = True, opcode = (if wc_binary c then Binary else Text), payload = sequencePrefix sequence @ wc_message c\<rparr>"

definition ws_tryStartRequest :: "WsStreamClient \<Rightarrow> WsStreamClient" where
  "ws_tryStartRequest c =
     (let i = wc_next_stream c; request = wc_started c;
          c = c\<lparr>wc_next_stream := (wc_next_stream c + 1) mod wc_stream_count c, wc_started := wc_started c + 1\<rparr>;
          s = ws_stream c i;
          drop_it = (\<lambda>k. (ws_inc k c)\<lparr>wc_posted := wc_posted c @ [(request, False)]\<rparr>)
      in if wst_state s \<noteq> WOpen then drop_it W_stream_unavailable
         else if wst_write_blocked s \<or> length (wst_inflight s) \<ge> wc_max_inflight c then drop_it W_stream_deferred
         else
           let sequence = wc_next_sequence c;
               c = c\<lparr>wc_next_sequence := wc_next_sequence c + 1\<rparr>;
               c = ws_upd i (\<lambda>s. s\<lparr>wst_inflight := wst_inflight s @
                     [\<lparr>wm_sequence = sequence, wm_sent_at = wc_now c, wm_callback = request\<rparr>]\<rparr>) c
           in ws_inc W_stream_messages_sent (ws_send i (message_frame c sequence) c))"

definition onMessage :: "(byte list \<Rightarrow> 64 word option) \<Rightarrow> nat \<Rightarrow> byte list \<Rightarrow> WsStreamClient \<Rightarrow> WsStreamClient" where
  "onMessage hexatoi i bytes c =
     (case (if length bytes < kSequencePrefixLength then None else hexatoi (take kSequencePrefixLength bytes)) of
        None \<Rightarrow> ws_inc W_stream_unexpected_message c
      | Some sequence \<Rightarrow>
          let q = wst_inflight (ws_stream c i); others = takeWhile (\<lambda>m. wm_sequence m \<noteq> sequence) q
          in case dropWhile (\<lambda>m. wm_sequence m \<noteq> sequence) q of
               [] \<Rightarrow> ws_inc W_stream_unexpected_message c
             | m # ms \<Rightarrow>
                 let c = ws_inc W_stream_messages_received (ws_upd i (\<lambda>s. s\<lparr>wst_inflight := others @ ms\<rparr>) c);
                     c = (if wc_measure_latencies c
                          then c\<lparr>wc_latency := wc_latency c @ [word_of_int (wc_now c - wm_sent_at m)]\<rparr> else c)
                 in c\<lparr>wc_callbacks := wc_callbacks c @ [(wm_callback m, True)]\<rparr>)"

text \<open>The loop over the decoded frames; a close frame ends it, and the whole handler.\<close>

fun ws_frames :: "(byte list \<Rightarrow> 64 word option) \<Rightarrow> nat \<Rightarrow> Frame list \<Rightarrow> WsStreamClient \<Rightarrow> bool \<times> WsStreamClient" where
  "ws_frames hexatoi i [] c = (False, c)"
| "ws_frames hexatoi i (f # fs) c =
     (case opcode f of
        Ping \<Rightarrow> ws_frames hexatoi i fs (if wst_state (ws_stream c i) = WOpen then ws_send i (f\<lparr>opcode := Pong\<rparr>) c else c)
      | Pong \<Rightarrow> ws_frames hexatoi i fs c
      | Close \<Rightarrow>
          let c = (if wst_state (ws_stream c i) = WOpen then ws_send i (closeFrame 1000) (ws_inc W_stream_early_close c) else c)
          in (True, ws_closeStream i c)
      | _ \<Rightarrow>
          let c = ws_upd i (\<lambda>s. s\<lparr>wst_fragments := wst_fragments s @ payload f\<rparr>) c;
              c = (if fin f then ws_upd i (\<lambda>s. s\<lparr>wst_fragments := []\<rparr>) (onMessage hexatoi i (wst_fragments (ws_stream c i)) c) else c)
          in ws_frames hexatoi i fs c)"

definition ws_onResponseEnd :: "nat \<Rightarrow> WsStreamClient \<Rightarrow> WsStreamClient" where
  "ws_onResponseEnd i c =
     ws_closeStream i (if wst_state (ws_stream c i) = WOpen then ws_inc W_stream_early_close c else c)"

definition ws_onResponseData ::
    "(byte list \<Rightarrow> 64 word option) \<Rightarrow> nat \<Rightarrow> byte list \<Rightarrow> bool \<Rightarrow> WsStreamClient \<Rightarrow> WsStreamClient" where
  "ws_onResponseData hexatoi i data end_stream c =
     (let (returned, c) =
        (if ws_is_open (ws_stream c i)
         then case feed (wst_received (ws_stream c i) @ data) [] of
                (good, rest, frames) \<Rightarrow>
                  let c = ws_upd i (\<lambda>s. s\<lparr>wst_received := rest\<rparr>) c
                  in if \<not> good then (True, ws_closeStream i (ws_inc W_stream_protocol_errors c))
                     else ws_frames hexatoi i frames c
         else (False, c))
      in if \<not> returned \<and> end_stream then ws_onResponseEnd i c else c)"

definition ws_onStreamReset :: "nat \<Rightarrow> WsStreamClient \<Rightarrow> WsStreamClient" where
  "ws_onStreamReset i c =
     (if wst_state (ws_stream c i) = WClosed then c
      else
        let c = ws_inc W_stream_resets c;
            c = (if wst_state (ws_stream c i) = WOpening
                 then (ws_inc W_stream_open_failures c)\<lparr>wc_pending_opens := wc_pending_opens c - 1\<rparr> else c)
        in ws_closeStream i c)"

definition ws_onWriteBlocked :: "nat \<Rightarrow> bool \<Rightarrow> WsStreamClient \<Rightarrow> WsStreamClient" where
  "ws_onWriteBlocked i blocked c =
     ws_upd i (\<lambda>s. s\<lparr>wst_write_blocked := blocked\<rparr>)
       (if blocked \<and> \<not> wst_write_blocked (ws_stream c i) then ws_inc W_stream_write_blocked c else c)"

definition ws_prepare_begin :: "byte list option \<Rightarrow> WsStreamClient \<Rightarrow> WsStreamClient result" where
  "ws_prepare_begin generated c =
     (case generated of
        None \<Rightarrow> Inl (Panic ''the request source did not yield a request'')
      | Some body \<Rightarrow> Inr (c\<lparr>wc_message := body\<rparr>))"

definition ws_prepare_open :: "ws_pool_answer \<Rightarrow> string \<Rightarrow> WsStreamClient \<Rightarrow> WsStreamClient" where
  "ws_prepare_open answer key c = (ws_openStream answer key (wc_prepared c) c)\<lparr>wc_prepared := wc_prepared c + 1\<rparr>"

definition ws_prepare_wait :: "WsStreamClient \<Rightarrow> WsStreamClient" where
  "ws_prepare_wait c =
     (if wc_pending_opens c = 0 then c
      else c\<lparr>wc_waiting_for := WWaitOpens, wc_exit := False, wc_wait_timer := Some (wc_now c + wc_open_timeout c)\<rparr>)"

text \<open>Upgrades still pending when the wait of \<open>prepare\<close> is over are given up.\<close>

fun ws_expire :: "nat list \<Rightarrow> WsStreamClient \<Rightarrow> WsStreamClient" where
  "ws_expire [] c = c"
| "ws_expire (i # is) c =
     ws_expire is
       (if wst_state (ws_stream c i) \<noteq> WOpening then c
        else
          let c = ws_inc W_stream_open_failures c;
              c = c\<lparr>wc_pending_opens := wc_pending_opens c - 1\<rparr>
          in ws_closeStream i (ws_upd i (\<lambda>s. s\<lparr>wst_cancellable := False\<rparr>) c))"

definition ws_prepare_end :: "WsStreamClient \<Rightarrow> WsStreamClient" where
  "ws_prepare_end c = ws_expire [0..<wc_stream_count c] (c\<lparr>wc_wait_timer := None, wc_waiting_for := WWaitNothing\<rparr>)"

definition close_handshake :: "WsConnection \<Rightarrow> WsConnection" where
  "close_handshake s =
     (if wst_state s = WOpen \<and> wst_encoder s
      then s\<lparr>wst_written := wst_written s @ [closeFrame 1000], wst_state := WClosing\<rparr> else s)"

definition ws_ceil_ms :: "nanos \<Rightarrow> nanos" where
  "ws_ceil_ms d = - (- d div one_millisecond) * one_millisecond"

definition ws_finish :: "WsStreamClient \<Rightarrow> WsStreamClient" where
  "ws_finish c =
     (if wc_finished c then c
      else
        let c = c\<lparr>wc_finished := True, wc_streams := map close_handshake (wc_streams c)\<rparr>
        in if ws_openStreams c = 0 then c
           else c\<lparr>wc_waiting_for := WWaitCloses, wc_exit := False,
                  wc_wait_timer := Some (wc_now c + ws_ceil_ms (wc_drain_duration c))\<rparr>)"

fun ws_drain :: "nat list \<Rightarrow> WsStreamClient \<Rightarrow> WsStreamClient" where
  "ws_drain [] c = c"
| "ws_drain (i # is) c =
     ws_drain is
       (if ws_is_open (ws_stream c i) then ws_completeInflight i False (ws_inc W_stream_drain_incomplete c) else c)"

definition ws_finish_rest :: "WsStreamClient \<Rightarrow> WsStreamClient" where
  "ws_finish_rest c = ws_drain [0..<wc_stream_count c] (c\<lparr>wc_wait_timer := None, wc_waiting_for := WWaitNothing\<rparr>)"

definition ws_terminate_stream :: "nat \<Rightarrow> WsStreamClient \<Rightarrow> WsStreamClient" where
  "ws_terminate_stream i c =
     (if wst_state (ws_stream c i) = WOpening \<and> \<not> wst_encoder (ws_stream c i) \<and> wst_cancellable (ws_stream c i)
      then (ws_upd i (\<lambda>s. s\<lparr>wst_cancellable := False, wst_state := WClosed\<rparr>) c)\<lparr>wc_pending_opens := wc_pending_opens c - 1\<rparr>
      else if wst_state (ws_stream c i) \<noteq> WClosed
      then
        let c = (if wst_state (ws_stream c i) = WOpening then c\<lparr>wc_pending_opens := wc_pending_opens c - 1\<rparr> else c)
        in ws_completeInflight i False (ws_upd i (\<lambda>s. s\<lparr>wst_state := WClosed, wst_encoder := False\<rparr>) c)
      else c)"

fun ws_terminate_streams :: "nat list \<Rightarrow> WsStreamClient \<Rightarrow> WsStreamClient" where
  "ws_terminate_streams [] c = c"
| "ws_terminate_streams (i # is) c = ws_terminate_streams is (ws_terminate_stream i c)"

definition ws_terminate_rest :: "WsStreamClient \<Rightarrow> WsStreamClient" where
  "ws_terminate_rest c = ws_terminate_streams [0..<wc_stream_count c] (c\<lparr>wc_measure_latencies := False\<rparr>)"

subsection \<open>The client on its dispatcher\<close>

text \<open>
  \<open>prepare\<close> runs once, before \<open>finish\<close>. The codec raises response events only for a stream it was handed; a
  reset or blocked event too.
\<close>

inductive ws_step ::
    "'z third_party_scheme \<Rightarrow> (string \<Rightarrow> byte list) \<Rightarrow> (byte list \<Rightarrow> string) \<Rightarrow> (byte list \<Rightarrow> 64 word option) \<Rightarrow>
       WsStreamClient \<Rightarrow> WsStreamClient \<Rightarrow> bool"
  for lib sha1 base64 hexatoi where
  ws_tick: "wc_now c \<le> t \<Longrightarrow> ws_step lib sha1 base64 hexatoi c (c\<lparr>wc_now := t\<rparr>)"
| ws_prepare_begin: "wc_prepared c = 0 \<Longrightarrow> ws_prepare_begin generated c = Inr c' \<Longrightarrow> ws_step lib sha1 base64 hexatoi c c'"
| ws_prepare_open: "wc_prepared c < wc_stream_count c \<Longrightarrow> \<not> wc_finished c \<Longrightarrow>
     ws_step lib sha1 base64 hexatoi c (ws_prepare_open answer key c)"
| ws_prepare_wait: "wc_prepared c = wc_stream_count c \<Longrightarrow> \<not> wc_finished c \<Longrightarrow>
     ws_step lib sha1 base64 hexatoi c (ws_prepare_wait c)"
| ws_prepare_end: "wc_waiting_for c = WWaitOpens \<Longrightarrow>
     wc_exit c \<or> (\<exists>due. wc_wait_timer c = Some due \<and> due \<le> wc_now c) \<Longrightarrow> ws_step lib sha1 base64 hexatoi c (ws_prepare_end c)"
| ws_request: "ws_step lib sha1 base64 hexatoi c (ws_tryStartRequest c)"
| ws_ready: "i < wc_stream_count c \<Longrightarrow> wst_cancellable (ws_stream c i) \<Longrightarrow>
     ws_step lib sha1 base64 hexatoi c (ws_onStreamReady i headers_ok c)"
| ws_open_failure: "i < wc_stream_count c \<Longrightarrow> wst_cancellable (ws_stream c i) \<Longrightarrow>
     ws_step lib sha1 base64 hexatoi c (ws_onStreamOpenFailure i c)"
| ws_headers: "i < wc_stream_count c \<Longrightarrow> wst_encoder (ws_stream c i) \<or> wst_state (ws_stream c i) \<noteq> WOpening \<Longrightarrow>
     ws_step lib sha1 base64 hexatoi c (ws_onResponseHeaders lib sha1 base64 i response end_stream c)"
| ws_data: "i < wc_stream_count c \<Longrightarrow> wst_encoder (ws_stream c i) \<or> wst_state (ws_stream c i) \<noteq> WOpening \<Longrightarrow>
     ws_step lib sha1 base64 hexatoi c (ws_onResponseData hexatoi i data end_stream c)"
| ws_trailers: "i < wc_stream_count c \<Longrightarrow> wst_encoder (ws_stream c i) \<or> wst_state (ws_stream c i) \<noteq> WOpening \<Longrightarrow>
     ws_step lib sha1 base64 hexatoi c (ws_onResponseEnd i c)"
| ws_reset: "i < wc_stream_count c \<Longrightarrow> wst_encoder (ws_stream c i) \<or> wst_state (ws_stream c i) \<noteq> WOpening \<Longrightarrow>
     ws_step lib sha1 base64 hexatoi c (ws_onStreamReset i c)"
| ws_blocked: "i < wc_stream_count c \<Longrightarrow> wst_encoder (ws_stream c i) \<or> wst_state (ws_stream c i) \<noteq> WOpening \<Longrightarrow>
     ws_step lib sha1 base64 hexatoi c (ws_onWriteBlocked i blocked c)"
| ws_posted: "wc_posted c = p # rest \<Longrightarrow>
     ws_step lib sha1 base64 hexatoi c (c\<lparr>wc_posted := rest, wc_callbacks := wc_callbacks c @ [p]\<rparr>)"
| ws_measure: "ws_step lib sha1 base64 hexatoi c (c\<lparr>wc_measure_latencies := b\<rparr>)"
| ws_finish: "wc_waiting_for c = WWaitNothing \<Longrightarrow> ws_step lib sha1 base64 hexatoi c (ws_finish c)"
| ws_drained: "wc_waiting_for c = WWaitCloses \<Longrightarrow>
     wc_exit c \<or> (\<exists>due. wc_wait_timer c = Some due \<and> due \<le> wc_now c) \<Longrightarrow> ws_step lib sha1 base64 hexatoi c (ws_finish_rest c)"
| ws_terminate: "wc_finished c \<Longrightarrow> wc_waiting_for c = WWaitNothing \<Longrightarrow>
     ws_step lib sha1 base64 hexatoi c (ws_terminate_rest c)"

end
