(* ===== verification/WsAccount.thy ===== *)
theory WsAccount
  imports WsStream
begin

text \<open>
  The WebSocket streaming client keeps the ledger of \<open>MessageLedger\<close>, and every message it holds in flight on a
  connection was written there as one frame.
\<close>

subsection \<open>The operations as record updates\<close>

lemma ws_exit_eq:
  "ws_maybeExitWaitLoop c = c\<lparr>wc_exit := wc_exit c \<or> wc_waiting_for c = WWaitOpens \<and> wc_pending_opens c = 0 \<or>
     wc_waiting_for c = WWaitCloses \<and> ws_openStreams c = 0\<rparr>"
  by (simp add: ws_maybeExitWaitLoop_def split: WsWaitingFor.split)

lemma ws_complete_eq:
  "ws_complete False ms c = c\<lparr>wc_callbacks := wc_callbacks c @ map (\<lambda>m. (wm_callback m, False)) ms,
     wc_counters := (wc_counters c)(W_stream_inflight_lost := wc_counters c W_stream_inflight_lost + length ms)\<rparr>"
  by (induction "False" ms c rule: ws_complete.induct) (simp_all add: Let_def ws_inc_def)

lemma ws_completeInflight_eq:
  "ws_completeInflight i False c = c\<lparr>wc_streams := (wc_streams c)[i := (ws_stream c i)\<lparr>wst_inflight := []\<rparr>],
     wc_callbacks := wc_callbacks c @ map (\<lambda>m. (wm_callback m, False)) (wst_inflight (ws_stream c i)),
     wc_counters := (wc_counters c)(W_stream_inflight_lost :=
       wc_counters c W_stream_inflight_lost + length (wst_inflight (ws_stream c i)))\<rparr>"
  by (simp add: ws_completeInflight_def ws_complete_eq ws_upd_def)

lemmas ws_eqs = ws_exit_eq ws_completeInflight_eq ws_inc_def ws_upd_def ws_send_def Let_def

subsection \<open>Well-formed connections\<close>

definition conn_ok :: "WsStreamClient \<Rightarrow> nat \<Rightarrow> WsConnection \<Rightarrow> bool" where
  "conn_ok c i s \<longleftrightarrow>
     (wc_prepared c \<le> i \<longrightarrow> \<not> wst_encoder s \<and> \<not> wst_cancellable s) \<and>
     (wst_encoder s \<longrightarrow> \<not> wst_cancellable s) \<and>
     (ws_is_open s \<longrightarrow> wst_encoder s) \<and>
     (\<not> ws_is_open s \<longrightarrow> wst_inflight s = []) \<and>
     subseq (map (\<lambda>m. message_frame c (wm_sequence m)) (wst_inflight s)) (wst_written s)"

definition ws_ok :: "WsStreamClient \<Rightarrow> bool" where
  "ws_ok c \<longleftrightarrow> length (wc_streams c) = wc_stream_count c \<and> wc_next_stream c < wc_stream_count c \<and>
     (\<forall>i < wc_stream_count c. conn_ok c i (ws_stream c i))"

definition ws_scal :: "WsStreamClient \<Rightarrow> nat \<times> nat \<times> byte list \<times> bool" where
  "ws_scal c = (wc_stream_count c, wc_prepared c, wc_message c, wc_binary c)"

lemma conn_ok_scal: "ws_scal c' = ws_scal c \<Longrightarrow> conn_ok c' i s = conn_ok c i s"
  by (simp add: conn_ok_def ws_scal_def message_frame_def)

lemma ws_okD:
  assumes "ws_ok c"
  shows "length (wc_streams c) = wc_stream_count c" "wc_next_stream c < wc_stream_count c"
    "i < wc_stream_count c \<Longrightarrow> conn_ok c i (ws_stream c i)"
  using assms by (simp_all add: ws_ok_def)

lemma ws_ok_update:
  assumes "ws_ok c" "i < wc_stream_count c" "ws_scal c' = ws_scal c" "wc_next_stream c' < wc_stream_count c"
    "wc_streams c' = (wc_streams c)[i := s]" "conn_ok c i s"
  shows "ws_ok c'"
proof -
  have "conn_ok c' j (ws_stream c' j)" if "j < wc_stream_count c" for j
    using that assms(1,2,5,6) by (cases "j = i") (simp_all add: conn_ok_scal [OF assms(3)] ws_ok_def)
  then show ?thesis using assms(1,3-5) by (simp add: ws_ok_def ws_scal_def)
qed

lemma ws_ok_same:
  assumes "ws_ok c" "ws_scal c' = ws_scal c" "wc_next_stream c' < wc_stream_count c" "wc_streams c' = wc_streams c"
  shows "ws_ok c'"
  using assms(1,3,4) conn_ok_scal [OF assms(2)] assms(2) by (simp add: ws_ok_def ws_scal_def)

lemma ws_ok_inc: "ws_ok c \<Longrightarrow> ws_ok (ws_inc k c)"
  by (rule ws_ok_same [of c]) (simp_all add: ws_inc_def ws_scal_def ws_okD)

lemma ws_ok_fields:
  "ws_ok c \<Longrightarrow> ws_ok (c\<lparr>wc_pending_opens := p\<rparr>)" "ws_ok c \<Longrightarrow> ws_ok (c\<lparr>wc_wait_timer := t\<rparr>)"
  "ws_ok c \<Longrightarrow> ws_ok (c\<lparr>wc_waiting_for := w\<rparr>)" "ws_ok c \<Longrightarrow> ws_ok (ws_maybeExitWaitLoop c)" "ws_ok c \<Longrightarrow> ws_ok (c\<lparr>wc_exit := b\<rparr>)"
  "ws_ok c \<Longrightarrow> ws_ok (c\<lparr>wc_now := n\<rparr>)" "ws_ok c \<Longrightarrow> ws_ok (c\<lparr>wc_measure_latencies := b\<rparr>)" "ws_ok c \<Longrightarrow> ws_ok (c\<lparr>wc_finished := b\<rparr>)"
  "ws_ok c \<Longrightarrow> ws_ok (c\<lparr>wc_posted := ps\<rparr>)" "ws_ok c \<Longrightarrow> ws_ok (c\<lparr>wc_callbacks := ps\<rparr>)" "ws_ok c \<Longrightarrow> ws_ok (c\<lparr>wc_latency := ls\<rparr>)"
  by (rule ws_ok_same [of c]; simp add: ws_scal_def ws_okD ws_exit_eq)+

lemma ws_fields [simp]:
  "wc_streams (ws_inc k c) = wc_streams c" "wc_stream_count (ws_inc k c) = wc_stream_count c" "wc_prepared (ws_inc k c) = wc_prepared c"
  "wc_streams (ws_upd i f c) = (wc_streams c)[i := f (ws_stream c i)]" "wc_stream_count (ws_upd i f c) = wc_stream_count c"
  "wc_prepared (ws_upd i f c) = wc_prepared c"
  "wc_streams (ws_maybeExitWaitLoop c) = wc_streams c" "wc_stream_count (ws_maybeExitWaitLoop c) = wc_stream_count c"
  by (simp_all add: ws_inc_def ws_upd_def ws_exit_eq)

lemma ws_ok_upd: "ws_ok c \<Longrightarrow> i < wc_stream_count c \<Longrightarrow> conn_ok c i (f (ws_stream c i)) \<Longrightarrow> ws_ok (ws_upd i f c)"
  by (rule ws_ok_update [of c i _ "f (ws_stream c i)"]) (simp_all add: ws_upd_def ws_scal_def ws_okD)

lemma ok_ws_close:
  assumes "ws_ok c" "i < wc_stream_count c"
  shows "ws_ok (ws_closeStream i c)"
proof (cases "wst_state (ws_stream c i) = WClosed")
  case False
  show ?thesis
    by (rule ws_ok_update [OF assms(1,2), of _ "(ws_stream c i)\<lparr>wst_state := WClosed, wst_encoder := False, wst_inflight := []\<rparr>"])
      (use False assms ws_okD [OF assms(1)] in \<open>auto simp: ws_closeStream_def ws_eqs ws_scal_def conn_ok_def ws_is_open_def\<close>)
qed (simp add: ws_closeStream_def assms(1))

text \<open>A connection the codec knows of is one \<open>prepare\<close> has reached.\<close>

lemma conn_prepared:
  "conn_ok c i s \<Longrightarrow> wst_encoder s \<or> wst_cancellable s \<Longrightarrow> i < wc_prepared c"
  by (auto simp: conn_ok_def not_le [symmetric])

lemma close_fields [simp]:
  "length (wc_streams (ws_closeStream i c)) = length (wc_streams c)" "wc_stream_count (ws_closeStream i c) = wc_stream_count c"
  "wc_prepared (ws_closeStream i c) = wc_prepared c"
  by (simp_all add: ws_closeStream_def ws_eqs)

subsection \<open>The client's ledger\<close>

definition ws_inflight_requests :: "WsConnection \<Rightarrow> nat list" where
  "ws_inflight_requests s = map wm_callback (wst_inflight s)"

definition ws_ledger :: "WsStreamClient \<Rightarrow> ledger" where
  "ws_ledger c =
     \<lparr>lg_started = wc_started c, lg_completed = mset (wc_callbacks c), lg_posted = mset (wc_posted c),
      lg_inflight = mset (concat (map ws_inflight_requests (wc_streams c))),
      lg_sent = wc_counters c W_stream_messages_sent,
      lg_dropped = wc_counters c W_stream_deferred + wc_counters c W_stream_unavailable,
      lg_received = wc_counters c W_stream_messages_received, lg_lost = wc_counters c W_stream_inflight_lost\<rparr>"

text \<open>One handler or a part of it: the connections stay well-formed and the ledger follows its specification.\<close>

definition ws_sim :: "WsStreamClient \<Rightarrow> WsStreamClient \<Rightarrow> bool" where
  "ws_sim c c' \<longleftrightarrow> (ws_ok c \<longrightarrow> ws_ok c' \<and> ledger_step\<^sup>*\<^sup>* (ws_ledger c) (ws_ledger c') \<and> ws_scal c' = ws_scal c)"

lemma ws_sim_refl [simp]: "ws_sim c c"
  by (simp add: ws_sim_def)

lemma ws_sim_trans: "ws_sim c c1 \<Longrightarrow> (ws_scal c1 = ws_scal c \<Longrightarrow> ws_sim c1 c2) \<Longrightarrow> ws_sim c c2"
  by (auto simp: ws_sim_def)

lemma ws_ledger_fields [simp]:
  "ws_ledger (c\<lparr>wc_pending_opens := p\<rparr>) = ws_ledger c" "ws_ledger (c\<lparr>wc_prepared := n\<rparr>) = ws_ledger c"
  "ws_ledger (c\<lparr>wc_now := t\<rparr>) = ws_ledger c" "ws_ledger (c\<lparr>wc_message := body\<rparr>) = ws_ledger c"
  "ws_ledger (c\<lparr>wc_measure_latencies := b\<rparr>) = ws_ledger c" "ws_ledger (c\<lparr>wc_wait_timer := t'\<rparr>) = ws_ledger c"
  "ws_ledger (c\<lparr>wc_waiting_for := w\<rparr>) = ws_ledger c" "ws_ledger (c\<lparr>wc_exit := b\<rparr>) = ws_ledger c"
  "ws_ledger (c\<lparr>wc_finished := b\<rparr>) = ws_ledger c" "ws_ledger (ws_maybeExitWaitLoop c) = ws_ledger c"
  by (simp_all add: ws_ledger_def ws_exit_eq)

lemma ws_scal_fields [simp]:
  "ws_scal (c\<lparr>wc_pending_opens := p\<rparr>) = ws_scal c" "ws_scal (ws_maybeExitWaitLoop c) = ws_scal c" "ws_scal (ws_inc k c) = ws_scal c"
  "ws_scal (ws_upd i f c) = ws_scal c" "ws_scal (c\<lparr>wc_now := t\<rparr>) = ws_scal c" "ws_scal (c\<lparr>wc_measure_latencies := b\<rparr>) = ws_scal c"
  "ws_scal (c\<lparr>wc_waiting_for := w\<rparr>) = ws_scal c" "ws_scal (c\<lparr>wc_exit := b\<rparr>) = ws_scal c" "ws_scal (c\<lparr>wc_wait_timer := t'\<rparr>) = ws_scal c"
  by (simp_all add: ws_scal_def ws_inc_def ws_upd_def ws_exit_eq)

lemma ws_sim_fields [simp]:
  "ws_sim c (c\<lparr>wc_pending_opens := p\<rparr>)" "ws_sim c (ws_maybeExitWaitLoop c)" "ws_sim c (c\<lparr>wc_now := t\<rparr>)"
  "ws_sim c (c\<lparr>wc_measure_latencies := b\<rparr>)" "ws_sim c (c\<lparr>wc_waiting_for := w\<rparr>)" "ws_sim c (c\<lparr>wc_exit := b\<rparr>)"
  "ws_sim c (c\<lparr>wc_wait_timer := t'\<rparr>)"
  by (simp_all add: ws_sim_def ws_ok_fields)

lemma ws_sim_inc [simp]:
  "k \<notin> {W_stream_messages_sent, W_stream_deferred, W_stream_unavailable, W_stream_messages_received, W_stream_inflight_lost} \<Longrightarrow>
    ws_sim c (ws_inc k c)"
proof -
  assume k: "k \<notin> {W_stream_messages_sent, W_stream_deferred, W_stream_unavailable, W_stream_messages_received, W_stream_inflight_lost}"
  then have "ws_ledger (ws_inc k c) = ws_ledger c" by (auto simp: ws_ledger_def ws_inc_def)
  then show ?thesis by (simp add: ws_sim_def ws_ok_inc)
qed

lemma map_ws_inflight:
  "wst_inflight s = wst_inflight (ws_stream c i) \<Longrightarrow>
    map ws_inflight_requests ((wc_streams c)[i := s]) = map ws_inflight_requests (wc_streams c)"
  by (cases "i < length (wc_streams c)")
    (simp_all add: map_update ws_inflight_requests_def list_update_beyond list_update_same_conv)

lemma ws_ledger_upd: "(\<And>s. wst_inflight (f s) = wst_inflight s) \<Longrightarrow> ws_ledger (ws_upd i f c) = ws_ledger c"
  by (simp add: ws_ledger_def ws_upd_def map_ws_inflight del: mset_concat)

lemma ws_sim_upd:
  "i < wc_stream_count c \<Longrightarrow> (\<And>s. wst_inflight (f s) = wst_inflight s) \<Longrightarrow>
    (conn_ok c i (ws_stream c i) \<Longrightarrow> conn_ok c i (f (ws_stream c i))) \<Longrightarrow> ws_sim c (ws_upd i f c)"
  by (simp add: ws_sim_def ws_ledger_upd ws_ok_upd ws_okD)

lemma ws_lose:
  assumes "i < length (wc_streams c)"
  shows "ledger_step\<^sup>*\<^sup>* (ws_ledger c) (ws_ledger (ws_completeInflight i False c))"
proof -
  note upd = mset_concat_update [OF assms, of ws_inflight_requests "(ws_stream c i)\<lparr>wst_inflight := []\<rparr>"]
  note sub = mset_concat_nth [OF assms, of ws_inflight_requests]
  have "mset (concat (map ws_inflight_requests ((wc_streams c)[i := (ws_stream c i)\<lparr>wst_inflight := []\<rparr>]))) =
      mset (concat (map ws_inflight_requests (wc_streams c))) - mset (ws_inflight_requests (ws_stream c i))"
    using upd by (metis add_diff_cancel_right' add.right_neutral list.simps(8) mset.simps(1) ws_inflight_requests_def
        WsConnection.simps(4) WsConnection.update_convs(4) WsConnection.surjective)
  then have "ws_ledger (ws_completeInflight i False c) = lg_lose_all (ws_inflight_requests (ws_stream c i)) (ws_ledger c)"
    by (simp add: ws_ledger_def lg_lose_all_def ws_completeInflight_eq ws_inflight_requests_def comp_def)
  moreover have "mset (ws_inflight_requests (ws_stream c i)) \<subseteq># lg_inflight (ws_ledger c)"
    using sub by (simp add: ws_ledger_def)
  ultimately show ?thesis using lose_all_steps by metis
qed

lemma ws_sim_close:
  assumes "i < wc_stream_count c"
  shows "ws_sim c (ws_closeStream i c)"
proof -
  let ?d = "ws_upd i (\<lambda>s. s\<lparr>wst_state := WClosed, wst_encoder := False\<rparr>) c"
  have "ledger_step\<^sup>*\<^sup>* (ws_ledger c) (ws_ledger (ws_closeStream i c))" if "ws_ok c"
    using ws_lose [of i ?d] ws_okD(1) [OF that] assms(1) by (simp add: ws_closeStream_def ws_ledger_upd)
  moreover have "ws_scal (ws_closeStream i c) = ws_scal c" by (simp add: ws_closeStream_def ws_eqs ws_scal_def)
  ultimately show ?thesis using ok_ws_close assms by (simp add: ws_sim_def)
qed

lemma ws_answer:
  assumes "i < length (wc_streams c)" "wst_inflight (ws_stream c i) = xs @ m # ys"
  shows "ledger_step (ws_ledger c) (ws_ledger ((ws_inc W_stream_messages_received (ws_upd i (\<lambda>s. s\<lparr>wst_inflight := xs @ ys\<rparr>) c))
     \<lparr>wc_latency := latency, wc_callbacks := wc_callbacks c @ [(wm_callback m, True)]\<rparr>))"
proof -
  have eq: "mset (concat (map ws_inflight_requests ((wc_streams c)[i := (ws_stream c i)\<lparr>wst_inflight := xs @ ys\<rparr>]))) + {#wm_callback m#} =
      mset (concat (map ws_inflight_requests (wc_streams c)))"
    using mset_concat_update [OF assms(1), of ws_inflight_requests "(ws_stream c i)\<lparr>wst_inflight := xs @ ys\<rparr>"] assms(2)
    by (simp add: ws_inflight_requests_def)
  then have "wm_callback m \<in># mset (concat (map ws_inflight_requests (wc_streams c)))"
    by (metis add_mset_add_single union_single_eq_member)
  then have r: "wm_callback m \<in># lg_inflight (ws_ledger c)" by (simp only: ws_ledger_def ledger.select_convs)
  have "ws_ledger ((ws_inc W_stream_messages_received (ws_upd i (\<lambda>s. s\<lparr>wst_inflight := xs @ ys\<rparr>) c))
     \<lparr>wc_latency := latency, wc_callbacks := wc_callbacks c @ [(wm_callback m, True)]\<rparr>) = lg_answer (wm_callback m) (ws_ledger c)"
    using eq by (simp add: ws_inc_def ws_upd_def ws_ledger_def lg_answer_def del: mset_concat) (metis add_mset_remove_trivial)
  then show ?thesis using ledger_answer [OF r] by simp
qed

lemma ws_sim_message:
  assumes "i < wc_stream_count c"
  shows "ws_sim c (onMessage hexatoi i bytes c)"
proof -
  let ?seq = "if length bytes < kSequencePrefixLength then None else hexatoi (take kSequencePrefixLength bytes)"
  show ?thesis
  proof (cases ?seq)
    case None
    then show ?thesis unfolding onMessage_def None by simp
  next
    case (Some sequence)
    let ?q = "wst_inflight (ws_stream c i)" and ?P = "\<lambda>m. wm_sequence m \<noteq> sequence"
    show ?thesis
    proof (cases "dropWhile ?P ?q")
      case Nil
      have "onMessage hexatoi i bytes c = ws_inc W_stream_unexpected_message c"
        unfolding onMessage_def Some option.case Let_def Nil list.case ..
      then show ?thesis by simp
    next
      case (Cons m ms)
      then have q: "?q = takeWhile ?P ?q @ m # ms" by (metis takeWhile_dropWhile_id)
      define latency where "latency = (if wc_measure_latencies c then wc_latency c @ [word_of_int (wc_now c - wm_sent_at m)] else wc_latency c)"
      define d where "d = (ws_inc W_stream_messages_received (ws_upd i (\<lambda>s. s\<lparr>wst_inflight := takeWhile ?P ?q @ ms\<rparr>) c))
        \<lparr>wc_latency := latency, wc_callbacks := wc_callbacks c @ [(wm_callback m, True)]\<rparr>"
      have d: "onMessage hexatoi i bytes c = d"
        unfolding onMessage_def Some d_def latency_def using Cons by (simp add: Let_def ws_inc_def ws_upd_def)
      have "conn_ok c i ((ws_stream c i)\<lparr>wst_inflight := takeWhile ?P ?q @ ms\<rparr>)" if ok: "ws_ok c"
      proof -
        let ?f = "\<lambda>m. message_frame c (wm_sequence m)"
        have "subseq (takeWhile ?P ?q @ ms) ?q"
          by (subst (2) q) (rule list_emb_append_mono, auto intro: list_emb_Cons)
        then have "subseq (map ?f (takeWhile ?P ?q @ ms)) (map ?f ?q)" by (rule subseq_map)
        then show ?thesis using ws_okD(3) [OF ok assms] q
          by (auto simp: conn_ok_def ws_is_open_def intro: subseq_order.trans)
      qed
      then have "ws_ok d" if "ws_ok c"
        using ws_ok_update [OF that assms, of d "(ws_stream c i)\<lparr>wst_inflight := takeWhile ?P ?q @ ms\<rparr>"] that ws_okD(2) [OF that]
        by (simp add: d_def ws_scal_def ws_inc_def ws_upd_def)
      moreover have "ws_scal d = ws_scal c" by (simp add: d_def ws_scal_def ws_inc_def ws_upd_def)
      ultimately show ?thesis
        unfolding d using ws_answer [of i c _ m ms latency, OF _ q] assms ws_okD(1) by (auto simp: ws_sim_def d_def)
    qed
  qed
qed

lemma ws_scal_counts: "ws_scal c' = ws_scal c \<Longrightarrow> wc_stream_count c' = wc_stream_count c \<and> wc_prepared c' = wc_prepared c"
  by (simp add: ws_scal_def)

lemma ws_sim_send: "i < wc_stream_count c \<Longrightarrow> ws_sim c (ws_send i f c)"
  unfolding ws_send_def by (rule ws_sim_upd) (auto simp: conn_ok_def ws_is_open_def intro: list_emb_prefix)

lemma ws_sim_received: "i < wc_stream_count c \<Longrightarrow> ws_sim c (ws_upd i (\<lambda>s. s\<lparr>wst_received := r\<rparr>) c)"
  and ws_sim_fragments: "i < wc_stream_count c \<Longrightarrow> ws_sim c (ws_upd i (\<lambda>s. s\<lparr>wst_fragments := g s\<rparr>) c)"
  and ws_sim_blocked: "i < wc_stream_count c \<Longrightarrow> ws_sim c (ws_upd i (\<lambda>s. s\<lparr>wst_write_blocked := b\<rparr>) c)"
  by (rule ws_sim_upd; simp add: conn_ok_def ws_is_open_def)+

lemma ws_sim_step:
  assumes "ws_sim c d" "i < wc_stream_count c"
    and "\<And>d. i < wc_stream_count d \<Longrightarrow> ws_sim d (g d)"
  shows "ws_sim c (g d)"
proof (rule ws_sim_trans [OF assms(1)])
  assume "ws_scal d = ws_scal c"
  then show "ws_sim d (g d)" using ws_scal_counts assms(2,3) by metis
qed

definition ws_reassembled :: "(byte list \<Rightarrow> 64 word option) \<Rightarrow> nat \<Rightarrow> Frame \<Rightarrow> WsStreamClient \<Rightarrow> WsStreamClient" where
  "ws_reassembled hexatoi i f c =
     (let c = ws_upd i (\<lambda>s. s\<lparr>wst_fragments := wst_fragments s @ payload f\<rparr>) c
      in if fin f then ws_upd i (\<lambda>s. s\<lparr>wst_fragments := []\<rparr>) (onMessage hexatoi i (wst_fragments (ws_stream c i)) c) else c)"

lemma ws_sim_reassembled:
  assumes "i < wc_stream_count c"
  shows "ws_sim c (ws_reassembled hexatoi i f c)"
proof -
  let ?d = "ws_upd i (\<lambda>s. s\<lparr>wst_fragments := wst_fragments s @ payload f\<rparr>) c"
  have d: "ws_sim c ?d" by (rule ws_sim_fragments [OF assms(1)])
  have "ws_sim c (onMessage hexatoi i (wst_fragments (ws_stream ?d i)) ?d)"
    by (rule ws_sim_trans [OF d]) (use assms in \<open>simp add: ws_sim_message\<close>)
  then have "ws_sim c (ws_upd i (\<lambda>s. s\<lparr>wst_fragments := []\<rparr>) (onMessage hexatoi i (wst_fragments (ws_stream ?d i)) ?d))"
    using assms by (rule ws_sim_step) (rule ws_sim_fragments)
  then show ?thesis using d unfolding ws_reassembled_def Let_def by (simp only: split: if_split) simp
qed

lemma ws_frames_Cons:
  "ws_frames hexatoi i (f # fs) c =
     (case opcode f of
        Ping \<Rightarrow> ws_frames hexatoi i fs (if wst_state (ws_stream c i) = WOpen then ws_send i (f\<lparr>opcode := Pong\<rparr>) c else c)
      | Pong \<Rightarrow> ws_frames hexatoi i fs c
      | Close \<Rightarrow> (True, ws_closeStream i (if wst_state (ws_stream c i) = WOpen
          then ws_send i (closeFrame 1000) (ws_inc W_stream_early_close c) else c))
      | _ \<Rightarrow> ws_frames hexatoi i fs (ws_reassembled hexatoi i f c))"
  by (simp add: ws_reassembled_def Let_def split: Opcode.split)

declare ws_frames.simps(2) [simp del]

lemma ws_sim_frames:
  "i < wc_stream_count c \<Longrightarrow> ws_sim c (snd (ws_frames hexatoi i fs c))"
proof (induction fs arbitrary: c)
  case (Cons f fs)
  note after = ws_sim_step [OF _ Cons.prems, of _ "\<lambda>d. snd (ws_frames hexatoi i fs d)", OF _ Cons.IH]
  show ?case
  proof (cases "opcode f")
    case Ping
    let ?c = "if wst_state (ws_stream c i) = WOpen then ws_send i (f\<lparr>opcode := Pong\<rparr>) c else c"
    have "ws_sim c ?c" using ws_sim_send [OF Cons.prems] by simp
    then show ?thesis using after [of ?c] Ping by (simp add: ws_frames_Cons)
  next
    case Close
    let ?d = "ws_inc W_stream_early_close c"
    let ?c = "if wst_state (ws_stream c i) = WOpen then ws_send i (closeFrame 1000) ?d else c"
    have "ws_sim c ?d" by simp
    then have "ws_sim c (ws_send i (closeFrame 1000) ?d)" using Cons.prems by (rule ws_sim_step) (rule ws_sim_send)
    then have "ws_sim c ?c" by simp
    then have "ws_sim c (ws_closeStream i ?c)" using Cons.prems by (rule ws_sim_step) (rule ws_sim_close)
    then show ?thesis using Close by (simp only: ws_frames_Cons Opcode.case snd_conv)
  qed (use after [OF ws_sim_reassembled [OF Cons.prems]] Cons in \<open>simp_all add: ws_frames_Cons\<close>)
qed simp

lemma ws_sim_end:
  assumes "i < wc_stream_count c"
  shows "ws_sim c (ws_onResponseEnd i c)"
proof -
  let ?c = "if wst_state (ws_stream c i) = WOpen then ws_inc W_stream_early_close c else c"
  have "ws_sim c ?c" by simp
  then show ?thesis unfolding ws_onResponseEnd_def using assms by (rule ws_sim_step) (rule ws_sim_close)
qed

lemma ws_sim_data:
  assumes "i < wc_stream_count c"
  shows "ws_sim c (ws_onResponseData hexatoi i data end_stream c)"
proof -
  obtain good rest frames where f: "feed (wst_received (ws_stream c i) @ data) [] = (good, rest, frames)"
    by (metis prod_cases3)
  define d where "d = ws_upd i (\<lambda>s. s\<lparr>wst_received := rest\<rparr>) c"
  define r where "r = (if ws_is_open (ws_stream c i)
    then if \<not> good then (True, ws_closeStream i (ws_inc W_stream_protocol_errors d)) else ws_frames hexatoi i frames d
    else (False, c))"
  have d: "ws_sim c d" unfolding d_def using assms(1) by (rule ws_sim_received)
  then have "ws_sim c (ws_inc W_stream_protocol_errors d)" using assms by (rule ws_sim_step) simp
  then have "ws_sim c (ws_closeStream i (ws_inc W_stream_protocol_errors d))" using assms by (rule ws_sim_step) (rule ws_sim_close)
  moreover have "ws_sim c (snd (ws_frames hexatoi i frames d))" using d assms by (rule ws_sim_step) (rule ws_sim_frames)
  ultimately have r: "ws_sim c (snd r)" by (simp add: r_def)
  then have "ws_sim c (ws_onResponseEnd i (snd r))" using assms by (rule ws_sim_step) (rule ws_sim_end)
  moreover have "ws_onResponseData hexatoi i data end_stream c =
      (if \<not> fst r \<and> end_stream then ws_onResponseEnd i (snd r) else snd r)"
    by (simp add: ws_onResponseData_def f r_def d_def case_prod_beta Let_def)
  ultimately show ?thesis using r by simp
qed

lemma ws_sim_headers:
  assumes "i < wc_stream_count c" "wst_encoder (ws_stream c i) \<or> wst_state (ws_stream c i) \<noteq> WOpening"
  shows "ws_sim c (ws_onResponseHeaders lib sha1 base64 i r end_stream c)"
proof (cases "wst_state (ws_stream c i) = WOpening")
  case True
  define d where "d = c\<lparr>wc_pending_opens := wc_pending_opens c - 1\<rparr>"
  have d: "ws_sim c d" by (simp add: d_def)
  then have "ws_sim c (ws_inc W_stream_upgrade_rejected d)" using assms(1) by (rule ws_sim_step) simp
  then have rejected: "ws_sim c (ws_closeStream i (ws_inc W_stream_upgrade_rejected d))"
    using assms(1) by (rule ws_sim_step) (rule ws_sim_close)
  have "ws_sim d (ws_upd i (\<lambda>s. s\<lparr>wst_state := WOpen\<rparr>) d)"
    by (rule ws_sim_upd) (use assms True in \<open>auto simp: d_def conn_ok_def ws_is_open_def message_frame_def\<close>)
  then have "ws_sim c (ws_upd i (\<lambda>s. s\<lparr>wst_state := WOpen\<rparr>) d)" by (rule ws_sim_trans [OF d])
  then have "ws_sim c (ws_inc W_streams_opened (ws_upd i (\<lambda>s. s\<lparr>wst_state := WOpen\<rparr>) d))"
    using assms(1) by (rule ws_sim_step) simp
  then have "ws_sim c (ws_maybeExitWaitLoop (ws_inc W_streams_opened (ws_upd i (\<lambda>s. s\<lparr>wst_state := WOpen\<rparr>) d)))"
    using assms(1) by (rule ws_sim_step) simp
  then show ?thesis using rejected True by (simp add: ws_onResponseHeaders_def Let_def d_def)
qed (simp add: ws_onResponseHeaders_def)

lemma ws_sim_reset:
  assumes "i < wc_stream_count c"
  shows "ws_sim c (ws_onStreamReset i c)"
proof -
  define d where "d = ws_inc W_stream_resets c"
  define e where "e = (if wst_state (ws_stream d i) = WOpening
    then (ws_inc W_stream_open_failures d)\<lparr>wc_pending_opens := wc_pending_opens d - 1\<rparr> else d)"
  have d: "ws_sim c d" by (simp add: d_def)
  then have "ws_sim c (ws_inc W_stream_open_failures d)" using assms by (rule ws_sim_step) simp
  then have "ws_sim c ((ws_inc W_stream_open_failures d)\<lparr>wc_pending_opens := wc_pending_opens d - 1\<rparr>)"
    by (rule ws_sim_trans) simp
  then have "ws_sim c e" using d by (simp add: e_def)
  then have "ws_sim c (ws_closeStream i e)" using assms by (rule ws_sim_step) (rule ws_sim_close)
  moreover have "ws_onStreamReset i c = (if wst_state (ws_stream c i) = WClosed then c else ws_closeStream i e)"
    unfolding ws_onStreamReset_def Let_def d_def e_def ..
  ultimately show ?thesis by simp
qed

lemma ws_sim_ready:
  assumes "i < wc_stream_count c" "i < wc_prepared c" "\<not> ws_is_open (ws_stream c i)"
  shows "ws_sim c (ws_onStreamReady i headers_ok c)" "ws_sim c (ws_onStreamOpenFailure i c)"
proof -
  define d where "d = ws_upd i (\<lambda>s. s\<lparr>wst_cancellable := False, wst_encoder := True\<rparr>) c"
  define e where "e = ws_inc W_stream_open_failures d"
  have d: "ws_sim c d" unfolding d_def
    by (rule ws_sim_upd) (use assms in \<open>auto simp: conn_ok_def ws_is_open_def\<close>)
  then have "ws_sim c e" unfolding e_def using assms(1) by (rule ws_sim_step) simp
  then have "ws_sim c (e\<lparr>wc_pending_opens := wc_pending_opens e - 1\<rparr>)" by (rule ws_sim_trans) simp
  then have "ws_sim c (ws_closeStream i (e\<lparr>wc_pending_opens := wc_pending_opens e - 1\<rparr>))"
    using assms(1) by (rule ws_sim_step) (rule ws_sim_close)
  then show "ws_sim c (ws_onStreamReady i headers_ok c)" using d by (simp add: ws_onStreamReady_def Let_def d_def e_def)
  define f where "f = ws_upd i (\<lambda>s. s\<lparr>wst_cancellable := False, wst_state := WClosed\<rparr>) c"
  define g where "g = ws_inc W_stream_open_failures f"
  have f: "ws_sim c f" unfolding f_def
    by (rule ws_sim_upd) (use assms in \<open>auto simp: conn_ok_def ws_is_open_def\<close>)
  then have "ws_sim c g" unfolding g_def using assms(1) by (rule ws_sim_step) simp
  then have "ws_sim c (g\<lparr>wc_pending_opens := wc_pending_opens g - 1\<rparr>)" by (rule ws_sim_trans) simp
  then have "ws_sim c (ws_maybeExitWaitLoop (g\<lparr>wc_pending_opens := wc_pending_opens g - 1\<rparr>))"
    using assms(1) by (rule ws_sim_step) simp
  then show "ws_sim c (ws_onStreamOpenFailure i c)" by (simp add: ws_onStreamOpenFailure_def Let_def f_def g_def)
qed

text \<open>No operation reads how far \<open>prepare\<close> has come.\<close>

lemma prepared_commutes:
  "(ws_inc k c)\<lparr>wc_prepared := n\<rparr> = ws_inc k (c\<lparr>wc_prepared := n\<rparr>)"
  "(ws_upd i f c)\<lparr>wc_prepared := n\<rparr> = ws_upd i f (c\<lparr>wc_prepared := n\<rparr>)"
  "(c\<lparr>wc_pending_opens := p\<rparr>)\<lparr>wc_prepared := n\<rparr> = (c\<lparr>wc_prepared := n\<rparr>)\<lparr>wc_pending_opens := p\<rparr>"
  "(ws_maybeExitWaitLoop c)\<lparr>wc_prepared := n\<rparr> = ws_maybeExitWaitLoop (c\<lparr>wc_prepared := n\<rparr>)"
  "(ws_completeInflight i False c)\<lparr>wc_prepared := n\<rparr> = ws_completeInflight i False (c\<lparr>wc_prepared := n\<rparr>)"
  by (simp_all add: ws_inc_def ws_upd_def ws_exit_eq ws_openStreams_def ws_completeInflight_eq)

lemma close_prepared: "(ws_closeStream i c)\<lparr>wc_prepared := n\<rparr> = ws_closeStream i (c\<lparr>wc_prepared := n\<rparr>)"
  by (simp add: ws_closeStream_def prepared_commutes)

lemma ready_prepared:
  "(ws_onStreamReady i headers_ok c)\<lparr>wc_prepared := n\<rparr> = ws_onStreamReady i headers_ok (c\<lparr>wc_prepared := n\<rparr>)"
  "(ws_onStreamOpenFailure i c)\<lparr>wc_prepared := n\<rparr> = ws_onStreamOpenFailure i (c\<lparr>wc_prepared := n\<rparr>)"
  by (simp_all add: ws_onStreamReady_def ws_onStreamOpenFailure_def Let_def prepared_commutes close_prepared)
    (simp_all add: ws_inc_def ws_upd_def)

lemma ws_openStream_prepared:
  "(ws_openStream answer key i c)\<lparr>wc_prepared := n\<rparr> = ws_openStream answer key i (c\<lparr>wc_prepared := n\<rparr>)"
proof -
  define d where "d = ws_upd i (\<lambda>s. s\<lparr>wst_key := key\<rparr>) c"
  define e where "e = d\<lparr>wc_pending_opens := wc_pending_opens d + 1\<rparr>"
  define d' where "d' = ws_upd i (\<lambda>s. s\<lparr>wst_key := key\<rparr>) (c\<lparr>wc_prepared := n\<rparr>)"
  define e' where "e' = d'\<lparr>wc_pending_opens := wc_pending_opens d' + 1\<rparr>"
  have e': "e' = e\<lparr>wc_prepared := n\<rparr>" by (simp add: e'_def d'_def e_def d_def ws_upd_def)
  have streams: "wc_streams (c'\<lparr>wc_prepared := n\<rparr>) = wc_streams c'" for c' by simp
  show ?thesis
    unfolding ws_openStream_def Let_def d_def [symmetric] e_def [symmetric] d'_def [symmetric] e'_def [symmetric] unfolding e'
    by (cases answer) (simp_all only: ws_pool_answer.case ready_prepared [symmetric] streams prepared_commutes [symmetric] if_distrib
        [of "\<lambda>c. c\<lparr>wc_prepared := n\<rparr>"])
qed

lemma ws_sim_open:
  assumes "i < wc_stream_count c" "i < wc_prepared c" "\<not> ws_is_open (ws_stream c i)" "\<not> wst_encoder (ws_stream c i)"
    "i < length (wc_streams c)"
  shows "ws_sim c (ws_openStream answer key i c)"
proof -
  define d where "d = ws_upd i (\<lambda>s. s\<lparr>wst_key := key\<rparr>) c"
  define e where "e = d\<lparr>wc_pending_opens := wc_pending_opens d + 1\<rparr>"
  have "ws_sim c d" unfolding d_def by (rule ws_sim_upd) (use assms in \<open>auto simp: conn_ok_def ws_is_open_def\<close>)
  then have e: "ws_sim c e" unfolding e_def by (rule ws_sim_trans) simp
  have e_opening: "\<not> ws_is_open (ws_stream e i)" "\<not> wst_encoder (ws_stream e i)" using assms by (simp_all add: e_def d_def ws_is_open_def)
  have e_counts: "i < wc_stream_count e" "i < wc_prepared e" using assms by (simp_all add: e_def d_def)
  show ?thesis
  proof (cases answer)
    case WsNoPool
    have "ws_sim c (ws_upd i (\<lambda>s. s\<lparr>wst_state := WClosed\<rparr>) c)"
      by (rule ws_sim_upd) (use assms in \<open>auto simp: conn_ok_def ws_is_open_def\<close>)
    then have "ws_sim c (ws_inc W_stream_open_failures (ws_upd i (\<lambda>s. s\<lparr>wst_state := WClosed\<rparr>) c))"
      using assms(1) by (rule ws_sim_step) simp
    then show ?thesis using WsNoPool by (simp add: ws_openStream_def)
  next
    case (WsPoolReady headers_ok)
    have "\<not> (wst_state (ws_stream (ws_onStreamReady i headers_ok e) i) = WOpening \<and> \<not> wst_encoder (ws_stream (ws_onStreamReady i headers_ok e) i))"
      using assms(5) e_opening by (simp add: ws_onStreamReady_def ws_closeStream_def ws_eqs e_def d_def)
    then have "ws_openStream answer key i c = ws_onStreamReady i headers_ok e"
      unfolding ws_openStream_def WsPoolReady Let_def ws_pool_answer.case d_def [symmetric] e_def [symmetric] by (rule if_not_P)
    then show ?thesis using ws_sim_trans [OF e ws_sim_ready(1) [OF e_counts e_opening(1)]] by simp
  next
    case WsPoolFailed
    have "\<not> (wst_state (ws_stream (ws_onStreamOpenFailure i e) i) = WOpening \<and> \<not> wst_encoder (ws_stream (ws_onStreamOpenFailure i e) i))"
      using assms(5) by (simp add: ws_onStreamOpenFailure_def ws_eqs e_def d_def)
    then have "ws_openStream answer key i c = ws_onStreamOpenFailure i e"
      unfolding ws_openStream_def WsPoolFailed Let_def ws_pool_answer.case d_def [symmetric] e_def [symmetric] by (rule if_not_P)
    then show ?thesis using ws_sim_trans [OF e ws_sim_ready(2) [OF e_counts e_opening(1)]] by simp
  next
    case WsPoolLater
    have "ws_sim e (ws_upd i (\<lambda>s. s\<lparr>wst_cancellable := True\<rparr>) e)"
      by (rule ws_sim_upd) (use e_counts e_opening in \<open>auto simp: conn_ok_def ws_is_open_def\<close>)
    moreover have "ws_openStream answer key i c =
        (if wst_state (ws_stream e i) = WOpening then ws_upd i (\<lambda>s. s\<lparr>wst_cancellable := True\<rparr>) e else e)"
      unfolding ws_openStream_def WsPoolLater Let_def ws_pool_answer.case d_def [symmetric] e_def [symmetric] using e_opening by simp
    ultimately show ?thesis using ws_sim_trans [OF e] e by simp
  qed
qed

lemma ws_ok_prepared: "ws_ok c \<Longrightarrow> ws_ok (c\<lparr>wc_prepared := wc_prepared c + 1\<rparr>)"
  by (auto simp: ws_ok_def conn_ok_def message_frame_def)

lemma ws_prepare_open_good:
  assumes "ws_ok c" "wc_prepared c < wc_stream_count c"
  shows "ws_ok (ws_prepare_open answer key c) \<and> ledger_step\<^sup>*\<^sup>* (ws_ledger c) (ws_ledger (ws_prepare_open answer key c))"
proof -
  let ?c = "c\<lparr>wc_prepared := wc_prepared c + 1\<rparr>"
  have "conn_ok c (wc_prepared c) (ws_stream c (wc_prepared c))" using ws_okD(3) [OF assms] .
  then have "ws_sim ?c (ws_openStream answer key (wc_prepared c) ?c)"
    using assms ws_okD(1) [OF assms(1)] by (intro ws_sim_open) (auto simp: conn_ok_def)
  then show ?thesis using ws_ok_prepared [OF assms(1)]
    by (simp add: ws_prepare_open_def ws_openStream_prepared ws_sim_def del: One_nat_def)
qed

text \<open>The loops over all connections.\<close>

lemma ws_sim_loop:
  assumes "\<And>i c. i < wc_stream_count c \<Longrightarrow> ws_sim c (g i c)"
    and "\<And>c. loop [] c = c" "\<And>i is c. loop (i # is) c = loop is (g i c)"
    and "set is \<subseteq> {..<wc_stream_count c}"
  shows "ws_sim c (loop is c)"
  using assms(4)
proof (induction "is" arbitrary: c)
  case (Cons i "is")
  then have "ws_sim c (g i c)" using assms(1) by simp
  then show ?case unfolding assms(3)
  proof (rule ws_sim_trans)
    assume "ws_scal (g i c) = ws_scal c"
    then show "ws_sim (g i c) (loop is (g i c))" using Cons ws_scal_counts by (metis dual_order.trans set_subset_Cons)
  qed
qed (simp add: assms(2))

lemma ws_sim_completed:
  assumes "i < wc_stream_count c"
  shows "ws_sim c (ws_completeInflight i False c)"
proof -
  have "ws_ok (ws_completeInflight i False c)" if "ws_ok c"
    by (rule ws_ok_update [OF that assms(1), of _ "(ws_stream c i)\<lparr>wst_inflight := []\<rparr>"])
      (use ws_okD [OF that] assms in \<open>auto simp: ws_completeInflight_eq ws_scal_def conn_ok_def ws_is_open_def\<close>)
  then show ?thesis using ws_lose [of i c] ws_okD(1) assms(1)
    by (auto simp: ws_sim_def ws_completeInflight_eq ws_scal_def)
qed

lemma ws_sim_expire: "set is \<subseteq> {..<wc_stream_count c} \<Longrightarrow> ws_sim c (ws_expire is c)"
proof (rule ws_sim_loop [where loop = ws_expire and g = "\<lambda>i c. if wst_state (ws_stream c i) \<noteq> WOpening then c
     else let c = ws_inc W_stream_open_failures c; c = c\<lparr>wc_pending_opens := wc_pending_opens c - 1\<rparr>
          in ws_closeStream i (ws_upd i (\<lambda>s. s\<lparr>wst_cancellable := False\<rparr>) c)"])
  fix i and c :: WsStreamClient assume i: "i < wc_stream_count c"
  define d where "d = ws_inc W_stream_open_failures c"
  define e where "e = d\<lparr>wc_pending_opens := wc_pending_opens d - 1\<rparr>"
  have "ws_sim c d" by (simp add: d_def)
  then have "ws_sim c e" unfolding e_def by (rule ws_sim_trans) simp
  then have "ws_sim c (ws_upd i (\<lambda>s. s\<lparr>wst_cancellable := False\<rparr>) e)" using i
    by (rule ws_sim_step) (rule ws_sim_upd, auto simp: conn_ok_def ws_is_open_def)
  then have "ws_sim c (ws_closeStream i (ws_upd i (\<lambda>s. s\<lparr>wst_cancellable := False\<rparr>) e))" using i
    by (rule ws_sim_step) (rule ws_sim_close)
  then show "ws_sim c (if wst_state (ws_stream c i) \<noteq> WOpening then c
     else let c = ws_inc W_stream_open_failures c; c = c\<lparr>wc_pending_opens := wc_pending_opens c - 1\<rparr>
          in ws_closeStream i (ws_upd i (\<lambda>s. s\<lparr>wst_cancellable := False\<rparr>) c))"
    unfolding Let_def d_def [symmetric] e_def [symmetric] by simp
qed simp_all

lemma ws_sim_drain: "set is \<subseteq> {..<wc_stream_count c} \<Longrightarrow> ws_sim c (ws_drain is c)"
proof (rule ws_sim_loop [where loop = ws_drain and g = "\<lambda>i c. if ws_is_open (ws_stream c i)
     then ws_completeInflight i False (ws_inc W_stream_drain_incomplete c) else c"])
  fix i and c :: WsStreamClient assume i: "i < wc_stream_count c"
  have "ws_sim c (ws_inc W_stream_drain_incomplete c)" by simp
  then have "ws_sim c (ws_completeInflight i False (ws_inc W_stream_drain_incomplete c))" using i
    by (rule ws_sim_step) (rule ws_sim_completed)
  then show "ws_sim c (if ws_is_open (ws_stream c i)
     then ws_completeInflight i False (ws_inc W_stream_drain_incomplete c) else c)" by simp
qed simp_all

lemma ws_sim_terminate_stream:
  assumes "i < wc_stream_count c"
  shows "ws_sim c (ws_terminate_stream i c)"
proof -
  define d where "d = ws_upd i (\<lambda>s. s\<lparr>wst_cancellable := False, wst_state := WClosed\<rparr>) c"
  define p where "p = (if wst_state (ws_stream c i) = WOpening then c\<lparr>wc_pending_opens := wc_pending_opens c - 1\<rparr> else c)"
  define e where "e = ws_completeInflight i False (ws_upd i (\<lambda>s. s\<lparr>wst_state := WClosed, wst_encoder := False\<rparr>) p)"
  have d: "ws_sim c (d\<lparr>wc_pending_opens := wc_pending_opens c - 1\<rparr>)" if "wst_state (ws_stream c i) = WOpening"
  proof -
    have "ws_sim c d" unfolding d_def
      by (rule ws_sim_upd) (use assms that in \<open>auto simp: conn_ok_def ws_is_open_def\<close>)
    then show ?thesis by (rule ws_sim_trans) simp
  qed
  have "ws_ok e" if "ws_ok c"
    by (rule ws_ok_update [OF that assms, of _ "(ws_stream c i)\<lparr>wst_state := WClosed, wst_encoder := False, wst_inflight := []\<rparr>"])
      (use assms ws_okD [OF that] in \<open>auto simp: e_def p_def ws_eqs ws_scal_def conn_ok_def ws_is_open_def\<close>)
  moreover have "ledger_step\<^sup>*\<^sup>* (ws_ledger c) (ws_ledger e)" if "ws_ok c"
    using ws_lose [of i "ws_upd i (\<lambda>s. s\<lparr>wst_state := WClosed, wst_encoder := False\<rparr>) p"] ws_okD(1) [OF that] assms
    by (cases "wst_state (ws_stream c i) = WOpening") (simp_all add: e_def ws_ledger_upd p_def)
  ultimately have "ws_sim c e" by (simp add: ws_sim_def e_def p_def ws_eqs ws_scal_def)
  then show ?thesis using d unfolding ws_terminate_stream_def Let_def p_def [symmetric] d_def [symmetric] e_def [symmetric] by simp
qed

lemma ws_sim_terminate: "set is \<subseteq> {..<wc_stream_count c} \<Longrightarrow> ws_sim c (ws_terminate_streams is c)"
  by (rule ws_sim_loop [where g = ws_terminate_stream]) (simp_all add: ws_sim_terminate_stream)

text \<open>\<open>finish\<close> writes a close frame on every open connection.\<close>

lemma conn_ok_handshake: "conn_ok c i s \<Longrightarrow> conn_ok c i (close_handshake s)"
  by (auto simp: conn_ok_def close_handshake_def ws_is_open_def intro: list_emb_prefix)

lemma ws_sim_finish: "ws_sim c (ws_finish c)"
proof -
  define d where "d = c\<lparr>wc_finished := True, wc_streams := map close_handshake (wc_streams c)\<rparr>"
  have "map ws_inflight_requests (map close_handshake xs) = map ws_inflight_requests xs" for xs
    by (simp add: ws_inflight_requests_def close_handshake_def)
  then have "ws_ledger d = ws_ledger c" unfolding d_def ws_ledger_def by (simp del: map_map mset_concat)
  moreover have scal: "ws_scal d = ws_scal c" by (simp add: d_def ws_scal_def)
  moreover have "ws_ok d" if "ws_ok c"
    using that conn_ok_handshake unfolding ws_ok_def conn_ok_scal [OF scal] by (simp add: d_def)
  ultimately have "ws_sim c d" by (simp add: ws_sim_def)
  moreover have "ws_sim c (d\<lparr>wc_waiting_for := w, wc_exit := b, wc_wait_timer := t\<rparr>)" for w b t
    using \<open>ws_sim c d\<close> by (auto simp: ws_sim_def ws_ok_fields)
  ultimately show ?thesis by (simp add: ws_finish_def d_def Let_def)
qed

text \<open>A request is dropped, or sent as one frame.\<close>

definition ws_dropped :: "ws_counter \<Rightarrow> WsStreamClient \<Rightarrow> WsStreamClient" where
  "ws_dropped k c = ws_inc k (c\<lparr>wc_next_stream := (wc_next_stream c + 1) mod wc_stream_count c, wc_started := wc_started c + 1,
     wc_posted := wc_posted c @ [(wc_started c, False)]\<rparr>)"

definition ws_sent :: "WsStreamClient \<Rightarrow> WsStreamClient" where
  "ws_sent c = ws_inc W_stream_messages_sent (ws_upd (wc_next_stream c) (\<lambda>s. s\<lparr>wst_inflight := wst_inflight s @
       [\<lparr>wm_sequence = wc_next_sequence c, wm_sent_at = wc_now c, wm_callback = wc_started c\<rparr>],
       wst_written := wst_written s @ [message_frame c (wc_next_sequence c)]\<rparr>)
     (c\<lparr>wc_next_stream := (wc_next_stream c + 1) mod wc_stream_count c, wc_started := wc_started c + 1,
        wc_next_sequence := wc_next_sequence c + 1\<rparr>))"

lemma ws_request_eq:
  "wc_next_stream c < length (wc_streams c) \<Longrightarrow> ws_tryStartRequest c =
     (let s = ws_stream c (wc_next_stream c)
      in if wst_state s \<noteq> WOpen then ws_dropped W_stream_unavailable c
         else if wst_write_blocked s \<or> length (wst_inflight s) \<ge> wc_max_inflight c then ws_dropped W_stream_deferred c
         else ws_sent c)"
  by (simp add: ws_tryStartRequest_def ws_dropped_def ws_sent_def ws_inc_def ws_upd_def ws_send_def message_frame_def Let_def)

lemma ws_sim_dropped:
  assumes "k = W_stream_unavailable \<or> k = W_stream_deferred"
  shows "ws_sim c (ws_dropped k c)"
proof -
  have "ws_ok (ws_dropped k c)" if "ws_ok c"
    by (rule ws_ok_same [OF that]) (use ws_okD(2) [OF that] in \<open>auto simp: ws_dropped_def ws_inc_def ws_scal_def\<close>)
  moreover have "ws_ledger (ws_dropped k c) = lg_drop (ws_ledger c)"
    using assms by (auto simp: ws_dropped_def ws_inc_def ws_ledger_def lg_drop_def)
  ultimately show ?thesis using ledger_drop by (auto simp: ws_sim_def ws_dropped_def ws_inc_def ws_scal_def)
qed

lemma ws_sim_sent:
  assumes "wst_state (ws_stream c (wc_next_stream c)) = WOpen"
  shows "ws_sim c (ws_sent c)"
proof -
  define i where "i = wc_next_stream c"
  define s where "s = (ws_stream c i)\<lparr>wst_inflight := wst_inflight (ws_stream c i) @
      [\<lparr>wm_sequence = wc_next_sequence c, wm_sent_at = wc_now c, wm_callback = wc_started c\<rparr>],
    wst_written := wst_written (ws_stream c i) @ [message_frame c (wc_next_sequence c)]\<rparr>"
  have streams: "wc_streams (ws_sent c) = (wc_streams c)[i := s]" by (simp add: ws_sent_def ws_inc_def ws_upd_def s_def i_def)
  have ok: "ws_ok (ws_sent c)" if "ws_ok c"
  proof (rule ws_ok_update [OF that _ _ _ streams])
    show "i < wc_stream_count c" using ws_okD(2) [OF that] by (simp add: i_def)
    then show "conn_ok c i s" using ws_okD(3) [OF that] assms
      by (auto simp: conn_ok_def s_def i_def ws_is_open_def intro: list_emb_append_mono)
  qed (use ws_okD(2) [OF that] in \<open>auto simp: ws_sent_def ws_inc_def ws_upd_def ws_scal_def\<close>)
  have "ws_ledger (ws_sent c) = lg_send (ws_ledger c)" if "ws_ok c"
  proof -
    have i: "i < length (wc_streams c)" using ws_okD(1,2) [OF that] by (simp add: i_def)
    have "mset (concat (map ws_inflight_requests ((wc_streams c)[i := s]))) =
        add_mset (wc_started c) (mset (concat (map ws_inflight_requests (wc_streams c))))"
      using mset_concat_update [OF i, of ws_inflight_requests s]
      by (simp add: s_def ws_inflight_requests_def del: mset_concat)
    then show ?thesis unfolding ws_ledger_def streams by (simp add: ws_sent_def ws_inc_def ws_upd_def lg_send_def del: mset_concat)
  qed
  then show ?thesis using ok ledger_send by (auto simp: ws_sim_def ws_sent_def ws_inc_def ws_upd_def ws_scal_def)
qed

lemma ws_sim_request: "ws_sim c (ws_tryStartRequest c)"
proof (cases "ws_ok c")
  case True
  then have "wc_next_stream c < length (wc_streams c)" by (simp add: ws_okD)
  then show ?thesis using ws_sim_dropped ws_sim_sent by (simp add: ws_request_eq Let_def)
qed (simp add: ws_sim_def)

subsection \<open>The client implements the specification\<close>

lemma ws_sim_blocked_event: "i < wc_stream_count c \<Longrightarrow> ws_sim c (ws_onWriteBlocked i blocked c)"
proof -
  assume i: "i < wc_stream_count c"
  let ?d = "if blocked \<and> \<not> wst_write_blocked (ws_stream c i) then ws_inc W_stream_write_blocked c else c"
  have "ws_sim c ?d" by simp
  then show ?thesis unfolding ws_onWriteBlocked_def using i by (rule ws_sim_step) (rule ws_sim_blocked)
qed

lemma ws_sim_waited:
  "ws_sim c (ws_prepare_wait c)" "ws_sim c (ws_prepare_end c)" "ws_sim c (ws_finish_rest c)" "ws_sim c (ws_terminate_rest c)"
proof -
  have wait: "ws_sim c (c\<lparr>wc_waiting_for := w, wc_exit := b, wc_wait_timer := t\<rparr>)" for w b t
    by (auto simp: ws_sim_def ws_ok_fields)
  then show "ws_sim c (ws_prepare_wait c)" by (simp add: ws_prepare_wait_def)
  have quiet: "ws_sim c (c\<lparr>wc_wait_timer := None, wc_waiting_for := WWaitNothing\<rparr>)"
    by (auto simp: ws_sim_def ws_ok_fields)
  show "ws_sim c (ws_prepare_end c)"
    unfolding ws_prepare_end_def by (rule ws_sim_trans [OF quiet]) (rule ws_sim_expire, auto)
  show "ws_sim c (ws_finish_rest c)"
    unfolding ws_finish_rest_def by (rule ws_sim_trans [OF quiet]) (rule ws_sim_drain, auto)
  have "ws_sim c (c\<lparr>wc_measure_latencies := False\<rparr>)" by simp
  then show "ws_sim c (ws_terminate_rest c)"
    unfolding ws_terminate_rest_def by (rule ws_sim_trans) (rule ws_sim_terminate, auto)
qed

text \<open>Before \<open>prepare\<close> has opened a connection nothing is in flight, so the message may be set.\<close>

lemma ws_ok_message:
  assumes "ws_ok c" "wc_prepared c = 0"
  shows "ws_ok (c\<lparr>wc_message := body\<rparr>)"
proof -
  have "wst_inflight (ws_stream c i) = []" if "i < wc_stream_count c" for i
    using ws_okD(3) [OF assms(1) that] assms(2) by (auto simp: conn_ok_def)
  then show ?thesis using assms(1) by (simp add: ws_ok_def conn_ok_def message_frame_def)
qed

lemma ws_sim_stepD: "ws_sim c c' \<Longrightarrow> ws_ok c \<Longrightarrow> ws_ok c' \<and> ledger_step\<^sup>*\<^sup>* (ws_ledger c) (ws_ledger c')"
  by (simp add: ws_sim_def)

lemma ws_step_good:
  "ws_step lib sha1 base64 hexatoi c c' \<Longrightarrow> ws_ok c \<Longrightarrow> ws_ok c' \<and> ledger_step\<^sup>*\<^sup>* (ws_ledger c) (ws_ledger c')"
proof (induction rule: ws_step.induct)
  case (ws_prepare_begin c generated c')
  then show ?case by (auto simp: ws_prepare_begin_def ws_ok_message split: option.splits)
next
  case (ws_prepare_open c answer key)
  then show ?case using ws_prepare_open_good by blast
next
  case (ws_ready i c headers_ok)
  have "conn_ok c i (ws_stream c i)" using ws_okD(3) [OF ws_ready(3,1)] .
  then show ?case using ws_ready ws_sim_ready(1) [of i c] conn_prepared [of c i] by (intro ws_sim_stepD) (auto simp: conn_ok_def)
next
  case (ws_open_failure i c)
  have "conn_ok c i (ws_stream c i)" using ws_okD(3) [OF ws_open_failure(3,1)] .
  then show ?case using ws_open_failure ws_sim_ready(2) [of i c] conn_prepared [of c i] by (intro ws_sim_stepD) (auto simp: conn_ok_def)
next
  case (ws_posted c p rest)
  then have "ws_ledger (c\<lparr>wc_posted := rest, wc_callbacks := wc_callbacks c @ [p]\<rparr>) = lg_run p (ws_ledger c)" "p \<in># lg_posted (ws_ledger c)"
    by (simp_all add: ws_ledger_def lg_run_def)
  then show ?case using ledger_run [of p "ws_ledger c"] ws_posted ws_ok_fields(9,10) by auto
qed (auto intro!: ws_sim_stepD ws_sim_request ws_sim_headers ws_sim_data ws_sim_end ws_sim_reset ws_sim_blocked_event ws_sim_finish
    ws_sim_waited ws_ok_fields)

definition ws_initial :: "WsStreamClient \<Rightarrow> bool" where
  "ws_initial c \<longleftrightarrow> (\<exists>streams limit drain open_timeout binary now. mk_WsStreamClient streams limit drain open_timeout binary now = Inr c)"

interpretation ws_account: ledger_client ws_initial "ws_step lib sha1 base64 hexatoi" ws_ok ws_ledger
  for lib :: "'z third_party_scheme" and sha1 base64 hexatoi
proof unfold_locales
  fix c assume "ws_initial c"
  then obtain streams limit drain open_timeout binary now where
    c: "mk_WsStreamClient streams limit drain open_timeout binary now = Inr c" by (auto simp: ws_initial_def)
  then show "ws_ok c"
    by (auto simp: mk_WsStreamClient_def ws_ok_def conn_ok_def fresh_connection_def ws_is_open_def split: if_splits)
  have "ws_inflight_requests fresh_connection = []" by (simp add: ws_inflight_requests_def fresh_connection_def)
  then show "ws_ledger c = empty_ledger"
    using c by (auto simp: mk_WsStreamClient_def ws_ledger_def empty_ledger_def split: if_splits)
qed (use ws_step_good in blast)+

subsection \<open>Properties\<close>

text \<open>
  C8: the WebSocket client refines the message ledger, for every SHA-1, base64 and hexadecimal parser and
  every interleaving. In every reachable state each request is completed, posted or held by one connection,
  exactly once; it was sent, deferred or found no open connection; what was sent has been answered, lost or
  is in flight; success is reported exactly for the answered ones; and the messages in flight on a
  connection were written to it as frames in the same order, each with its sequence number.
\<close>

theorem ws_messages_accounted:
  assumes "mk_WsStreamClient streams limit drain open_timeout binary now = Inr c0" "(ws_step lib sha1 base64 hexatoi)\<^sup>*\<^sup>* c0 c"
  shows "ledger_step\<^sup>*\<^sup>* empty_ledger (ws_ledger c) \<and>
    mset (map fst (wc_callbacks c)) + mset (map fst (wc_posted c)) + mset (concat (map ws_inflight_requests (wc_streams c))) =
      mset [0..<wc_started c] \<and>
    wc_started c = wc_counters c W_stream_messages_sent + wc_counters c W_stream_deferred + wc_counters c W_stream_unavailable \<and>
    wc_counters c W_stream_messages_sent = wc_counters c W_stream_messages_received + wc_counters c W_stream_inflight_lost +
      (\<Sum>s\<leftarrow>wc_streams c. length (wst_inflight s)) \<and>
    length (filter snd (wc_callbacks c)) = wc_counters c W_stream_messages_received \<and>
    (\<forall>s \<in> set (wc_streams c). (ws_is_open s \<longrightarrow> wst_encoder s) \<and>
      subseq (map (\<lambda>m. message_frame c (wm_sequence m)) (wst_inflight s)) (wst_written s))"
proof -
  have c0: "ws_initial c0" using assms(1) unfolding ws_initial_def by blast
  note ok = ws_account.reachable_inv [OF assms(2) c0]
  have "length (concat (map ws_inflight_requests xs)) = (\<Sum>s\<leftarrow>xs. length (wst_inflight s))" for xs
    by (induction xs) (simp_all add: ws_inflight_requests_def)
  then have "ledger_ok (ws_ledger c) \<longrightarrow> ?thesis"
    using ok ws_account.reachable_refines [OF assms(2) c0]
    by (auto simp: ledger_ok_def ws_ledger_def ws_ok_def conn_ok_def in_set_conv_nth simp flip: mset_filter mset_map simp del: mset_upt mset_concat)
  then show ?thesis using ws_account.reachable_account [OF assms(2) c0] by blast
qed

end
