(* ===== verification/WsEcho.thy ===== *)
theory WsEcho
  imports WsAccount
begin

text \<open>
  The WebSocket echo filter of the test server (\<^verbatim>\<open>server/websocket_echo_filter.cc\<close>) and the client and the filter
  together: the handshake, and messages that travel to the filter and back as bytes. Whether a request is an
  upgrade is decided by Envoy and is an argument.
\<close>

subsection \<open>The filter\<close>

text \<open>What the filter answers with: a local reply, response headers, or response data with the end flag.\<close>

datatype filter_reply =
    SendLocalReply nat string
  | EncodeHeaders upgrade_response
  | EncodeData "byte list" bool

record WebSocketEchoFilter =
  ef_upgraded :: bool
  ef_closed :: bool
  ef_replies :: "filter_reply list"

definition fresh_echo_filter :: WebSocketEchoFilter where
  "fresh_echo_filter = \<lparr>ef_upgraded = False, ef_closed = False, ef_replies = []\<rparr>"

definition echo_reply :: "filter_reply \<Rightarrow> WebSocketEchoFilter \<Rightarrow> WebSocketEchoFilter" where
  "echo_reply r f = f\<lparr>ef_replies := ef_replies f @ [r]\<rparr>"

definition echo_decodeHeaders ::
    "(string \<Rightarrow> byte list) \<Rightarrow> (byte list \<Rightarrow> string) \<Rightarrow> bool \<Rightarrow> string list \<Rightarrow> WebSocketEchoFilter \<Rightarrow> WebSocketEchoFilter" where
  "echo_decodeHeaders sha1 base64 is_upgrade keys f =
     (if \<not> is_upgrade then echo_reply (SendLocalReply 426 ''websocket-echo: expected a WebSocket upgrade\<newline>'') f
      else
        case keys of
          [key] \<Rightarrow>
            echo_reply (EncodeHeaders \<lparr>ur_status = 101, ur_upgrade = Some ''websocket'', ur_connection = Some ''upgrade'',
              ur_accept = [acceptKey sha1 base64 key]\<rparr>) (f\<lparr>ef_upgraded := True\<rparr>)
        | _ \<Rightarrow> echo_reply (SendLocalReply 400 ''websocket-echo: expected one Sec-WebSocket-Key\<newline>'') f)"

definition echo_send :: "Frame \<Rightarrow> bool \<Rightarrow> WebSocketEchoFilter \<Rightarrow> WebSocketEchoFilter" where
  "echo_send frame end_stream f =
     (if ef_closed f then f
      else echo_reply (EncodeData (encodeFrame None frame) end_stream) (f\<lparr>ef_closed := end_stream\<rparr>))"

text \<open>The loop over the decoded frames; a close frame returns from the handler.\<close>

fun echo_frames :: "Frame list \<Rightarrow> WebSocketEchoFilter \<Rightarrow> bool \<times> WebSocketEchoFilter" where
  "echo_frames [] f = (False, f)"
| "echo_frames (frame # frames) f =
     (case opcode frame of
        Ping \<Rightarrow> echo_frames frames (echo_send (frame\<lparr>opcode := Pong\<rparr>) False f)
      | Pong \<Rightarrow> echo_frames frames f
      | Close \<Rightarrow> (True, echo_send frame True f)
      | _ \<Rightarrow> echo_frames frames (echo_send frame False f))"

text \<open>
  The decoder is fed the data of this call alone: what it leaves there, an incomplete frame, is not
  buffered for the next call.
\<close>

definition echo_decodeData :: "byte list \<Rightarrow> bool \<Rightarrow> WebSocketEchoFilter \<Rightarrow> WebSocketEchoFilter" where
  "echo_decodeData data end_stream f =
     (if \<not> ef_upgraded f \<or> ef_closed f then f
      else
        case feed data [] of
          (good, rest, frames) \<Rightarrow>
            if \<not> good then echo_send (closeFrame 1002) True f
            else
              let (returned, f) = echo_frames frames f
              in if \<not> returned \<and> end_stream \<and> \<not> ef_closed f
                 then echo_reply (EncodeData [] True) (f\<lparr>ef_closed := True\<rparr>) else f)"

text \<open>The filter on the pieces the connection delivers, and the bytes it sends.\<close>

fun echo_calls :: "byte list list \<Rightarrow> WebSocketEchoFilter \<Rightarrow> WebSocketEchoFilter" where
  "echo_calls [] f = f"
| "echo_calls (data # rest) f = echo_calls rest (echo_decodeData data False f)"

fun reply_bytes :: "filter_reply list \<Rightarrow> byte list" where
  "reply_bytes [] = []"
| "reply_bytes (EncodeData bytes _ # rs) = bytes @ reply_bytes rs"
| "reply_bytes (_ # rs) = reply_bytes rs"

text \<open>The client on the pieces it receives.\<close>

fun ws_receive :: "(byte list \<Rightarrow> 64 word option) \<Rightarrow> nat \<Rightarrow> byte list list \<Rightarrow> WsStreamClient \<Rightarrow> WsStreamClient" where
  "ws_receive hexatoi i [] c = c"
| "ws_receive hexatoi i (data # rest) c = ws_receive hexatoi i rest (ws_onResponseData hexatoi i data False c)"

subsection \<open>Sequence numbers\<close>

text \<open>What is documented of \<open>SimpleHexAtoi\<close>: up to sixteen hexadecimal digits are read as a number.\<close>

definition hexatoi_documented :: "(byte list \<Rightarrow> 64 word option) \<Rightarrow> bool" where
  "hexatoi_documented hexatoi \<longleftrightarrow>
     (\<forall>ds. ds \<noteq> [] \<and> length ds \<le> 16 \<and> list_all (\<lambda>d. d < 16) ds \<longrightarrow>
        hexatoi (map hex_digit ds) = Some (word_of_nat (foldl (\<lambda>a d. a * 16 + d) 0 ds)))"

primrec nibbles :: "nat \<Rightarrow> nat \<Rightarrow> nat list" where
  "nibbles 0 n = []"
| "nibbles (Suc k) n = n div 16 ^ k mod 16 # nibbles k n"

lemma hex_digits_nibbles: "hex_digits k n = map hex_digit (nibbles k n)"
  by (induction k) simp_all

lemma nibbles_small: "list_all (\<lambda>d. d < 16) (nibbles k n)"
  by (induction k) simp_all

lemma length_nibbles [simp]: "length (nibbles k n) = k"
  by (induction k) simp_all

lemma nibbles_value: "foldl (\<lambda>a d. a * 16 + d) a (nibbles k n) = a * 16 ^ k + n mod 16 ^ k"
proof (induction k arbitrary: a)
  case (Suc k)
  have "n mod 16 ^ Suc k = (n div 16 ^ k mod 16) * 16 ^ k + n mod 16 ^ k"
    using mod_mult2_eq [of n "16 ^ k" 16] by (simp add: mult.commute)
  then show ?case using Suc [of "a * 16 + n div 16 ^ k mod 16"] by (simp add: algebra_simps)
qed simp

lemma length_sequencePrefix [simp]: "length (sequencePrefix w) = 16"
  by (simp add: sequencePrefix_def hex_digits_nibbles del: hex_digits.simps nibbles.simps)

lemma hexatoi_sequence:
  assumes "hexatoi_documented hexatoi"
  shows "hexatoi (sequencePrefix w) = Some w"
proof -
  have "nibbles 16 (unat w) \<noteq> []" using length_nibbles [of 16 "unat w"] by fastforce
  then have "hexatoi (map hex_digit (nibbles 16 (unat w))) = Some (word_of_nat (foldl (\<lambda>a d. a * 16 + d) 0 (nibbles 16 (unat w))))"
    using assms nibbles_small [of 16 "unat w"] unfolding hexatoi_documented_def by simp
  moreover have "unat w < 16 ^ 16" using unsigned_less [of w, where ?'a = nat] by simp
  ultimately show ?thesis by (simp add: sequencePrefix_def hex_digits_nibbles nibbles_value del: hex_digits.simps nibbles.simps)
qed

subsection \<open>A piece of a byte stream\<close>

definition frame_bytes :: "(byte list option \<times> Frame) list \<Rightarrow> byte list" where
  "frame_bytes kfs = concat (map (\<lambda>(key, f). encodeFrame key f) kfs)"

definition sendable :: "(byte list option \<times> Frame) list \<Rightarrow> bool" where
  "sendable kfs \<longleftrightarrow> (\<forall>(key, f) \<in> set kfs. well_formed f \<and> key_ok key)"

text \<open>A proper part of a frame is incomplete, so the decoder leaves it alone.\<close>

lemma feed_partial:
  assumes "well_formed f" "key_ok key" "p @ r = encodeFrame key f" "r \<noteq> []"
  shows "feed p frames = (True, p, frames)"
proof (cases "length p < 2")
  case False
  have whole: "decode_frame (p @ r) = Decoded f []" using decode_encode [OF assms(1,2), of "[]"] assms(3) by simp
  consider "decode_frame p = Incomplete" | "decode_frame (p @ r) = Malformed"
    | g rest where "decode_frame (p @ r) = Decoded g (rest @ r)"
    using decode_frame_append_cases [of p r] False by force
  then have "decode_frame p = Incomplete" using whole assms(4) by cases simp_all
  then show ?thesis using False by (subst feed.simps) simp
qed (subst feed.simps, simp)

text \<open>
  A decoder that has received a part of a stream of frames has decoded the frames that are complete, and the
  bytes it holds together with those to come are the other frames.
\<close>

lemma feed_prefix:
  assumes "sendable kfs" "p @ r = frame_bytes kfs"
  shows "\<exists>n rest. feed p frames = (True, rest, frames @ map snd (take n kfs)) \<and> rest @ r = frame_bytes (drop n kfs) \<and>
    (\<forall>fs. feed rest fs = (True, rest, fs))"
  using assms
proof (induction kfs arbitrary: p frames)
  case Nil
  then have "feed p fs = (True, p, fs)" for fs by (subst feed.simps) (simp add: frame_bytes_def)
  then show ?case using Nil by (intro exI [of _ 0] exI [of _ p]) simp
next
  case (Cons kf kfs)
  obtain key f where kf: "kf = (key, f)" by fastforce
  have ok: "well_formed f" "key_ok key" "sendable kfs" using Cons.prems(1) by (simp_all add: sendable_def kf)
  let ?e = "encodeFrame key f"
  have bytes: "p @ r = ?e @ frame_bytes kfs" using Cons.prems(2) by (simp add: frame_bytes_def kf)
  consider us where "p = ?e @ us" "us @ r = frame_bytes kfs" | us where "p @ us = ?e" "us \<noteq> []" "r = us @ frame_bytes kfs"
  proof -
    obtain us where "p = ?e @ us \<and> us @ r = frame_bytes kfs \<or> p @ us = ?e \<and> r = us @ frame_bytes kfs"
      using bytes by (auto simp: append_eq_append_conv2)
    then show ?thesis using that by (cases "us = []") auto
  qed
  then show ?case
  proof cases
    case (1 us)
    obtain n rest where n: "feed us (frames @ [f]) = (True, rest, (frames @ [f]) @ map snd (take n kfs))"
      "rest @ r = frame_bytes (drop n kfs)" "\<forall>fs. feed rest fs = (True, rest, fs)" using Cons.IH [OF ok(3) 1(2)] by blast
    have "feed (?e @ us) frames = feed us (frames @ [f])"
      using feed_encoded [of "[(key, f)]" us frames] ok(1,2) by simp
    then show ?thesis using n 1(1) kf by (intro exI [of _ "Suc n"] exI [of _ rest]) simp
  next
    case (2 us)
    have "feed p fs = (True, p, fs)" for fs by (rule feed_partial [OF ok(1,2) 2(1,2)])
    then show ?thesis using bytes kf by (intro exI [of _ 0] exI [of _ p]) (simp add: frame_bytes_def)
  qed
qed

subsection \<open>The filter echoes\<close>

lemma echo_frames_data:
  "list_all (\<lambda>f. opcode f \<in> {Text, Binary, Continuation}) frames \<Longrightarrow> \<not> ef_closed f \<Longrightarrow>
    echo_frames frames f = (False, f\<lparr>ef_replies := ef_replies f @ map (\<lambda>g. EncodeData (encodeFrame None g) False) frames\<rparr>)"
proof (induction frames arbitrary: f)
  case (Cons g frames)
  have g: "echo_send g False f = f\<lparr>ef_replies := ef_replies f @ [EncodeData (encodeFrame None g) False]\<rparr>"
    using Cons.prems(2) by (simp add: echo_send_def echo_reply_def)
  show ?case using Cons.prems Cons.IH [of "echo_send g False f"] by (auto simp: g)
qed simp

lemma reply_bytes_append: "reply_bytes (rs @ rs') = reply_bytes rs @ reply_bytes rs'"
  by (induction rs rule: reply_bytes.induct) simp_all

lemma reply_bytes_data: "reply_bytes (map (\<lambda>g. EncodeData (encodeFrame None g) b) fs) = frame_bytes (map (\<lambda>g. (None, g)) fs)"
  by (induction fs) (simp_all add: frame_bytes_def)

text \<open>Each call brings whole frames.\<close>

lemma echo_call_whole:
  assumes "sendable call" "list_all (\<lambda>(key, f). opcode f \<in> {Text, Binary, Continuation}) call" "ef_upgraded f" "\<not> ef_closed f"
  shows "echo_decodeData (frame_bytes call) False f =
    f\<lparr>ef_replies := ef_replies f @ map (\<lambda>g. EncodeData (encodeFrame None g) False) (map snd call)\<rparr>"
proof -
  have "feed (frame_bytes call) [] = (True, [], map snd call)"
    using feed_encoded [of call "[]" "[]"] assms(1) by (simp add: sendable_def frame_bytes_def feed.simps [of "[]"])
  moreover have "list_all (\<lambda>f. opcode f \<in> {Text, Binary, Continuation}) (map snd call)"
    using assms(2) by (auto simp: list_all_iff)
  ultimately show ?thesis using assms(3,4) by (simp add: echo_decodeData_def echo_frames_data del: map_map)
qed

lemma echo_calls_whole:
  "list_all sendable calls \<Longrightarrow> list_all (list_all (\<lambda>(key, f). opcode f \<in> {Text, Binary, Continuation})) calls \<Longrightarrow>
    ef_upgraded f \<Longrightarrow> \<not> ef_closed f \<Longrightarrow>
    echo_calls (map frame_bytes calls) f =
      f\<lparr>ef_replies := ef_replies f @ map (\<lambda>g. EncodeData (encodeFrame None g) False) (map snd (concat calls))\<rparr>"
proof (induction calls arbitrary: f)
  case (Cons call calls)
  then show ?case using Cons.IH [of "echo_decodeData (frame_bytes call) False f"] by (simp add: echo_call_whole)
qed simp

subsection \<open>The client matches the echoes\<close>

text \<open>The first messages in flight on a connection are answered.\<close>

definition ws_answered :: "nat \<Rightarrow> nat \<Rightarrow> WsStreamClient \<Rightarrow> WsStreamClient" where
  "ws_answered i n c =
     (let q = wst_inflight (ws_stream c i)
      in c\<lparr>wc_streams := (wc_streams c)[i := (ws_stream c i)\<lparr>wst_inflight := drop n q\<rparr>],
           wc_counters := (wc_counters c)(W_stream_messages_received := wc_counters c W_stream_messages_received + n),
           wc_latency := (if wc_measure_latencies c then wc_latency c @ map (\<lambda>m. word_of_int (wc_now c - wm_sent_at m)) (take n q)
                          else wc_latency c),
           wc_callbacks := wc_callbacks c @ map (\<lambda>m. (wm_callback m, True)) (take n q)\<rparr>)"

lemma ws_answered_0: "ws_answered i 0 c = c"
  by (simp add: ws_answered_def)

lemma ws_answered_Suc:
  "i < length (wc_streams c) \<Longrightarrow> wst_inflight (ws_stream c i) = m # ms \<Longrightarrow>
    ws_answered i n (ws_answered i 1 c) = ws_answered i (Suc n) c"
  by (simp add: ws_answered_def Let_def)

lemma message_frame_answered: "message_frame (ws_answered i n c) = message_frame c"
  by (rule ext) (simp add: message_frame_def ws_answered_def Let_def)

lemma ws_reassembled_echo:
  assumes hex: "hexatoi_documented hexatoi" and i: "i < length (wc_streams c)"
    and q: "wst_inflight (ws_stream c i) = m # ms" and empty: "wst_fragments (ws_stream c i) = []"
  shows "ws_reassembled hexatoi i (message_frame c (wm_sequence m)) c = ws_answered i 1 c"
proof -
  define bytes where "bytes = sequencePrefix (wm_sequence m) @ wc_message c"
  define d where "d = ws_upd i (\<lambda>s. s\<lparr>wst_fragments := bytes\<rparr>) c"
  have bytes: "\<not> length bytes < kSequencePrefixLength" "hexatoi (take kSequencePrefixLength bytes) = Some (wm_sequence m)"
    using hexatoi_sequence [OF hex] by (simp_all add: bytes_def kSequencePrefixLength_def)
  have dq: "wst_inflight (ws_stream d i) = m # ms" "wst_fragments (ws_stream d i) = bytes"
    using i q by (simp_all add: d_def ws_upd_def)
  have "onMessage hexatoi i bytes d = ws_answered i 1 d"
    using bytes dq i by (simp add: onMessage_def ws_answered_def ws_inc_def ws_upd_def Let_def)
  moreover have "ws_upd i (\<lambda>s. s\<lparr>wst_fragments := []\<rparr>) (ws_answered i 1 d) = ws_answered i 1 c"
  proof -
    have "(ws_stream c i)\<lparr>wst_inflight := ms, wst_fragments := []\<rparr> = (ws_stream c i)\<lparr>wst_inflight := ms\<rparr>"
      using empty by (cases "ws_stream c i") simp
    then show ?thesis by (intro WsStreamClient.equality) (simp_all add: ws_answered_def ws_upd_def d_def Let_def i q)
  qed
  moreover have "ws_upd i (\<lambda>s. s\<lparr>wst_fragments := wst_fragments s @ payload (message_frame c (wm_sequence m))\<rparr>) c = d"
    by (simp add: d_def ws_upd_def empty message_frame_def bytes_def)
  moreover have "fin (message_frame c (wm_sequence m))" by (simp add: message_frame_def)
  ultimately show ?thesis by (simp only: ws_reassembled_def Let_def dq if_True)
qed

lemma ws_frames_echo:
  assumes hex: "hexatoi_documented hexatoi"
  shows "i < length (wc_streams c) \<Longrightarrow> wst_fragments (ws_stream c i) = [] \<Longrightarrow> n \<le> length (wst_inflight (ws_stream c i)) \<Longrightarrow>
    ws_frames hexatoi i (map (\<lambda>m. message_frame c (wm_sequence m)) (take n (wst_inflight (ws_stream c i)))) c = (False, ws_answered i n c)"
proof (induction n arbitrary: c)
  case 0
  then show ?case by (simp add: ws_answered_0)
next
  case (Suc n)
  obtain m ms where q: "wst_inflight (ws_stream c i) = m # ms" using Suc.prems(3) by (cases "wst_inflight (ws_stream c i)") auto
  let ?d = "ws_answered i 1 c"
  have d: "i < length (wc_streams ?d)" "wst_fragments (ws_stream ?d i) = []" "wst_inflight (ws_stream ?d i) = ms"
    using Suc.prems q by (simp_all add: ws_answered_def Let_def)
  have "ws_frames hexatoi i (map (\<lambda>m. message_frame c (wm_sequence m)) (take n ms)) ?d = (False, ws_answered i (Suc n) c)"
    using Suc.IH [of ?d] d Suc.prems q ws_answered_Suc [of i c m ms n] by (simp add: message_frame_answered)
  then show ?case
    using q ws_reassembled_echo [OF hex Suc.prems(1) q Suc.prems(2)]
    by (auto simp: ws_frames_Cons message_frame_def)
qed

text \<open>Echoes of everything in flight, however they are cut, answer everything in flight.\<close>

definition echo_stream :: "nat \<Rightarrow> WsStreamClient \<Rightarrow> (byte list option \<times> Frame) list" where
  "echo_stream i c = map (\<lambda>m. (None, message_frame c (wm_sequence m))) (wst_inflight (ws_stream c i))"

lemma sendable_message:
  "16 + length (wc_message c) \<le> kMaxPayloadLength \<Longrightarrow> well_formed (message_frame c w)"
  by (simp add: well_formed_def message_frame_def isControl_def word_le_nat_alt)

lemma ws_data_echo:
  assumes hex: "hexatoi_documented hexatoi" and i: "i < length (wc_streams c)" "ws_is_open (ws_stream c i)"
    and "wst_fragments (ws_stream c i) = []" "16 + length (wc_message c) \<le> kMaxPayloadLength"
    and bytes: "(wst_received (ws_stream c i) @ data) @ r = frame_bytes (echo_stream i c)"
  obtains n rest where "ws_onResponseData hexatoi i data False c = ws_answered i n (ws_upd i (\<lambda>s. s\<lparr>wst_received := rest\<rparr>) c)"
    "rest @ r = frame_bytes (drop n (echo_stream i c))" "\<forall>fs. feed rest fs = (True, rest, fs)" "n \<le> length (wst_inflight (ws_stream c i))"
proof -
  have "sendable (echo_stream i c)" using assms(5) by (auto simp: sendable_def echo_stream_def sendable_message key_ok_def)
  then obtain n rest where n: "feed (wst_received (ws_stream c i) @ data) [] = (True, rest, map snd (take n (echo_stream i c)))"
      "rest @ r = frame_bytes (drop n (echo_stream i c))" "\<forall>fs. feed rest fs = (True, rest, fs)"
    using feed_prefix [OF _ bytes, of "[]"] by auto
  define k where "k = min n (length (wst_inflight (ws_stream c i)))"
  have take: "take n (echo_stream i c) = take k (echo_stream i c)" and drop: "drop n (echo_stream i c) = drop k (echo_stream i c)"
    by (simp_all add: k_def echo_stream_def min_def)
  let ?d = "ws_upd i (\<lambda>s. s\<lparr>wst_received := rest\<rparr>) c"
  have d: "i < length (wc_streams ?d)" "wst_fragments (ws_stream ?d i) = []" "wst_inflight (ws_stream ?d i) = wst_inflight (ws_stream c i)"
    "message_frame ?d = message_frame c" using i(1) assms(4) by (simp_all add: ws_upd_def message_frame_def fun_eq_iff)
  have "ws_frames hexatoi i (map snd (take k (echo_stream i c))) ?d = (False, ws_answered i k ?d)"
    using ws_frames_echo [OF hex, of i ?d k] d by (simp add: echo_stream_def take_map comp_def k_def)
  then have "ws_onResponseData hexatoi i data False c = ws_answered i k ?d"
    using i(2) n(1) take by (simp add: ws_onResponseData_def)
  then show ?thesis using that n(2,3) drop by (simp add: k_def)
qed

lemma ws_receive_echo:
  assumes hex: "hexatoi_documented hexatoi"
  shows "i < length (wc_streams c) \<Longrightarrow> ws_is_open (ws_stream c i) \<Longrightarrow> wst_fragments (ws_stream c i) = [] \<Longrightarrow>
    16 + length (wc_message c) \<le> kMaxPayloadLength \<Longrightarrow>
    wst_received (ws_stream c i) @ concat chunks = frame_bytes (echo_stream i c) \<Longrightarrow>
    \<forall>fs. feed (wst_received (ws_stream c i)) fs = (True, wst_received (ws_stream c i), fs) \<Longrightarrow>
    ws_receive hexatoi i chunks c = ws_answered i (length (wst_inflight (ws_stream c i))) (ws_upd i (\<lambda>s. s\<lparr>wst_received := []\<rparr>) c)"
proof (induction chunks arbitrary: c)
  case Nil
  have "sendable (echo_stream i c)" using Nil(4) by (auto simp: sendable_def echo_stream_def sendable_message key_ok_def)
  then have "feed (frame_bytes (echo_stream i c)) [] = (True, [], map snd (echo_stream i c))"
    using feed_encoded [of "echo_stream i c" "[]" "[]"] by (simp add: sendable_def frame_bytes_def feed.simps [of "[]"])
  then have none: "wst_received (ws_stream c i) = []" "wst_inflight (ws_stream c i) = []" using Nil(5,6) by (auto simp: echo_stream_def frame_bytes_def)
  have same: "(ws_stream c i)\<lparr>wst_received := []\<rparr> = ws_stream c i" using none(1) by (cases "ws_stream c i") simp
  show ?case unfolding none(2) by (simp add: ws_answered_0 ws_upd_def same)
next
  case (Cons data chunks)
  obtain n rest where n: "ws_onResponseData hexatoi i data False c = ws_answered i n (ws_upd i (\<lambda>s. s\<lparr>wst_received := rest\<rparr>) c)"
    "rest @ concat chunks = frame_bytes (drop n (echo_stream i c))" "\<forall>fs. feed rest fs = (True, rest, fs)" "n \<le> length (wst_inflight (ws_stream c i))"
    by (rule ws_data_echo [OF hex Cons.prems(1-4), of data "concat chunks"]) (use Cons.prems(5) in simp)
  define d where "d = ws_answered i n (ws_upd i (\<lambda>s. s\<lparr>wst_received := rest\<rparr>) c)"
  have d: "i < length (wc_streams d)" "ws_is_open (ws_stream d i)" "wst_fragments (ws_stream d i) = []" "wc_message d = wc_message c"
    "wst_received (ws_stream d i) = rest" "wst_inflight (ws_stream d i) = drop n (wst_inflight (ws_stream c i))"
    "message_frame d = message_frame c"
    using Cons.prems(1-3) by (simp_all add: d_def ws_answered_def ws_upd_def Let_def ws_is_open_def message_frame_def fun_eq_iff)
  have "ws_receive hexatoi i chunks d = ws_answered i (length (wst_inflight (ws_stream d i))) (ws_upd i (\<lambda>s. s\<lparr>wst_received := []\<rparr>) d)"
    using Cons.IH [of d] Cons.prems(4) d n(2,3) by (simp add: echo_stream_def drop_map)
  also have "\<dots> = ws_answered i (length (wst_inflight (ws_stream c i))) (ws_upd i (\<lambda>s. s\<lparr>wst_received := []\<rparr>) c)"
    using Cons.prems(1) n(4)
    by (simp add: d_def ws_answered_def ws_upd_def Let_def flip: map_append)
  finally show ?case using n(1) by (simp add: d_def)
qed

subsection \<open>Properties\<close>

text \<open>Abseil: a string of lower case letters has nothing to strip, a string equals itself whatever its case, and one without the delimiter is not split.\<close>

definition tokens_documented :: "'z third_party_scheme \<Rightarrow> bool" where
  "tokens_documented lib \<longleftrightarrow>
     (\<forall>s. list_all is_lower s \<longrightarrow> StripAsciiWhitespace lib s = s) \<and>
     (\<forall>s. EqualsIgnoreCase lib s s) \<and>
     (\<forall>d s. d \<notin> set s \<longrightarrow> StrSplit lib d s = [s])"

text \<open>
  C9: client and echo filter work together. For a reachable client and one of its open connections: the
  filter answers the upgrade request with headers the client accepts; the messages in flight were written to
  the connection; and when their frames, under any masks, reach the filter in pieces of whole frames, and the
  bytes of its answers come back cut in any way, then the client completes every one of them successfully and
  in order, with no unexpected message, no protocol error and nothing left in flight or buffered.
\<close>

theorem websocket_echo_end_to_end:
  assumes "mk_WsStreamClient streams limit drain open_timeout binary now = Inr c0" "(ws_step lib sha1 base64 hexatoi)\<^sup>*\<^sup>* c0 c"
    and "i < wc_stream_count c" "wst_state (ws_stream c i) = WOpen" "wst_received (ws_stream c i) = []" "wst_fragments (ws_stream c i) = []"
    and "hexatoi_documented hexatoi" "tokens_documented lib" "16 + length (wc_message c) \<le> kMaxPayloadLength"
    and "list_all (\<lambda>key. length key = 4) keys" "length keys = length (wst_inflight (ws_stream c i))"
    and "concat calls = zip (map Some keys) (map (\<lambda>m. message_frame c (wm_sequence m)) (wst_inflight (ws_stream c i)))"
    and "f = echo_decodeHeaders sha1 base64 True [wst_key (ws_stream c i)] fresh_echo_filter"
    and "concat chunks = reply_bytes (ef_replies (echo_calls (map frame_bytes calls) f))"
    and "c' = ws_receive hexatoi i chunks c"
  shows "(\<exists>r. ef_replies f = [EncodeHeaders r] \<and> upgrade_accepted lib sha1 base64 (wst_key (ws_stream c i)) r) \<and>
    subseq (map snd (concat calls)) (wst_written (ws_stream c i)) \<and>
    wst_inflight (ws_stream c' i) = [] \<and> wst_received (ws_stream c' i) = [] \<and> wst_state (ws_stream c' i) = WOpen \<and>
    wc_callbacks c' = wc_callbacks c @ map (\<lambda>m. (wm_callback m, True)) (wst_inflight (ws_stream c i)) \<and>
    wc_counters c' = (wc_counters c)(W_stream_messages_received :=
      wc_counters c W_stream_messages_received + length (wst_inflight (ws_stream c i)))"
proof -
  let ?q = "wst_inflight (ws_stream c i)" and ?frame = "\<lambda>m. message_frame c (wm_sequence m)"
  have ok: "ws_ok c" using ws_account.reachable_inv [OF assms(2)] assms(1) unfolding ws_initial_def by blast
  note conn = ws_okD(3) [OF ok assms(3)] and len = ws_okD(1) [OF ok]
  have frames: "map snd (concat calls) = map ?frame ?q" using assms(11,12) by simp
  have calls: "list_all sendable calls" "list_all (list_all (\<lambda>(key, f). opcode f \<in> {Text, Binary, Continuation})) calls"
  proof -
    have from_calls: "key \<in> Some ` set keys \<and> g \<in> range (message_frame c)" if "call \<in> set calls" "(key, g) \<in> set call" for call key g
    proof -
      have "(key, g) \<in> set (concat calls)" using that by auto
      then have "(key, g) \<in> set (zip (map Some keys) (map ?frame ?q))" unfolding assms(12) .
      from set_zip_leftD [OF this] set_zip_rightD [OF this] show ?thesis by auto
    qed
    have elements: "key_ok key \<and> well_formed g \<and> opcode g \<in> {Text, Binary, Continuation}"
      if "call \<in> set calls" "(key, g) \<in> set call" for call key g
    proof -
      from from_calls [OF that] obtain k w where "key = Some k" "k \<in> set keys" "g = message_frame c w" by auto
      then show ?thesis using assms(10) sendable_message [OF assms(9), of w] by (auto simp: key_ok_def list_all_iff message_frame_def)
    qed
    show "list_all sendable calls" using elements by (auto simp: list_all_iff sendable_def)
    show "list_all (list_all (\<lambda>(key, f). opcode f \<in> {Text, Binary, Continuation})) calls"
      using elements unfolding list_all_iff by (auto split: prod.splits)
  qed
  have f: "ef_upgraded f" "\<not> ef_closed f" "reply_bytes (ef_replies f) = []"
    by (simp_all add: assms(13) echo_decodeHeaders_def echo_reply_def fresh_echo_filter_def)
  have "ef_replies (echo_calls (map frame_bytes calls) f) =
      ef_replies f @ map (\<lambda>g. EncodeData (encodeFrame None g) False) (map snd (concat calls))"
    by (simp add: echo_calls_whole [OF calls f(1,2)])
  then have "concat chunks = frame_bytes (map (\<lambda>g. (None, g)) (map snd (concat calls)))"
    unfolding assms(14) by (simp only: reply_bytes_append reply_bytes_data f(3) append_Nil)
  then have "concat chunks = frame_bytes (echo_stream i c)" unfolding frames by (simp add: echo_stream_def comp_def)
  then have c': "c' = ws_answered i (length ?q) (ws_upd i (\<lambda>s. s\<lparr>wst_received := []\<rparr>) c)"
    unfolding assms(15) using assms(3,4,5,6,9) len
    by (intro ws_receive_echo [OF assms(7)]) (simp_all add: ws_is_open_def feed.simps [of "[]"])
  have "list_all is_lower ''upgrade''" by code_simp
  then have "upgrade_accepted lib sha1 base64 (wst_key (ws_stream c i)) \<lparr>ur_status = 101, ur_upgrade = Some ''websocket'',
      ur_connection = Some ''upgrade'', ur_accept = [acceptKey sha1 base64 (wst_key (ws_stream c i))]\<rparr>"
    using assms(8) by (simp add: upgrade_accepted_def tokens_documented_def)
  then have "\<exists>r. ef_replies f = [EncodeHeaders r] \<and> upgrade_accepted lib sha1 base64 (wst_key (ws_stream c i)) r"
    by (simp add: assms(13) echo_decodeHeaders_def echo_reply_def fresh_echo_filter_def)
  moreover have "subseq (map snd (concat calls)) (wst_written (ws_stream c i))"
    using conn unfolding frames by (simp add: conn_ok_def)
  moreover have "wst_inflight (ws_stream c' i) = []" "wst_received (ws_stream c' i) = []" "wst_state (ws_stream c' i) = WOpen"
      "wc_callbacks c' = wc_callbacks c @ map (\<lambda>m. (wm_callback m, True)) ?q"
      "wc_counters c' = (wc_counters c)(W_stream_messages_received := wc_counters c W_stream_messages_received + length ?q)"
    using assms(3) by (simp_all add: c' ws_answered_def ws_upd_def Let_def len assms(4))
  ultimately show ?thesis by blast
qed

text \<open>
  C39: the echo filter loses frames that are cut. A data frame that reaches it in one call is sent back; when
  its bytes arrive in two calls, the filter forgets the first part and goes on as if the second part were the
  start of a frame.
\<close>

theorem echo_filter_loses_cut_frame:
  assumes "well_formed frame" "key_ok key" "opcode frame \<in> {Text, Binary, Continuation}"
    and "first @ second = encodeFrame key frame" "second \<noteq> []" "ef_upgraded f" "\<not> ef_closed f"
  shows "echo_calls [first @ second] f = f\<lparr>ef_replies := ef_replies f @ [EncodeData (encodeFrame None frame) False]\<rparr> \<and>
    echo_calls [first, second] f = echo_calls [second] f"
proof -
  have "feed first [] = (True, first, [])" by (rule feed_partial [OF assms(1,2,4,5)])
  then have "echo_decodeData first False f = f" by (simp add: echo_decodeData_def)
  moreover have "echo_decodeData (frame_bytes [(key, frame)]) False f =
      f\<lparr>ef_replies := ef_replies f @ [EncodeData (encodeFrame None frame) False]\<rparr>"
    using echo_call_whole [of "[(key, frame)]" f] assms by (simp add: sendable_def)
  ultimately show ?thesis using assms(4) by (simp add: frame_bytes_def)
qed

subsection \<open>A client with one connection\<close>

definition read_hex :: "byte \<Rightarrow> nat" where
  "read_hex b = (if unat b < 58 then unat b - 48 else unat b - 87)"

definition sample_hexatoi :: "byte list \<Rightarrow> 64 word option" where
  "sample_hexatoi bytes = Some (word_of_nat (foldl (\<lambda>a d. a * 16 + d) 0 (map read_hex bytes)))"

lemma sample_hexatoi_documented: "hexatoi_documented sample_hexatoi"
proof -
  have "list_all (\<lambda>d. read_hex (hex_digit d) = d) [0..<16]" by code_simp
  then have "read_hex (hex_digit d) = d" if "d < 16" for d using that by (simp add: list_all_iff)
  then have "map read_hex (map hex_digit ds) = ds" if "list_all (\<lambda>d. d < 16) ds" for ds
    using that by (induction ds) simp_all
  then show ?thesis by (simp add: hexatoi_documented_def sample_hexatoi_def del: map_map)
qed

definition sample_ws :: WsStreamClient where
  "sample_ws =
     \<lparr>wc_counters = (\<lambda>_. 0), wc_latency = [], wc_stream_count = 1, wc_max_inflight = 2,
      wc_drain_duration = 0, wc_open_timeout = one_second, wc_binary = False, wc_streams = [fresh_connection], wc_message = [],
      wc_next_sequence = 0, wc_next_stream = 0, wc_pending_opens = 0, wc_measure_latencies = False, wc_waiting_for = WWaitNothing,
      wc_wait_timer = None, wc_finished = False, wc_now = 0, wc_started = 0, wc_prepared = 0, wc_posted = [], wc_callbacks = [], wc_exit = False\<rparr>"

definition sample_ws_opening :: WsStreamClient where
  "sample_ws_opening = ws_prepare_open (WsPoolReady True) ''key'' (sample_ws\<lparr>wc_message := [0x78]\<rparr>)"

definition sample_response :: upgrade_response where
  "sample_response = \<lparr>ur_status = 101, ur_upgrade = Some ''websocket'', ur_connection = Some ''upgrade'', ur_accept = [''accepted'']\<rparr>"

lemma sample_response_accepted: "upgrade_accepted sample_lib (\<lambda>_. []) (\<lambda>_. ''accepted'') key sample_response"
  by (simp add: upgrade_accepted_def sample_response_def acceptKey_def sample_lib_def lower_char_def isspace_def)

definition sample_ws_upgraded :: WsStreamClient where
  "sample_ws_upgraded = ws_maybeExitWaitLoop (ws_inc W_streams_opened (ws_upd 0 (\<lambda>s. s\<lparr>wst_state := WOpen\<rparr>)
     (sample_ws_opening\<lparr>wc_pending_opens := wc_pending_opens sample_ws_opening - 1\<rparr>)))"

lemma sample_ws_upgraded:
  "ws_onResponseHeaders sample_lib (\<lambda>_. []) (\<lambda>_. ''accepted'') 0 sample_response False sample_ws_opening = sample_ws_upgraded"
proof -
  have "wst_state (ws_stream sample_ws_opening 0) = WOpening" by code_simp
  then show ?thesis by (simp add: ws_onResponseHeaders_def sample_response_accepted sample_ws_upgraded_def)
qed

definition sample_ws_sent :: WsStreamClient where
  "sample_ws_sent = ws_sent sample_ws_upgraded"

lemma sample_ws_upgraded_facts:
  "wc_stream_count sample_ws_upgraded = 1" "wc_next_stream sample_ws_upgraded = 0" "length (wc_streams sample_ws_upgraded) = 1"
  "wst_state (ws_stream sample_ws_upgraded 0) = WOpen" "wst_received (ws_stream sample_ws_upgraded 0) = []"
  "wst_fragments (ws_stream sample_ws_upgraded 0) = []" "wc_message sample_ws_upgraded = [0x78]"
  "wst_key (ws_stream sample_ws_upgraded 0) = ''key''" "wst_inflight (ws_stream sample_ws_upgraded 0) = []"
  "\<not> wst_write_blocked (ws_stream sample_ws_upgraded 0)" "wc_max_inflight sample_ws_upgraded = 2" "wc_next_sequence sample_ws_upgraded = 0"
  "wc_counters sample_ws_upgraded W_stream_messages_sent = 0" "wc_counters sample_ws_upgraded W_stream_messages_received = 0"
  "wc_counters sample_ws_upgraded W_stream_inflight_lost = 0"
  by code_simp+

lemma sample_ws_request: "ws_tryStartRequest sample_ws_upgraded = sample_ws_sent"
  by (simp add: ws_request_eq sample_ws_upgraded_facts sample_ws_sent_def)

lemma sample_ws_sent_facts:
  "wc_stream_count sample_ws_sent = 1"
  "wst_state (ws_stream sample_ws_sent 0) = WOpen" "wst_received (ws_stream sample_ws_sent 0) = []"
  "wst_fragments (ws_stream sample_ws_sent 0) = []" "wc_message sample_ws_sent = [0x78]"
  "wst_key (ws_stream sample_ws_sent 0) = ''key''" "map wm_sequence (wst_inflight (ws_stream sample_ws_sent 0)) = [0]"
  "wc_counters sample_ws_sent W_stream_messages_sent = 1" "wc_counters sample_ws_sent W_stream_messages_received = 0"
  "wc_counters sample_ws_sent W_stream_inflight_lost = 0"
  using sample_ws_upgraded_facts by (simp_all add: sample_ws_sent_def ws_sent_def ws_inc_def ws_upd_def)

lemma sample_ws_made: "mk_WsStreamClient 1 2 0 one_second False 0 = Inr sample_ws"
  by (simp add: mk_WsStreamClient_def sample_ws_def)

lemma sample_ws_reachable: "(ws_step sample_lib (\<lambda>_. []) (\<lambda>_. ''accepted'') sample_hexatoi)\<^sup>*\<^sup>* sample_ws sample_ws_sent"
proof -
  let ?step = "ws_step sample_lib (\<lambda>_. []) (\<lambda>_. ''accepted'') sample_hexatoi"
  have "ws_prepare_begin (Some [0x78]) sample_ws = Inr (sample_ws\<lparr>wc_message := [0x78]\<rparr>)" by (simp add: ws_prepare_begin_def)
  then have "?step sample_ws (sample_ws\<lparr>wc_message := [0x78]\<rparr>)" by (rule ws_step.ws_prepare_begin [rotated]) (simp add: sample_ws_def)
  moreover have "?step (sample_ws\<lparr>wc_message := [0x78]\<rparr>) sample_ws_opening"
    unfolding sample_ws_opening_def by (rule ws_step.ws_prepare_open) (simp_all add: sample_ws_def)
  moreover have "wc_stream_count sample_ws_opening = 1" "wst_encoder (ws_stream sample_ws_opening 0)" by code_simp+
  then have "?step sample_ws_opening sample_ws_upgraded"
    unfolding sample_ws_upgraded [symmetric] by (intro ws_step.ws_headers) simp_all
  ultimately show ?thesis unfolding sample_ws_request [symmetric]
    by (meson converse_rtranclp_into_rtranclp rtranclp.rtrancl_refl ws_step.ws_request)
qed

text \<open>The message is in flight, then echoed byte by byte.\<close>

theorem websocket_echo_end_to_end_witness:
  "let f = echo_decodeHeaders (\<lambda>_. []) (\<lambda>_. ''accepted'') True [''key''] fresh_echo_filter;
       sent = (Some [1, 2, 3, 4], message_frame sample_ws_sent 0);
       answer = map (\<lambda>b. [b]) (reply_bytes (ef_replies (echo_calls [frame_bytes [sent]] f)))
   in wst_inflight (ws_stream sample_ws_sent 0) \<noteq> [] \<and> wst_inflight (ws_stream (ws_receive sample_hexatoi 0 answer sample_ws_sent) 0) = []"
proof -
  let ?c = sample_ws_sent and ?f = "echo_decodeHeaders (\<lambda>_. []) (\<lambda>_. ''accepted'') True [''key''] fresh_echo_filter"
  let ?calls = "[[(Some [1, 2, 3, 4], message_frame ?c 0)]]"
  let ?answer = "map (\<lambda>b. [b]) (reply_bytes (ef_replies (echo_calls (map frame_bytes ?calls) ?f)))"
  note c = sample_ws_sent_facts(1-6)
  obtain m where q: "wst_inflight (ws_stream ?c 0) = [m]" "wm_sequence m = 0" using sample_ws_sent_facts(7) by auto
  have tokens: "tokens_documented sample_lib"
  proof -
    have "\<not> isspace x" if "is_lower x" for x using that by (auto simp: is_lower_def isspace_def)
    then have "dropWhile isspace s = s" if "list_all is_lower s" for s using that by (cases s) auto
    moreover have "split_at d s = [s]" if "d \<notin> set s" for d s using that by (induction s) auto
    ultimately show ?thesis by (simp add: tokens_documented_def sample_lib_def list_all_iff)
  qed
  have hyps: "0 < wc_stream_count ?c" "16 + length (wc_message ?c) \<le> kMaxPayloadLength" "list_all (\<lambda>key. length key = 4) [[1, 2, 3, 4 :: byte]]"
      "length [[1, 2, 3, 4 :: byte]] = length (wst_inflight (ws_stream ?c 0))"
      "concat ?calls = zip (map Some [[1, 2, 3, 4]]) (map (\<lambda>m. message_frame ?c (wm_sequence m)) (wst_inflight (ws_stream ?c 0)))"
      "?f = echo_decodeHeaders (\<lambda>_. []) (\<lambda>_. ''accepted'') True [wst_key (ws_stream ?c 0)] fresh_echo_filter"
    by (simp_all add: c q kMaxPayloadLength_def)
  have "concat ?answer = reply_bytes (ef_replies (echo_calls (map frame_bytes ?calls) ?f))" by (simp only: concat_map_singleton map_ident)
  from websocket_echo_end_to_end [OF sample_ws_made sample_ws_reachable hyps(1) c(2-4) sample_hexatoi_documented tokens
      hyps(2-6) this refl]
  show ?thesis using q by (simp add: Let_def del: echo_calls.simps ws_receive.simps)
qed

theorem ws_messages_accounted_witness:
  "wc_counters sample_ws_sent W_stream_messages_sent = 1 \<and> (\<Sum>s\<leftarrow>wc_streams sample_ws_sent. length (wst_inflight s)) = 1"
proof -
  show ?thesis using ws_messages_accounted [OF sample_ws_made sample_ws_reachable] sample_ws_sent_facts(8-10) by simp
qed

text \<open>A text frame with payload 'Hi' cut after its first byte: the filter takes the rest for a new frame and closes.\<close>

theorem echo_filter_loses_cut_frame_witness:
  "let f = \<lparr>ef_upgraded = True, ef_closed = False, ef_replies = []\<rparr>
   in ef_replies (echo_calls [[0x81, 0x02, 0x48, 0x69]] f) = [EncodeData [0x81, 0x02, 0x48, 0x69] False] \<and>
      echo_calls [[0x81], [0x02, 0x48, 0x69]] f = echo_calls [[0x02, 0x48, 0x69]] f"
proof -
  let ?g = "\<lparr>fin = True, opcode = Text, payload = [0x48, 0x69]\<rparr>"
  let ?f = "\<lparr>ef_upgraded = True, ef_closed = False, ef_replies = []\<rparr>"
  have g: "well_formed ?g" "key_ok None" by (simp_all add: well_formed_def isControl_def kMaxPayloadLength_def word_le_nat_alt key_ok_def)
  have unmasked: "encodeFrame None ?g = [0x81, 0x02, 0x48, 0x69]" by (simp add: encodeFrame_def length_header_def)
  then have "[0x81] @ [0x02, 0x48, 0x69] = encodeFrame None ?g" by simp
  note lost = echo_filter_loses_cut_frame [OF g _ this, of ?f]
  show ?thesis using lost by (simp add: unmasked del: echo_calls.simps)
qed

end
