(* ===== verification/UdpClient.thy ===== *)
theory UdpClient
  imports WsStream
begin

text \<open>
  The UDP client (\<^verbatim>\<open>client/udp_benchmark_client_impl.cc\<close>): one connected datagram socket, datagrams prefixed with
  a sequence number and matched by it, a periodic sweep that gives up on old ones, and the drain at the end.
  The socket and the dispatcher are a step relation. Abseil's \<open>SimpleHexAtoi\<close> is a parameter.
\<close>

subsection \<open>State\<close>

datatype udp_counter =
    U_datagrams_sent | U_datagrams_received | U_lost | U_unexpected | U_send_errors | U_deferred | U_unavailable

record UdpDatagram =
  ud_sent_at :: nanos
  ud_callback :: nat

text \<open>
  The ordered map of datagrams in flight is a list of pairs in key order. Beside the members of the client
  the state has the clock, the posted and the executed callbacks, whether \<open>finish\<close> runs the dispatcher,
  whether that was asked to exit, the number of requests, and how often \<open>prepare\<close> found no socket.
\<close>

record UdpBenchmarkClient =
  uc_counters :: "udp_counter \<Rightarrow> nat"
  uc_latency :: "sample list"
  uc_max_inflight :: nat
  uc_timeout :: nanos
  uc_drain_duration :: nanos
  uc_socket :: bool
  uc_sweep_timer :: "nanos option option"
  uc_drain_timer :: "nanos option"
  uc_message :: "byte list"
  uc_inflight :: "(64 word \<times> UdpDatagram) list"
  uc_next_sequence :: "64 word"
  uc_measure_latencies :: bool
  uc_draining :: bool
  uc_finished :: bool
  uc_now :: nanos
  uc_started :: nat
  uc_posted :: "(nat \<times> bool) list"
  uc_callbacks :: "(nat \<times> bool) list"
  uc_waiting :: bool
  uc_exit :: bool
  uc_setup_failures :: nat

definition kSweepInterval :: nanos where "kSweepInterval = 50 * one_millisecond"

definition kReadBufferSize :: nat where "kReadBufferSize = 65536"

definition mk_UdpBenchmarkClient :: "nat \<Rightarrow> nanos \<Rightarrow> nanos \<Rightarrow> nanos \<Rightarrow> UdpBenchmarkClient result" where
  "mk_UdpBenchmarkClient inflight_limit timeout drain now =
     (if inflight_limit = 0 then Inl (Panic ''max_inflight must be positive'')
      else if timeout \<le> 0 then Inl (Panic ''timeout must be positive'')
      else Inr
        \<lparr>uc_counters = (\<lambda>_. 0), uc_latency = [], uc_max_inflight = inflight_limit, uc_timeout = timeout, uc_drain_duration = drain,
         uc_socket = False, uc_sweep_timer = None, uc_drain_timer = None, uc_message = [], uc_inflight = [], uc_next_sequence = 0,
         uc_measure_latencies = False, uc_draining = False, uc_finished = False, uc_now = now, uc_started = 0, uc_posted = [],
         uc_callbacks = [], uc_waiting = False, uc_exit = False, uc_setup_failures = 0\<rparr>)"

definition create_udp_client :: "OptionsImpl \<Rightarrow> nanos \<Rightarrow> UdpBenchmarkClient result" where
  "create_udp_client opt now =
     mk_UdpBenchmarkClient (o_udp_max_inflight opt) (o_udp_timeout opt) (o_stream_drain_duration opt) now"

definition udp_inc :: "udp_counter \<Rightarrow> UdpBenchmarkClient \<Rightarrow> UdpBenchmarkClient" where
  "udp_inc k c = c\<lparr>uc_counters := (uc_counters c)(k := uc_counters c k + 1)\<rparr>"

subsection \<open>Operations\<close>

text \<open>\<open>prepare\<close>: no message is a fatal error; without a host, an open socket or a connection there is no socket.\<close>

definition udp_prepare :: "byte list option \<Rightarrow> bool \<Rightarrow> bool \<Rightarrow> bool \<Rightarrow> UdpBenchmarkClient \<Rightarrow> UdpBenchmarkClient result" where
  "udp_prepare generated has_host is_open connect_ok c =
     (case generated of
        None \<Rightarrow> Inl (Panic ''the request source did not yield a request'')
      | Some body \<Rightarrow>
          let c = c\<lparr>uc_message := body\<rparr>
          in if \<not> has_host \<or> \<not> is_open \<or> \<not> connect_ok
             then Inr ((udp_inc U_unavailable c)\<lparr>uc_setup_failures := uc_setup_failures c + 1\<rparr>)
             else Inr (c\<lparr>uc_socket := True, uc_sweep_timer := Some (Some (uc_now c + kSweepInterval))\<rparr>))"

text \<open>\<open>std::map::emplace\<close>: an existing key is kept.\<close>

fun udp_emplace :: "64 word \<Rightarrow> UdpDatagram \<Rightarrow> (64 word \<times> UdpDatagram) list \<Rightarrow> (64 word \<times> UdpDatagram) list" where
  "udp_emplace k d [] = [(k, d)]"
| "udp_emplace k d ((k', d') # ds) =
     (if k < k' then (k, d) # (k', d') # ds else if k = k' then (k', d') # ds else (k', d') # udp_emplace k d ds)"

definition udp_drop :: "udp_counter \<Rightarrow> nat \<Rightarrow> UdpBenchmarkClient \<Rightarrow> UdpBenchmarkClient" where
  "udp_drop k request c = (udp_inc k c)\<lparr>uc_posted := uc_posted c @ [(request, False)]\<rparr>"

definition udp_tryStartRequest :: "bool \<Rightarrow> UdpBenchmarkClient \<Rightarrow> UdpBenchmarkClient" where
  "udp_tryStartRequest write_ok c =
     (let request = uc_started c; c = c\<lparr>uc_started := uc_started c + 1\<rparr>
      in if \<not> uc_socket c \<or> uc_draining c then udp_drop U_unavailable request c
         else if length (uc_inflight c) \<ge> uc_max_inflight c then udp_drop U_deferred request c
         else
           let sequence = uc_next_sequence c; c = c\<lparr>uc_next_sequence := uc_next_sequence c + 1\<rparr>
           in if \<not> write_ok then udp_drop U_send_errors request c
              else (udp_inc U_datagrams_sent c)\<lparr>uc_inflight :=
                     udp_emplace sequence \<lparr>ud_sent_at = uc_now c, ud_callback = request\<rparr> (uc_inflight c)\<rparr>)"

definition udp_exit_if_drained :: "UdpBenchmarkClient \<Rightarrow> UdpBenchmarkClient" where
  "udp_exit_if_drained c = (if uc_draining c \<and> uc_inflight c = [] then c\<lparr>uc_exit := True\<rparr> else c)"

definition onDatagram :: "(byte list \<Rightarrow> 64 word option) \<Rightarrow> byte list \<Rightarrow> UdpBenchmarkClient \<Rightarrow> UdpBenchmarkClient" where
  "onDatagram hexatoi bytes c =
     (case (if length bytes < kSequencePrefixLength then None else hexatoi (take kSequencePrefixLength bytes)) of
        None \<Rightarrow> udp_inc U_unexpected c
      | Some sequence \<Rightarrow>
          if drop kSequencePrefixLength bytes \<noteq> uc_message c then udp_inc U_unexpected c
          else
            case map_of (uc_inflight c) sequence of
              None \<Rightarrow> udp_inc U_unexpected c
            | Some d \<Rightarrow>
                let c = udp_inc U_datagrams_received (c\<lparr>uc_inflight := filter (\<lambda>(k, _). k \<noteq> sequence) (uc_inflight c)\<rparr>);
                    c = (if uc_measure_latencies c
                         then c\<lparr>uc_latency := uc_latency c @ [word_of_int (uc_now c - ud_sent_at d)]\<rparr> else c);
                    c = c\<lparr>uc_callbacks := uc_callbacks c @ [(ud_callback d, True)]\<rparr>
                in udp_exit_if_drained c)"

text \<open>What the reads bring; a read that fails or brings nothing ends the loop.\<close>

fun onReadable :: "(byte list \<Rightarrow> 64 word option) \<Rightarrow> byte list option list \<Rightarrow> UdpBenchmarkClient \<Rightarrow> UdpBenchmarkClient" where
  "onReadable hexatoi [] c = c"
| "onReadable hexatoi (r # reads) c =
     (if \<not> uc_socket c then c
      else case r of
             None \<Rightarrow> c
           | Some bytes \<Rightarrow>
               if bytes = [] then c
               else onReadable hexatoi reads (onDatagram hexatoi (take kReadBufferSize bytes) c))"

fun sweep_loop :: "(64 word \<times> UdpDatagram) list \<Rightarrow> UdpBenchmarkClient \<Rightarrow> UdpBenchmarkClient" where
  "sweep_loop [] c = c\<lparr>uc_inflight := []\<rparr>"
| "sweep_loop ((k, d) # ds) c =
     (if uc_now c - ud_sent_at d \<ge> uc_timeout c
      then let c = udp_inc U_lost (c\<lparr>uc_inflight := ds\<rparr>)
           in sweep_loop ds (c\<lparr>uc_callbacks := uc_callbacks c @ [(ud_callback d, False)]\<rparr>)
      else c\<lparr>uc_inflight := (k, d) # ds\<rparr>)"

definition sweep :: "UdpBenchmarkClient \<Rightarrow> UdpBenchmarkClient" where
  "sweep c =
     (let c = sweep_loop (uc_inflight c) c
      in if uc_draining c \<and> uc_inflight c = [] then c\<lparr>uc_exit := True\<rparr>
         else if uc_sweep_timer c \<noteq> None then c\<lparr>uc_sweep_timer := Some (Some (uc_now c + kSweepInterval))\<rparr>
         else c)"

fun complete_datagrams :: "bool \<Rightarrow> (64 word \<times> UdpDatagram) list \<Rightarrow> UdpBenchmarkClient \<Rightarrow> UdpBenchmarkClient" where
  "complete_datagrams success [] c = c"
| "complete_datagrams success ((k, d) # ds) c =
     (let c = c\<lparr>uc_inflight := ds\<rparr>;
          c = (if \<not> success then udp_inc U_lost c else c)
      in complete_datagrams success ds (c\<lparr>uc_callbacks := uc_callbacks c @ [(ud_callback d, success)]\<rparr>))"

definition completeAll :: "bool \<Rightarrow> UdpBenchmarkClient \<Rightarrow> UdpBenchmarkClient" where
  "completeAll success c = complete_datagrams success (uc_inflight c) c"

definition udp_ceil_ms :: "nanos \<Rightarrow> nanos" where
  "udp_ceil_ms d = - (- d div one_millisecond) * one_millisecond"

text \<open>\<open>finish\<close> up to running the dispatcher, and from its return on.\<close>

definition udp_finish_rest :: "UdpBenchmarkClient \<Rightarrow> UdpBenchmarkClient" where
  "udp_finish_rest c = (completeAll False (c\<lparr>uc_drain_timer := None, uc_waiting := False\<rparr>))\<lparr>uc_sweep_timer := None\<rparr>"

definition udp_finish :: "UdpBenchmarkClient \<Rightarrow> UdpBenchmarkClient" where
  "udp_finish c =
     (if uc_finished c then c
      else
        let c = c\<lparr>uc_finished := True, uc_draining := True\<rparr>
        in if uc_inflight c \<noteq> [] \<and> uc_socket c
           then c\<lparr>uc_drain_timer := Some (uc_now c + udp_ceil_ms (min (uc_drain_duration c) (uc_timeout c))),
                  uc_waiting := True, uc_exit := False\<rparr>
           else udp_finish_rest c)"

definition udp_terminate_rest :: "UdpBenchmarkClient \<Rightarrow> UdpBenchmarkClient" where
  "udp_terminate_rest c = c\<lparr>uc_measure_latencies := False, uc_socket := False\<rparr>"

subsection \<open>The client on its dispatcher\<close>

text \<open>\<open>prepare\<close> runs before anything is sent, and fewer than \<open>2\<^sup>6\<^sup>4\<close> requests are made.\<close>

inductive udp_step :: "(byte list \<Rightarrow> 64 word option) \<Rightarrow> UdpBenchmarkClient \<Rightarrow> UdpBenchmarkClient \<Rightarrow> bool" for hexatoi where
  udp_tick: "uc_now c \<le> t \<Longrightarrow> udp_step hexatoi c (c\<lparr>uc_now := t\<rparr>)"
| udp_prepare: "udp_prepare generated has_host is_open connect_ok c = Inr c' \<Longrightarrow> uc_inflight c = [] \<Longrightarrow> \<not> uc_finished c \<Longrightarrow>
     udp_step hexatoi c c'"
| udp_request: "uc_started c + 1 < 2 ^ 64 \<Longrightarrow> udp_step hexatoi c (udp_tryStartRequest write_ok c)"
| udp_readable: "udp_step hexatoi c (onReadable hexatoi reads c)"
| udp_sweep: "uc_sweep_timer c = Some (Some due) \<Longrightarrow> due \<le> uc_now c \<Longrightarrow>
     udp_step hexatoi c (sweep (c\<lparr>uc_sweep_timer := Some None\<rparr>))"
| udp_posted: "uc_posted c = p # rest \<Longrightarrow> udp_step hexatoi c (c\<lparr>uc_posted := rest, uc_callbacks := uc_callbacks c @ [p]\<rparr>)"
| udp_measure: "udp_step hexatoi c (c\<lparr>uc_measure_latencies := b\<rparr>)"
| udp_finish: "\<not> uc_waiting c \<Longrightarrow> udp_step hexatoi c (udp_finish c)"
| udp_drained: "uc_waiting c \<Longrightarrow> uc_exit c \<or> (\<exists>due. uc_drain_timer c = Some due \<and> due \<le> uc_now c) \<Longrightarrow>
     udp_step hexatoi c (udp_finish_rest c)"
| udp_terminate: "uc_finished c \<Longrightarrow> \<not> uc_waiting c \<Longrightarrow> udp_step hexatoi c (udp_terminate_rest c)"

subsection \<open>The loops\<close>

definition too_old :: "UdpBenchmarkClient \<Rightarrow> 64 word \<times> UdpDatagram \<Rightarrow> bool" where
  "too_old c kd \<longleftrightarrow> uc_timeout c \<le> uc_now c - ud_sent_at (snd kd)"

definition udp_request_of :: "64 word \<times> UdpDatagram \<Rightarrow> nat" where
  "udp_request_of kd = ud_callback (snd kd)"

text \<open>Losing some of the datagrams in flight.\<close>

definition udp_lose :: "(64 word \<times> UdpDatagram) list \<Rightarrow> (64 word \<times> UdpDatagram) list \<Rightarrow> UdpBenchmarkClient \<Rightarrow> UdpBenchmarkClient" where
  "udp_lose lost kept c = c\<lparr>uc_inflight := kept,
     uc_counters := (uc_counters c)(U_lost := uc_counters c U_lost + length lost),
     uc_callbacks := uc_callbacks c @ map (\<lambda>kd. (udp_request_of kd, False)) lost\<rparr>"

lemma sweep_loop_eq: "sweep_loop ds c = udp_lose (takeWhile (too_old c) ds) (dropWhile (too_old c) ds) c"
proof (induction ds arbitrary: c)
  case (Cons kd ds)
  obtain k d where kd: "kd = (k, d)" by fastforce
  show ?case
  proof (cases "too_old c kd")
    case True
    define c' where "c' = (udp_inc U_lost (c\<lparr>uc_inflight := ds\<rparr>))\<lparr>uc_callbacks := uc_callbacks c @ [(ud_callback d, False)]\<rparr>"
    have old: "too_old c' = too_old c" by (rule ext) (simp add: too_old_def c'_def udp_inc_def)
    have "sweep_loop (kd # ds) c = sweep_loop ds c'"
      using True by (simp add: kd too_old_def c'_def Let_def udp_inc_def)
    then show ?thesis using Cons.IH [of c'] True
      by (simp add: old) (simp add: udp_lose_def c'_def udp_inc_def udp_request_of_def kd)
  next
    case False
    then show ?thesis by (simp add: kd too_old_def udp_lose_def)
  qed
qed (simp add: udp_lose_def)

lemma completeAll_eq: "completeAll False c = udp_lose (uc_inflight c) [] c"
proof -
  have "uc_inflight c = ds \<Longrightarrow> complete_datagrams False ds c = udp_lose ds [] c" for ds
  proof (induction ds arbitrary: c)
    case (Cons kd ds)
    obtain k d where kd: "kd = (k, d)" by fastforce
    show ?case
      using Cons.IH [of "(udp_inc U_lost (c\<lparr>uc_inflight := ds\<rparr>))\<lparr>uc_callbacks := uc_callbacks c @ [(ud_callback d, False)]\<rparr>"]
      by (simp add: kd Let_def) (simp add: udp_lose_def udp_inc_def udp_request_of_def)
  qed (simp add: udp_lose_def)
  then show ?thesis by (simp add: completeAll_def)
qed

lemma emplace_last: "\<forall>(k', d') \<in> set ds. k' < k \<Longrightarrow> udp_emplace k d ds = ds @ [(k, d)]"
  by (induction ds) (auto dest: less_asym)

subsection \<open>Well-formed clients\<close>

definition udp_ok :: "UdpBenchmarkClient \<Rightarrow> bool" where
  "udp_ok c \<longleftrightarrow>
     sorted_wrt (\<lambda>a b. fst a < fst b \<and> ud_sent_at (snd a) \<le> ud_sent_at (snd b)) (uc_inflight c) \<and>
     (\<forall>kd \<in> set (uc_inflight c). fst kd < uc_next_sequence c \<and> ud_sent_at (snd kd) \<le> uc_now c) \<and>
     unat (uc_next_sequence c) \<le> uc_started c \<and> uc_started c < 2 ^ 64 \<and>
     length (uc_inflight c) \<le> uc_max_inflight c \<and>
     (uc_finished c \<longrightarrow> uc_draining c) \<and> (uc_waiting c \<longrightarrow> uc_finished c) \<and>
     (uc_finished c \<and> \<not> uc_waiting c \<longrightarrow> uc_inflight c = [])"

definition udp_ledger :: "UdpBenchmarkClient \<Rightarrow> ledger" where
  "udp_ledger c =
     \<lparr>lg_started = uc_started c, lg_completed = mset (uc_callbacks c), lg_posted = mset (uc_posted c),
      lg_inflight = mset (map udp_request_of (uc_inflight c)), lg_sent = uc_counters c U_datagrams_sent,
      lg_dropped = uc_counters c U_deferred + uc_counters c U_send_errors + uc_counters c U_unavailable - uc_setup_failures c,
      lg_received = uc_counters c U_datagrams_received, lg_lost = uc_counters c U_lost\<rparr>"

text \<open>The setup failures are among the unavailable ones.\<close>

definition udp_setup_ok :: "UdpBenchmarkClient \<Rightarrow> bool" where
  "udp_setup_ok c \<longleftrightarrow> uc_setup_failures c \<le> uc_counters c U_unavailable"

definition udp_sim :: "UdpBenchmarkClient \<Rightarrow> UdpBenchmarkClient \<Rightarrow> bool" where
  "udp_sim c c' \<longleftrightarrow> (udp_ok c \<and> udp_setup_ok c \<longrightarrow>
     udp_ok c' \<and> udp_setup_ok c' \<and> ledger_step\<^sup>*\<^sup>* (udp_ledger c) (udp_ledger c'))"

lemma udp_sim_refl [simp]: "udp_sim c c"
  by (simp add: udp_sim_def)

lemma udp_sim_trans: "udp_sim c c1 \<Longrightarrow> udp_sim c1 c2 \<Longrightarrow> udp_sim c c2"
  by (auto simp: udp_sim_def)

text \<open>Changes the invariant and the ledger do not see.\<close>

lemma udp_sim_same:
  assumes "uc_inflight c' = uc_inflight c" "uc_next_sequence c' = uc_next_sequence c" "uc_now c \<le> uc_now c'"
    "uc_started c' = uc_started c" "uc_max_inflight c' = uc_max_inflight c" "uc_posted c' = uc_posted c" "uc_callbacks c' = uc_callbacks c"
    "uc_finished c' = uc_finished c" "uc_draining c' = uc_draining c" "uc_waiting c' = uc_waiting c"
    "uc_setup_failures c' = uc_setup_failures c" "\<forall>k. k \<noteq> U_unexpected \<longrightarrow> uc_counters c' k = uc_counters c k"
  shows "udp_sim c c'"
proof -
  have "udp_ok c \<Longrightarrow> udp_ok c'" using assms by (fastforce simp: udp_ok_def)
  moreover have "udp_ledger c' = udp_ledger c" using assms by (simp add: udp_ledger_def)
  moreover have "udp_setup_ok c \<Longrightarrow> udp_setup_ok c'" using assms by (simp add: udp_setup_ok_def)
  ultimately show ?thesis by (simp add: udp_sim_def)
qed

lemma udp_sim_lose:
  assumes "uc_inflight c = lost @ kept"
  shows "udp_sim c (udp_lose lost kept c)"
proof -
  have "udp_ok (udp_lose lost kept c)" if "udp_ok c"
    using that assms by (auto simp: udp_ok_def udp_lose_def sorted_wrt_append)
  moreover have "udp_ledger (udp_lose lost kept c) = lg_lose_all (map udp_request_of lost) (udp_ledger c)"
    using assms by (simp add: udp_ledger_def udp_lose_def lg_lose_all_def comp_def)
  moreover have "ledger_step\<^sup>*\<^sup>* (udp_ledger c) (lg_lose_all (map udp_request_of lost) (udp_ledger c))"
    by (rule lose_all_steps) (simp add: udp_ledger_def assms)
  ultimately show ?thesis by (simp add: udp_sim_def udp_setup_ok_def udp_lose_def)
qed

lemma udp_sim_sweep: "udp_sim c (sweep c)"
proof -
  have lost: "udp_sim c (sweep_loop (uc_inflight c) c)" unfolding sweep_loop_eq by (rule udp_sim_lose) simp
  moreover have "udp_sim d (d\<lparr>uc_exit := b\<rparr>)" "udp_sim d (d\<lparr>uc_sweep_timer := t\<rparr>)" for d b t
    by (rule udp_sim_same; simp)+
  ultimately show ?thesis unfolding sweep_def Let_def by (auto intro: udp_sim_trans)
qed

text \<open>An answered datagram.\<close>

definition udp_answer ::
    "(64 word \<times> UdpDatagram) \<Rightarrow> (64 word \<times> UdpDatagram) list \<Rightarrow> sample list \<Rightarrow> UdpBenchmarkClient \<Rightarrow> UdpBenchmarkClient" where
  "udp_answer kd kept latency c = c\<lparr>uc_inflight := kept,
     uc_counters := (uc_counters c)(U_datagrams_received := uc_counters c U_datagrams_received + 1),
     uc_latency := latency, uc_callbacks := uc_callbacks c @ [(udp_request_of kd, True)]\<rparr>"

lemma udp_sim_answer:
  assumes "uc_inflight c = before @ kd # after"
  shows "udp_sim c (udp_answer kd (before @ after) latency c)"
proof -
  have "udp_ok (udp_answer kd (before @ after) latency c)" if "udp_ok c"
    using that assms by (auto simp: udp_ok_def udp_answer_def sorted_wrt_append)
  moreover have "udp_ledger (udp_answer kd (before @ after) latency c) = lg_answer (udp_request_of kd) (udp_ledger c)"
    using assms by (simp add: udp_ledger_def udp_answer_def lg_answer_def)
  moreover have "ledger_step (udp_ledger c) (lg_answer (udp_request_of kd) (udp_ledger c))"
    by (rule ledger_answer) (simp add: udp_ledger_def assms)
  ultimately show ?thesis by (auto simp: udp_sim_def udp_setup_ok_def udp_answer_def)
qed

lemma udp_sim_inc: "udp_sim c (udp_inc U_unexpected c)"
  by (rule udp_sim_same) (simp_all add: udp_inc_def)

lemma sorted_keys_distinct:
  "sorted_wrt (\<lambda>a b. fst a < (fst b :: 64 word) \<and> ud_sent_at (snd a) \<le> ud_sent_at (snd b)) ds \<Longrightarrow> distinct (map fst ds)"
  by (induction ds) auto

lemma remove_key:
  assumes "distinct (map fst ds)" "map_of ds k = Some d"
  obtains before after where "ds = before @ (k, d) # after" "filter (\<lambda>(k', _). k' \<noteq> k) ds = before @ after"
proof -
  have "(k, d) \<in> set ds" using assms(2) by (rule map_of_SomeD)
  then obtain before after where ds: "ds = before @ (k, d) # after" by (meson split_list)
  then have "k \<notin> fst ` set before" "k \<notin> fst ` set after" using assms(1) by auto
  then have "filter (\<lambda>(k', _). k' \<noteq> k) before = before" "filter (\<lambda>(k', _). k' \<noteq> k) after = after"
    by (force intro!: filter_True)+
  then show ?thesis using that ds by simp
qed

lemma udp_sim_datagram: "udp_sim c (onDatagram hexatoi bytes c)"
proof (cases "udp_ok c")
  case True
  let ?seq = "if length bytes < kSequencePrefixLength then None else hexatoi (take kSequencePrefixLength bytes)"
  have drained: "udp_sim d (udp_exit_if_drained d)" for d
    by (rule udp_sim_same) (simp_all add: udp_exit_if_drained_def)
  consider "onDatagram hexatoi bytes c = udp_inc U_unexpected c"
    | sequence d where "?seq = Some sequence" "drop kSequencePrefixLength bytes = uc_message c" "map_of (uc_inflight c) sequence = Some d"
    by (cases ?seq; cases "drop kSequencePrefixLength bytes = uc_message c"; cases "map_of (uc_inflight c) (the ?seq)")
      (auto simp: onDatagram_def split: if_splits)
  then show ?thesis
  proof cases
    case 1
    then show ?thesis using udp_sim_inc by simp
  next
    case (2 sequence d)
    have "distinct (map fst (uc_inflight c))" by (rule sorted_keys_distinct) (use True in \<open>simp add: udp_ok_def\<close>)
    then obtain before after where split: "uc_inflight c = before @ (sequence, d) # after"
      "filter (\<lambda>(k', _). k' \<noteq> sequence) (uc_inflight c) = before @ after" using 2(3) by (rule remove_key)
    define latency where "latency = (if uc_measure_latencies c then uc_latency c @ [word_of_int (uc_now c - ud_sent_at d)] else uc_latency c)"
    have "onDatagram hexatoi bytes c = udp_exit_if_drained (udp_answer (sequence, d) (before @ after) latency c)"
      unfolding onDatagram_def 2(1) using 2(2,3) split(2)
      by (simp add: udp_answer_def latency_def udp_inc_def udp_request_of_def Let_def)
    then show ?thesis using udp_sim_trans [OF udp_sim_answer [OF split(1)] drained] by simp
  qed
qed (simp add: udp_sim_def)

lemma udp_sim_readable: "udp_sim c (onReadable hexatoi reads c)"
proof (induction reads arbitrary: c)
  case (Cons r reads)
  then show ?case by (auto intro: udp_sim_trans [OF udp_sim_datagram] split: option.split)
qed simp

text \<open>A request is dropped or its datagram is the last one in flight.\<close>

lemma udp_sim_drop:
  assumes "k \<in> {U_unavailable, U_deferred, U_send_errors}" "uc_started c + 1 < 2 ^ 64"
    and "n = uc_next_sequence c \<or> n = uc_next_sequence c + 1"
  shows "udp_sim c (udp_drop k (uc_started c) (c\<lparr>uc_started := uc_started c + 1, uc_next_sequence := n\<rparr>))"
proof -
  let ?d = "udp_drop k (uc_started c) (c\<lparr>uc_started := uc_started c + 1, uc_next_sequence := n\<rparr>)"
  have "udp_ok ?d" if ok: "udp_ok c"
  proof -
    have "unat (uc_next_sequence c) + 1 < 2 ^ 64" using ok assms(2) by (simp add: udp_ok_def)
    then have "unat (uc_next_sequence c + 1) = unat (uc_next_sequence c) + 1"
      using unat_add_lem [of "uc_next_sequence c" 1] by simp
    then have "uc_next_sequence c \<le> n" "unat n \<le> uc_started c + 1" using ok assms(3) by (auto simp: udp_ok_def word_le_nat_alt)
    then show ?thesis using ok assms(2) by (fastforce simp: udp_ok_def udp_drop_def udp_inc_def)
  qed
  moreover have "udp_ledger ?d = lg_drop (udp_ledger c)" if "udp_setup_ok c"
    using assms(1) that by (auto simp: udp_ledger_def udp_drop_def udp_inc_def lg_drop_def udp_setup_ok_def)
  ultimately show ?thesis using ledger_drop assms(1) by (auto simp: udp_sim_def udp_setup_ok_def udp_drop_def udp_inc_def)
qed

lemma udp_sim_sent:
  assumes "uc_started c + 1 < 2 ^ 64" "length (uc_inflight c) < uc_max_inflight c" "\<not> uc_draining c"
  shows "udp_sim c ((udp_inc U_datagrams_sent (c\<lparr>uc_started := uc_started c + 1, uc_next_sequence := uc_next_sequence c + 1\<rparr>))
    \<lparr>uc_inflight := udp_emplace (uc_next_sequence c) \<lparr>ud_sent_at = uc_now c, ud_callback = uc_started c\<rparr> (uc_inflight c)\<rparr>)"
    (is "udp_sim c ?d")
proof (cases "udp_ok c")
  case ok: True
  have "udp_emplace (uc_next_sequence c) \<lparr>ud_sent_at = uc_now c, ud_callback = uc_started c\<rparr> (uc_inflight c) =
      uc_inflight c @ [(uc_next_sequence c, \<lparr>ud_sent_at = uc_now c, ud_callback = uc_started c\<rparr>)]"
    by (rule emplace_last) (use ok in \<open>fastforce simp: udp_ok_def\<close>)
  then have d: "?d = c\<lparr>uc_started := uc_started c + 1, uc_next_sequence := uc_next_sequence c + 1,
      uc_counters := (uc_counters c)(U_datagrams_sent := uc_counters c U_datagrams_sent + 1),
      uc_inflight := uc_inflight c @ [(uc_next_sequence c, \<lparr>ud_sent_at = uc_now c, ud_callback = uc_started c\<rparr>)]\<rparr>"
    by (simp add: udp_inc_def)
  have "unat (uc_next_sequence c) + 1 < 2 ^ 64" using ok assms(1) by (simp add: udp_ok_def)
  then have next_seq: "unat (uc_next_sequence c + 1) = unat (uc_next_sequence c) + 1"
    using unat_add_lem [of "uc_next_sequence c" 1] by simp
  then have "udp_ok ?d" using ok assms unfolding d
    by (fastforce simp: udp_ok_def sorted_wrt_append word_less_nat_alt)
  moreover have "udp_ledger ?d = lg_send (udp_ledger c)"
    unfolding d by (simp add: udp_ledger_def lg_send_def udp_request_of_def)
  ultimately show ?thesis using ledger_send unfolding d by (auto simp: udp_sim_def udp_setup_ok_def)
qed (simp add: udp_sim_def)

lemma udp_sim_request:
  assumes "uc_started c + 1 < 2 ^ 64"
  shows "udp_sim c (udp_tryStartRequest write_ok c)"
proof -
  have same: "c\<lparr>uc_started := uc_started c + 1, uc_next_sequence := uc_next_sequence c\<rparr> = c\<lparr>uc_started := uc_started c + 1\<rparr>" by simp
  note drops = udp_sim_drop [OF _ assms, of _ "uc_next_sequence c", unfolded same]
    udp_sim_drop [OF _ assms, of _ "uc_next_sequence c + 1"]
  show ?thesis
    using drops udp_sim_sent [OF assms] by (simp add: udp_tryStartRequest_def Let_def not_le del: One_nat_def)
qed

lemma udp_sim_prepare:
  assumes "udp_prepare generated has_host is_open connect_ok c = Inr c'"
  shows "udp_sim c c'"
proof -
  have "udp_sim c ((udp_inc U_unavailable (c\<lparr>uc_message := body\<rparr>))\<lparr>uc_setup_failures := uc_setup_failures c + 1\<rparr>)" for body
    by (auto simp: udp_sim_def udp_ok_def udp_setup_ok_def udp_ledger_def udp_inc_def)
  moreover have "udp_sim c (c\<lparr>uc_message := body, uc_socket := b, uc_sweep_timer := t\<rparr>)" for body b t
    by (rule udp_sim_same) simp_all
  ultimately show ?thesis using assms by (auto simp: udp_prepare_def Let_def split: option.splits if_splits)
qed

text \<open>\<open>finish\<close> waits only with datagrams in flight, and whatever is left after it is lost.\<close>

lemma udp_finish_rest_good:
  assumes "udp_setup_ok c" "ledger_step\<^sup>*\<^sup>* l (udp_ledger c)" "uc_finished c" "uc_draining c"
    and "udp_ok (c\<lparr>uc_waiting := True\<rparr>)"
  shows "udp_ok (udp_finish_rest c) \<and> udp_setup_ok (udp_finish_rest c) \<and> ledger_step\<^sup>*\<^sup>* l (udp_ledger (udp_finish_rest c))"
proof -
  let ?c = "c\<lparr>uc_drain_timer := None, uc_waiting := True\<rparr>"
  have "udp_ok ?c" using assms(5) by (simp add: udp_ok_def)
  then have lost: "udp_sim ?c (udp_lose (uc_inflight c) [] ?c)" by (intro udp_sim_lose) simp
  have eq: "udp_finish_rest c = (udp_lose (uc_inflight c) [] ?c)\<lparr>uc_waiting := False, uc_sweep_timer := None\<rparr>"
    by (simp add: udp_finish_rest_def completeAll_eq udp_lose_def)
  have "udp_ledger ?c = udp_ledger c" "udp_ledger (udp_finish_rest c) = udp_ledger (udp_lose (uc_inflight c) [] ?c)"
    unfolding eq by (simp_all add: udp_ledger_def)
  moreover have "udp_ok (udp_finish_rest c)"
    using lost \<open>udp_ok ?c\<close> assms(1,3) unfolding eq by (auto simp: udp_sim_def udp_ok_def udp_setup_ok_def udp_lose_def)
  ultimately show ?thesis using lost \<open>udp_ok ?c\<close> assms(1,2)
    unfolding eq by (auto simp: udp_sim_def udp_setup_ok_def udp_lose_def intro: rtranclp_trans)
qed

lemma udp_sim_finish_rest: "uc_waiting c \<Longrightarrow> udp_sim c (udp_finish_rest c)"
proof -
  assume "uc_waiting c"
  then have "c\<lparr>uc_waiting := True\<rparr> = c" by simp
  then show ?thesis using udp_finish_rest_good [of c "udp_ledger c"] \<open>uc_waiting c\<close> by (auto simp: udp_sim_def udp_ok_def)
qed

lemma udp_sim_finish: "\<not> uc_waiting c \<Longrightarrow> udp_sim c (udp_finish c)"
proof -
  assume idle: "\<not> uc_waiting c"
  let ?c = "c\<lparr>uc_finished := True, uc_draining := True\<rparr>"
  have ledger: "udp_ledger ?c = udp_ledger c" by (simp add: udp_ledger_def)
  have "udp_sim c (?c\<lparr>uc_drain_timer := t, uc_waiting := True, uc_exit := b\<rparr>)" for t b
    by (auto simp: udp_sim_def udp_ok_def udp_setup_ok_def udp_ledger_def)
  moreover have "udp_sim c (udp_finish_rest ?c)"
    using udp_finish_rest_good [of ?c "udp_ledger c"] ledger by (auto simp: udp_sim_def udp_ok_def udp_setup_ok_def)
  ultimately show ?thesis by (simp add: udp_finish_def Let_def)
qed

lemma udp_step_sim: "udp_step hexatoi c c' \<Longrightarrow> udp_sim c c'"
proof (induction rule: udp_step.induct)
  case (udp_sweep c due)
  have "udp_sim c (c\<lparr>uc_sweep_timer := Some None\<rparr>)" by (rule udp_sim_same) simp_all
  then show ?case using udp_sim_sweep by (rule udp_sim_trans)
next
  case (udp_posted c p rest)
  then have "udp_ledger (c\<lparr>uc_posted := rest, uc_callbacks := uc_callbacks c @ [p]\<rparr>) = lg_run p (udp_ledger c)" "p \<in># lg_posted (udp_ledger c)"
    by (simp_all add: udp_ledger_def lg_run_def)
  then show ?case using ledger_run [of p "udp_ledger c"] by (auto simp: udp_sim_def udp_ok_def udp_setup_ok_def)
next
  case (udp_terminate c)
  show ?case by (rule udp_sim_same) (simp_all add: udp_terminate_rest_def)
qed (auto intro: udp_sim_prepare udp_sim_request udp_sim_readable udp_sim_finish udp_sim_finish_rest udp_sim_same)

subsection \<open>The client implements the specification\<close>

definition udp_initial :: "UdpBenchmarkClient \<Rightarrow> bool" where
  "udp_initial c \<longleftrightarrow> (\<exists>limit timeout drain now. mk_UdpBenchmarkClient limit timeout drain now = Inr c)"

interpretation udp_account: ledger_client udp_initial "udp_step hexatoi" "\<lambda>c. udp_ok c \<and> udp_setup_ok c" udp_ledger
  for hexatoi
proof unfold_locales
  fix c assume "udp_initial c"
  then show "udp_ok c \<and> udp_setup_ok c" "udp_ledger c = empty_ledger"
    by (auto simp: udp_initial_def mk_UdpBenchmarkClient_def udp_ok_def udp_setup_ok_def udp_ledger_def empty_ledger_def split: if_splits)
qed (use udp_step_sim in \<open>auto simp: udp_sim_def\<close>)

subsection \<open>Properties\<close>

text \<open>
  C10: the UDP client refines the message ledger, for every hexadecimal parser and every loss, duplication and
  reordering of datagrams. In every reachable state each request is completed, posted or in flight exactly
  once; it was sent, deferred, failed to be sent or found no socket; what was sent has been answered, lost or
  is in flight; success is reported exactly for the answered ones; the number in flight stays within the limit;
  and nothing is in flight once \<open>finish\<close> has returned.
\<close>

theorem udp_datagrams_accounted:
  assumes "mk_UdpBenchmarkClient limit timeout drain now = Inr c0" "(udp_step hexatoi)\<^sup>*\<^sup>* c0 c"
  shows "ledger_step\<^sup>*\<^sup>* empty_ledger (udp_ledger c) \<and>
    mset (map fst (uc_callbacks c)) + mset (map fst (uc_posted c)) + mset (map udp_request_of (uc_inflight c)) = mset [0..<uc_started c] \<and>
    uc_started c + uc_setup_failures c = uc_counters c U_datagrams_sent + uc_counters c U_deferred + uc_counters c U_send_errors +
      uc_counters c U_unavailable \<and>
    uc_counters c U_datagrams_sent = uc_counters c U_datagrams_received + uc_counters c U_lost + length (uc_inflight c) \<and>
    length (filter snd (uc_callbacks c)) = uc_counters c U_datagrams_received \<and>
    length (uc_inflight c) \<le> uc_max_inflight c \<and>
    (uc_finished c \<and> \<not> uc_waiting c \<longrightarrow> uc_inflight c = [])"
proof -
  have c0: "udp_initial c0" using assms(1) unfolding udp_initial_def by blast
  note ok = udp_account.reachable_inv [OF assms(2) c0]
  have "ledger_ok (udp_ledger c) \<longrightarrow> ?thesis"
    using ok udp_account.reachable_refines [OF assms(2) c0]
    by (auto simp: ledger_ok_def udp_ledger_def udp_ok_def udp_setup_ok_def simp flip: mset_filter mset_map simp del: mset_upt)
  then show ?thesis using udp_account.reachable_account [OF assms(2) c0] by blast
qed

text \<open>
  C11: the sweep, which stops at the first datagram that is still in time, gives up on exactly the datagrams
  that have been unanswered for the timeout: they are lost and completed as failures in order, and the others
  stay in flight, in every reachable state.
\<close>

theorem udp_sweep_exact:
  assumes "mk_UdpBenchmarkClient limit timeout drain now = Inr c0" "(udp_step hexatoi)\<^sup>*\<^sup>* c0 c"
    and old: "old = (\<lambda>(k, d). uc_timeout c \<le> uc_now c - ud_sent_at d)"
  shows "uc_inflight (sweep c) = filter (\<lambda>kd. \<not> old kd) (uc_inflight c) \<and>
    uc_callbacks (sweep c) = uc_callbacks c @ map (\<lambda>(k, d). (ud_callback d, False)) (filter old (uc_inflight c)) \<and>
    uc_counters (sweep c) = (uc_counters c)(U_lost := uc_counters c U_lost + length (filter old (uc_inflight c)))"
proof -
  have "udp_ok c" using udp_account.reachable_inv [OF assms(2)] assms(1) unfolding udp_initial_def by blast
  have old_eq: "old = too_old c" by (rule ext) (simp add: old too_old_def split_beta)
  have "takeWhile (too_old c) ds = filter (too_old c) ds \<and> dropWhile (too_old c) ds = filter (\<lambda>kd. \<not> too_old c kd) ds"
    if "sorted_wrt (\<lambda>a b. fst a < fst b \<and> ud_sent_at (snd a) \<le> ud_sent_at (snd b)) ds" for ds
    using that
  proof (induction ds)
    case (Cons kd ds)
    have "\<not> too_old c b" if "b \<in> set ds" "\<not> too_old c kd" for b using Cons.prems that by (force simp: too_old_def)
    then show ?case using Cons by (auto simp: filter_empty_conv intro!: filter_True [symmetric])
  qed simp
  then have split: "takeWhile (too_old c) (uc_inflight c) = filter (too_old c) (uc_inflight c)"
      "dropWhile (too_old c) (uc_inflight c) = filter (\<lambda>kd. \<not> too_old c kd) (uc_inflight c)"
    using \<open>udp_ok c\<close> by (auto simp: udp_ok_def)
  define d where "d = udp_lose (filter (too_old c) (uc_inflight c)) (filter (\<lambda>kd. \<not> too_old c kd) (uc_inflight c)) c"
  have "sweep c = (if uc_draining d \<and> uc_inflight d = [] then d\<lparr>uc_exit := True\<rparr>
      else if uc_sweep_timer d \<noteq> None then d\<lparr>uc_sweep_timer := Some (Some (uc_now d + kSweepInterval))\<rparr> else d)"
    unfolding sweep_def sweep_loop_eq split Let_def d_def ..
  then have "uc_inflight (sweep c) = uc_inflight d" "uc_callbacks (sweep c) = uc_callbacks d" "uc_counters (sweep c) = uc_counters d"
    by simp_all
  then show ?thesis by (simp add: d_def udp_lose_def old_eq udp_request_of_def split_beta)
qed

subsection \<open>A client with two datagrams\<close>

definition sample_udp :: UdpBenchmarkClient where
  "sample_udp =
     \<lparr>uc_counters = (\<lambda>_. 0), uc_latency = [], uc_max_inflight = 4, uc_timeout = one_second, uc_drain_duration = 0,
      uc_socket = False, uc_sweep_timer = None, uc_drain_timer = None, uc_message = [], uc_inflight = [], uc_next_sequence = 0,
      uc_measure_latencies = False, uc_draining = False, uc_finished = False, uc_now = 0, uc_started = 0, uc_posted = [],
      uc_callbacks = [], uc_waiting = False, uc_exit = False, uc_setup_failures = 0\<rparr>"

definition sample_udp_ready :: UdpBenchmarkClient where
  "sample_udp_ready = sample_udp\<lparr>uc_message := [0x78], uc_socket := True, uc_sweep_timer := Some (Some kSweepInterval)\<rparr>"

text \<open>One datagram is sent at time zero, another one second later.\<close>

definition sample_udp_sent :: UdpBenchmarkClient where
  "sample_udp_sent = udp_tryStartRequest True ((udp_tryStartRequest True sample_udp_ready)\<lparr>uc_now := one_second\<rparr>)"

lemma sample_udp_made: "mk_UdpBenchmarkClient 4 one_second 0 0 = Inr sample_udp"
  by (simp add: mk_UdpBenchmarkClient_def sample_udp_def one_second_def)

lemma sample_udp_reachable: "(udp_step hexatoi)\<^sup>*\<^sup>* sample_udp sample_udp_sent"
proof -
  let ?c = "udp_tryStartRequest True sample_udp_ready"
  have "udp_prepare (Some [0x78]) True True True sample_udp = Inr sample_udp_ready"
    by (simp add: udp_prepare_def sample_udp_ready_def sample_udp_def)
  then have "udp_step hexatoi sample_udp sample_udp_ready" by (rule udp_step.udp_prepare) (simp_all add: sample_udp_def)
  moreover have "udp_step hexatoi sample_udp_ready ?c" by (rule udp_step.udp_request) (simp add: sample_udp_ready_def sample_udp_def)
  moreover have "uc_now ?c = 0" "uc_started ?c = 1" by code_simp+
  then have "udp_step hexatoi ?c (?c\<lparr>uc_now := one_second\<rparr>)" "uc_started (?c\<lparr>uc_now := one_second\<rparr>) + 1 < 2 ^ 64"
    by (auto intro: udp_step.udp_tick simp: one_second_def)
  ultimately show ?thesis unfolding sample_udp_sent_def
    by (meson converse_rtranclp_into_rtranclp rtranclp.rtrancl_refl udp_step.udp_request)
qed

theorem udp_datagrams_accounted_witness:
  "uc_counters sample_udp_sent U_datagrams_sent = 2 \<and> length (uc_inflight sample_udp_sent) = 2"
proof -
  have "uc_counters sample_udp_sent U_datagrams_sent = 2" "uc_counters sample_udp_sent U_datagrams_received = 0"
      "uc_counters sample_udp_sent U_lost = 0" by code_simp+
  then show ?thesis using udp_datagrams_accounted [OF sample_udp_made sample_udp_reachable] by simp
qed

theorem udp_sweep_exact_witness:
  "length (uc_inflight (sweep sample_udp_sent)) = 1 \<and> uc_counters (sweep sample_udp_sent) U_lost = 1"
proof -
  let ?old = "\<lambda>(k, d). uc_timeout sample_udp_sent \<le> uc_now sample_udp_sent - ud_sent_at d"
  have "length (filter (\<lambda>kd. \<not> ?old kd) (uc_inflight sample_udp_sent)) = 1" "length (filter ?old (uc_inflight sample_udp_sent)) = 1"
      "uc_counters sample_udp_sent U_lost = 0" by code_simp+
  then show ?thesis using udp_sweep_exact [OF sample_udp_made sample_udp_reachable refl] by simp
qed

end
