(* ===== verification/Spec2Isabelle.thy ===== *)
theory Spec2Isabelle
  imports Sequencer WebSocket HttpClient TcpMessages GrpcAccount WsEcho UdpClient
begin

text \<open>
  A verification development of the load generation engine (\<^verbatim>\<open>src/engine\<close>): rate limiters, options,
  sequencing, statistics, wire formats and load clients.
\<close>

end
